(* ===== verification/Prelude.thy ===== *)
theory Prelude
  imports Main "HOL-Library.Word" "HOL-Library.AList"
begin

unbundle bit_operations_syntax

text \<open>
  Shared vocabulary of the development: the machine integers of the Rust sources, the outcome of a
  call that may panic, big- and little-endian byte codecs (\<open>bytes::BufMut::put_u16\<close>,
  \<open>u32::from_be_bytes\<close>, \<open>f32::to_le_bytes\<close>), hash maps and B-tree maps as association lists,
  slice chunking, and outgoing channel traffic.

  A \<open>std::collections::HashMap\<close> is an association list with distinct keys. Rust leaves the
  iteration order of a hash map unspecified; the order of the association list is one such order, and
  the properties of the development are stated over lookups, key sets and sizes, which no iteration
  order changes. A \<open>BTreeMap\<close> is an association list sorted by its keys.

  A Rust \<open>String\<close> is its sequence of UTF-8 bytes, a \<open>string\<close>.
\<close>

section \<open>Machine integers and outcomes\<close>

type_synonym u8 = "8 word"
type_synonym u16 = "16 word"
type_synonym u32 = "32 word"
type_synonym uuid = "128 word"

text \<open>A call either returns or panics (an index out of range, a slice off a character boundary).\<close>

datatype 'a outcome = Ret 'a | Panic

definition checked_index :: "'a list \<Rightarrow> nat \<Rightarrow> 'a outcome" where
  "checked_index xs i = (if i < length xs then Ret (xs ! i) else Panic)"

definition slice_from_to :: "nat \<Rightarrow> nat \<Rightarrow> 'a list \<Rightarrow> 'a list outcome" where
  \<comment> \<open>\<open>&xs[a..b]\<close>: panics when \<open>a > b\<close> or \<open>b > len\<close>.\<close>
  "slice_from_to a b xs = (if a \<le> b \<and> b \<le> length xs then Ret (take (b - a) (drop a xs)) else Panic)"

named_theorems codec_simps "equations that decode what the encoders write"
named_theorems hmap_simps "lookup, key and size equations of hash maps"
named_theorems step_defs "unfoldings of the state transitions of a component"

section \<open>Byte codecs\<close>

definition put_u16 :: "u16 \<Rightarrow> u8 list" where
  "put_u16 w = [ucast (drop_bit 8 w), ucast w]"

definition put_u32 :: "u32 \<Rightarrow> u8 list" where
  "put_u32 w = [ucast (drop_bit 24 w), ucast (drop_bit 16 w), ucast (drop_bit 8 w), ucast w]"

definition u16_from_be_bytes :: "u8 \<Rightarrow> u8 \<Rightarrow> u16" where
  "u16_from_be_bytes a b = push_bit 8 (ucast a) OR ucast b"

definition u32_from_be_bytes :: "u8 \<Rightarrow> u8 \<Rightarrow> u8 \<Rightarrow> u8 \<Rightarrow> u32" where
  "u32_from_be_bytes a b c d =
     push_bit 24 (ucast a) OR push_bit 16 (ucast b) OR push_bit 8 (ucast c) OR ucast d"

definition u16_to_le_bytes :: "u16 \<Rightarrow> u8 list" where
  "u16_to_le_bytes w = rev (put_u16 w)"

definition u32_to_le_bytes :: "u32 \<Rightarrow> u8 list" where
  "u32_to_le_bytes w = rev (put_u32 w)"

lemma length_put_u16 [simp]: "length (put_u16 w) = 2"
  by (simp add: put_u16_def)

lemma length_put_u32 [simp]: "length (put_u32 w) = 4"
  by (simp add: put_u32_def)

lemma u16_be_roundtrip [codec_simps, simp]:
  "u16_from_be_bytes (ucast (drop_bit 8 w)) (ucast w) = w"
  by (rule bit_word_eqI) (auto simp: u16_from_be_bytes_def bit_simps)

lemma u32_be_roundtrip [codec_simps, simp]:
  "u32_from_be_bytes (ucast (drop_bit 24 w)) (ucast (drop_bit 16 w)) (ucast (drop_bit 8 w)) (ucast w) = w"
proof (rule bit_word_eqI)
  fix n assume "n < LENGTH(32)"
  then consider "n < 8" | "8 \<le> n" "n < 16" | "16 \<le> n" "n < 24" | "24 \<le> n" "n < 32"
    by fastforce
  then show "bit (u32_from_be_bytes (ucast (drop_bit 24 w)) (ucast (drop_bit 16 w))
      (ucast (drop_bit 8 w)) (ucast w)) n = bit w n"
    by cases (auto simp: u32_from_be_bytes_def bit_simps)
qed

section \<open>Maps of the standard library\<close>

text \<open>
  The contract of a keyed store: what a lookup returns after an insertion and a removal, that both
  keep the representation invariant, and that the size is the number of keys. The components that keep
  maps (rooms, members, connections, source slots, the jitter buffer) use only these laws.
\<close>

locale map_store =
  fixes lookup :: "'m \<Rightarrow> 'k \<Rightarrow> 'v option"
    and ins :: "'k \<Rightarrow> 'v \<Rightarrow> 'm \<Rightarrow> 'm"
    and del :: "'k \<Rightarrow> 'm \<Rightarrow> 'm"
    and len :: "'m \<Rightarrow> nat"
    and wf :: "'m \<Rightarrow> bool"
  assumes lookup_ins: "wf m \<Longrightarrow> lookup (ins k v m) = (lookup m)(k \<mapsto> v)"
    and lookup_del: "wf m \<Longrightarrow> lookup (del k m) = (lookup m)(k := None)"
    and wf_ins: "wf m \<Longrightarrow> wf (ins k v m)"
    and wf_del: "wf m \<Longrightarrow> wf (del k m)"
    and finite_keys: "wf m \<Longrightarrow> finite (dom (lookup m))"
    and len_card: "wf m \<Longrightarrow> len m = card (dom (lookup m))"
begin

lemma len_ins:
  "wf m \<Longrightarrow> len (ins k v m) = (if k \<in> dom (lookup m) then len m else Suc (len m))"
  by (simp add: len_card wf_ins lookup_ins finite_keys insert_absorb)

lemma len_ins_le: "wf m \<Longrightarrow> len (ins k v m) \<le> Suc (len m)"
  by (simp add: len_ins)

lemma len_del:
  "wf m \<Longrightarrow> len (del k m) = (if k \<in> dom (lookup m) then len m - 1 else len m)"
  by (simp add: len_card wf_del lookup_del finite_keys)

lemma len_del_le: "wf m \<Longrightarrow> len (del k m) \<le> len m"
  by (simp add: len_del)

lemma len_ins_bound:
  assumes "wf m" "len m < n" shows "len (ins k v m) \<le> n"
  using assms len_ins_le [of m k v] by simp

lemma dom_ins: "wf m \<Longrightarrow> dom (lookup (ins k v m)) = insert k (dom (lookup m))"
  by (simp add: lookup_ins)

lemma dom_del: "wf m \<Longrightarrow> dom (lookup (del k m)) = dom (lookup m) - {k}"
  by (simp add: lookup_del)

end

subsection \<open>Hash maps\<close>

type_synonym ('k, 'v) hmap = "('k \<times> 'v) list"

definition hm_wf :: "('k, 'v) hmap \<Rightarrow> bool" where
  "hm_wf m = distinct (map fst m)"

definition hm_get :: "('k, 'v) hmap \<Rightarrow> 'k \<Rightarrow> 'v option" where
  "hm_get m k = map_of m k"

definition hm_contains :: "('k, 'v) hmap \<Rightarrow> 'k \<Rightarrow> bool" where
  "hm_contains m k = (k \<in> set (map fst m))"

definition hm_insert :: "'k \<Rightarrow> 'v \<Rightarrow> ('k, 'v) hmap \<Rightarrow> ('k, 'v) hmap" where
  "hm_insert k v m = AList.update k v m"

definition hm_remove :: "'k \<Rightarrow> ('k, 'v) hmap \<Rightarrow> ('k, 'v) hmap" where
  "hm_remove k m = AList.delete k m"

definition hm_modify :: "'k \<Rightarrow> ('v \<Rightarrow> 'v) \<Rightarrow> ('k, 'v) hmap \<Rightarrow> ('k, 'v) hmap" where
  \<comment> \<open>\<open>if let Some(v) = m.get_mut(k) { *v = f(*v) }\<close>\<close>
  "hm_modify k f m = map (\<lambda>(k', v). (k', if k' = k then f v else v)) m"

definition hm_keys :: "('k, 'v) hmap \<Rightarrow> 'k list" where
  "hm_keys m = map fst m"

definition hm_values :: "('k, 'v) hmap \<Rightarrow> 'v list" where
  "hm_values m = map snd m"

definition hm_len :: "('k, 'v) hmap \<Rightarrow> nat" where
  "hm_len m = length m"

lemma hm_wf_Nil [simp]: "hm_wf []"
  by (simp add: hm_wf_def)

lemma hm_get_Nil [simp]: "hm_get [] k = None"
  by (simp add: hm_get_def)

lemma hm_get_Cons [simp]: "hm_get ((k, v) # m) k' = (if k' = k then Some v else hm_get m k')"
  by (simp add: hm_get_def)

lemma hm_get_insert [hmap_simps, simp]: "hm_get (hm_insert k v m) = (hm_get m)(k \<mapsto> v)"
  by (simp add: hm_get_def [abs_def] hm_insert_def update_conv')

lemma hm_get_remove [hmap_simps, simp]: "hm_get (hm_remove k m) = (hm_get m)(k := None)"
  by (simp add: hm_get_def [abs_def] hm_remove_def delete_conv')

lemma hm_wf_insert [hmap_simps, simp]: "hm_wf m \<Longrightarrow> hm_wf (hm_insert k v m)"
  by (simp add: hm_wf_def hm_insert_def distinct_update)

lemma hm_wf_remove [hmap_simps, simp]: "hm_wf m \<Longrightarrow> hm_wf (hm_remove k m)"
  by (simp add: hm_wf_def hm_remove_def distinct_delete)

lemma hm_dom [hmap_simps]: "dom (hm_get m) = set (hm_keys m)"
  by (simp add: hm_get_def [abs_def] hm_keys_def dom_map_of_conv_image_fst)

lemma hm_contains_get [hmap_simps]: "hm_contains m k \<longleftrightarrow> (\<exists>v. hm_get m k = Some v)"
  using hm_dom [of m] by (auto simp: hm_contains_def hm_keys_def)

lemma hm_get_None_iff: "hm_get m k = None \<longleftrightarrow> \<not> hm_contains m k"
  by (auto simp: hm_contains_get)

lemma hm_len_card: "hm_wf m \<Longrightarrow> hm_len m = card (dom (hm_get m))"
  using distinct_card [of "map fst m"] by (simp add: hm_wf_def hm_dom hm_keys_def hm_len_def)

interpretation hm: map_store hm_get hm_insert hm_remove hm_len hm_wf
  by unfold_locales (auto simp: hm_len_card hm_dom)

lemma hm_get_modify [hmap_simps, simp]:
  "hm_get (hm_modify k f m) k' = (if k' = k then map_option f (hm_get m k) else hm_get m k')"
  by (induction m) (auto simp: hm_modify_def hm_get_def)

lemma hm_keys_modify [hmap_simps, simp]: "hm_keys (hm_modify k f m) = hm_keys m"
  by (auto simp: hm_modify_def hm_keys_def)

lemma hm_wf_modify [hmap_simps, simp]: "hm_wf (hm_modify k f m) = hm_wf m"
  using hm_keys_modify [of k f m] by (simp add: hm_wf_def hm_keys_def)

lemma hm_len_modify [hmap_simps, simp]: "hm_len (hm_modify k f m) = hm_len m"
  by (simp add: hm_len_def hm_modify_def)

lemma hm_get_in_set: "hm_get m k = Some v \<Longrightarrow> (k, v) \<in> set m"
  by (simp add: hm_get_def map_of_SomeD)

lemma hm_in_set_get: "hm_wf m \<Longrightarrow> (k, v) \<in> set m \<longleftrightarrow> hm_get m k = Some v"
  by (simp add: hm_wf_def hm_get_def map_of_eq_Some_iff)

lemma hm_ball_get:
  "hm_wf m \<Longrightarrow> (\<forall>(k, v) \<in> set m. P k v) \<longleftrightarrow> (\<forall>k v. hm_get m k = Some v \<longrightarrow> P k v)"
  by (auto simp: hm_in_set_get)

lemma hm_values_set: "hm_wf m \<Longrightarrow> set (hm_values m) = ran (hm_get m)"
  by (force simp: hm_values_def ran_def hm_in_set_get [symmetric] image_iff)

lemma hm_wf_filter [simp]: "hm_wf m \<Longrightarrow> hm_wf (filter P m)"
  by (simp add: hm_wf_def distinct_map_filter)

lemma hm_get_filter:
  assumes "hm_wf m"
  shows "hm_get (filter P m) k = (case hm_get m k of None \<Rightarrow> None | Some v \<Rightarrow> if P (k, v) then Some v else None)"
proof (cases "hm_get (filter P m) k")
  case None
  then have "\<forall>v. (k, v) \<notin> set (filter P m)"
    by (metis assms hm_in_set_get hm_wf_filter option.distinct(1))
  then show ?thesis
    using None by (auto simp: hm_in_set_get assms split: option.split)
next
  case (Some v)
  then have "(k, v) \<in> set (filter P m)"
    by (rule hm_get_in_set)
  then show ?thesis
    using Some by (auto simp: hm_in_set_get assms)
qed

lemma hm_remove_absent: "hm_get m k = None \<Longrightarrow> hm_remove k m = m"
  using hm_dom [of m] by (metis delete_id domIff hm_keys_def hm_remove_def list.set_map)

lemma hm_empty_iff: "m = [] \<longleftrightarrow> hm_get m = Map.empty"
  using hm_dom [of m] by (auto simp: hm_keys_def)

subsection \<open>B-tree maps\<close>

text \<open>A \<open>BTreeMap\<close> is an association list in strictly increasing key order.\<close>

type_synonym ('k, 'v) btmap = "('k \<times> 'v) list"

definition bt_wf :: "('k::linorder, 'v) btmap \<Rightarrow> bool" where
  "bt_wf m = sorted_wrt (<) (map fst m)"

fun bt_insert :: "'k::linorder \<Rightarrow> 'v \<Rightarrow> ('k, 'v) btmap \<Rightarrow> ('k, 'v) btmap" where
  "bt_insert k v [] = [(k, v)]"
| "bt_insert k v (e # m) =
     (if k = fst e then (k, v) # m else if k < fst e then (k, v) # e # m else e # bt_insert k v m)"

definition bt_remove :: "'k \<Rightarrow> ('k, 'v) btmap \<Rightarrow> ('k, 'v) btmap" where
  "bt_remove k m = AList.delete k m"

definition bt_first_key :: "('k, 'v) btmap \<Rightarrow> 'k option" where
  "bt_first_key m = (case m of [] \<Rightarrow> None | e # _ \<Rightarrow> Some (fst e))"

lemma bt_wf_distinct: "bt_wf m \<Longrightarrow> distinct (map fst m)"
  by (auto simp: bt_wf_def strict_sorted_iff)

lemma bt_wf_Cons [simp]: "bt_wf (e # m) \<longleftrightarrow> (\<forall>k \<in> fst ` set m. fst e < k) \<and> bt_wf m"
  by (auto simp: bt_wf_def)

lemma bt_wf_Nil [simp]: "bt_wf []"
  by (simp add: bt_wf_def)

lemma fst_set_bt_insert: "fst ` set (bt_insert k v m) = insert k (fst ` set m)"
  by (induction m) auto

lemma bt_wf_insert [simp]: "bt_wf m \<Longrightarrow> bt_wf (bt_insert k v m)"
  by (induction m) (auto simp: fst_set_bt_insert)

lemma bt_get_insert: "bt_wf m \<Longrightarrow> map_of (bt_insert k v m) = (map_of m)(k \<mapsto> v)"
  by (induction m) auto

lemma bt_remove_filter: "bt_remove k m = filter (\<lambda>e. fst e \<noteq> k) m"
  by (auto simp: bt_remove_def AList.delete_eq intro: filter_cong)

lemma bt_wf_filter [simp]: "bt_wf m \<Longrightarrow> bt_wf (filter P m)"
  by (induction m) auto

lemma bt_len_card: "bt_wf m \<Longrightarrow> length m = card (dom (map_of m))"
  using bt_wf_distinct [of m] distinct_card [of "map fst m"]
  by (simp add: dom_map_of_conv_image_fst)

lemma bt_get_remove: "map_of (bt_remove k m) = (map_of m)(k := None)"
  by (simp add: bt_remove_def delete_conv')

lemma bt_wf_remove: "bt_wf m \<Longrightarrow> bt_wf (bt_remove k m)"
  by (simp add: bt_remove_filter)

interpretation bt: map_store map_of bt_insert bt_remove length bt_wf
  by unfold_locales
    (simp_all add: bt_get_insert bt_get_remove bt_wf_remove bt_len_card finite_dom_map_of)

end
