(* ===== verification/Core_Types.thy ===== *)
theory Core_Types
  imports Prelude
begin

text \<open>
  The types of the crate \<open>seameet-core\<close>: participant identifiers (\<open>participant.rs\<close>), errors
  (\<open>error.rs\<close>), tracks (\<open>track.rs\<close>), frames (\<open>frame.rs\<close>), room events (\<open>events.rs\<close>) and the
  processor trait with its passthrough implementation (\<open>traits.rs\<close>).

  An \<open>f32\<close> that is only stored and copied is its 32-bit pattern. A \<open>Duration\<close> is a number of
  nanoseconds. A UUID is 128 bits, as the \<open>uuid\<close> crate documents.
\<close>

section \<open>Identifiers and errors\<close>

datatype participant_id = ParticipantId (as_uuid: uuid)

type_synonym f32 = "32 word"
type_synonym duration = nat

datatype sea_error =
    Io string
  | Signaling string
  | Codec string
  | PeerConnection string
  | RoomFull
  | ParticipantNotFound participant_id

type_synonym 'a sea_result = "sea_error + 'a"

text \<open>\<open>Display\<close> of an unsigned integer, as \<open>format!\<close> uses it in error messages.\<close>

fun show_nat :: "nat \<Rightarrow> string" where
  "show_nat n = (if n < 10 then [char_of (48 + n)] else show_nat (n div 10) @ [char_of (48 + n mod 10)])"

declare show_nat.simps [simp del]

section \<open>Tracks\<close>

datatype track_id = TrackId u32

datatype track_direction = SendOnly | RecvOnly | SendRecv

datatype video_track_kind = Camera | Screen

text \<open>
  A handle holds an \<open>Arc\<close> to its inner state, so clones share it: the handle is an address into a
  store of inner states, and \<open>clone\<close> copies the address. The inner state is the mute flag and the
  number of stop signals broadcast.
\<close>

record track_inner =
  ti_muted :: bool
  ti_stops :: nat

type_synonym track_store = "(nat, track_inner) hmap"

record track_handle =
  th_id :: track_id
  th_kind :: video_track_kind
  th_inner :: nat

definition track_with_kind :: "track_id \<Rightarrow> video_track_kind \<Rightarrow> nat \<Rightarrow> track_store \<Rightarrow> track_handle \<times> track_store" where
  \<comment> \<open>\<open>Arc::new\<close> takes a fresh address \<open>a\<close>.\<close>
  "track_with_kind i k a st =
     (\<lparr>th_id = i, th_kind = k, th_inner = a\<rparr>, hm_insert a \<lparr>ti_muted = False, ti_stops = 0\<rparr> st)"

definition track_new :: "track_id \<Rightarrow> nat \<Rightarrow> track_store \<Rightarrow> track_handle \<times> track_store" where
  "track_new i a st = track_with_kind i Camera a st"

definition track_mute :: "track_handle \<Rightarrow> track_store \<Rightarrow> track_store" where
  "track_mute h st = hm_modify (th_inner h) (\<lambda>t. t\<lparr>ti_muted := True\<rparr>) st"

definition track_unmute :: "track_handle \<Rightarrow> track_store \<Rightarrow> track_store" where
  "track_unmute h st = hm_modify (th_inner h) (\<lambda>t. t\<lparr>ti_muted := False\<rparr>) st"

definition track_is_muted :: "track_handle \<Rightarrow> track_store \<Rightarrow> bool option" where
  "track_is_muted h st = map_option ti_muted (hm_get st (th_inner h))"

definition track_close :: "track_handle \<Rightarrow> track_store \<Rightarrow> track_store" where
  "track_close h st = hm_modify (th_inner h) (\<lambda>t. t\<lparr>ti_stops := Suc (ti_stops t)\<rparr>) st"

section \<open>Frames, events and processors\<close>

record pcm_frame =
  pf_samples :: "f32 list"
  pf_sample_rate :: u32
  pf_channels :: u16

record video_frame =
  vf_data :: "u8 list"
  vf_width :: u32
  vf_height :: u32
  vf_pts :: duration

datatype encoded_audio = EncodedAudio (ea_bytes: "u8 list")

record encoded_video =
  ev_data :: "u8 list"
  ev_is_keyframe :: bool
  ev_pts :: duration

datatype room_event =
    ParticipantJoined participant_id
  | ParticipantLeft participant_id
  | RoomEmpty
  | RoomEnded "participant_id list" duration
  | SpeechStarted participant_id
  | SpeechEnded participant_id duration
  | Silence participant_id duration
  | NetworkDegraded participant_id f32
  | ScreenShareStartedEv participant_id track_id
  | ScreenShareStoppedEv participant_id track_id
  | CustomEv participant_id

datatype processor_hint = Forward | Drop | Emit room_event

definition passthrough_audio :: "pcm_frame \<Rightarrow> processor_hint \<times> pcm_frame" where
  "passthrough_audio f = (Forward, f)"

definition passthrough_video :: "video_frame \<Rightarrow> processor_hint \<times> video_frame" where
  "passthrough_video f = (Forward, f)"

section \<open>Handles that share their state\<close>

lemma track_mute_muted:
  "hm_get st (th_inner h) = Some t \<Longrightarrow> track_is_muted h (track_mute h st) = Some True"
  by (simp add: track_is_muted_def track_mute_def)

lemma track_is_muted_shared:
  "th_inner h = th_inner h' \<Longrightarrow> track_is_muted h' st = track_is_muted h st"
  by (simp add: track_is_muted_def)

lemma track_frame:
  "th_inner h \<noteq> th_inner h' \<Longrightarrow>
   track_is_muted h' (track_mute h st) = track_is_muted h' st \<and>
   track_is_muted h' (track_unmute h st) = track_is_muted h' st \<and>
   track_is_muted h' (track_close h st) = track_is_muted h' st"
  by (simp add: track_is_muted_def track_mute_def track_unmute_def track_close_def)

end
