(* ===== verification/Bytes.thy ===== *)
theory Bytes
  imports Prelude
begin

unbundle bit_operations_syntax

text \<open>
  Reading and writing byte buffers. A read at an offset indexes the slice as the Rust code does, so it
  panics past the end; a reader that has checked the length first is then proved never to panic.
  The last section splits a slice into chunks (\<open>slice::chunks\<close>, \<open>slice::chunks_exact\<close>).
\<close>

section \<open>Reads that may panic\<close>

definition obind :: "'a outcome \<Rightarrow> ('a \<Rightarrow> 'b outcome) \<Rightarrow> 'b outcome" where
  "obind m f = (case m of Ret a \<Rightarrow> f a | Panic \<Rightarrow> Panic)"

lemma obind_simps [simp]: "obind (Ret a) f = f a" "obind Panic f = Panic"
  by (simp_all add: obind_def)

lemma obind_Ret_iff: "obind m f = Ret b \<longleftrightarrow> (\<exists>a. m = Ret a \<and> f a = Ret b)"
  by (cases m) simp_all

abbreviation byte_at :: "u8 list \<Rightarrow> nat \<Rightarrow> u8 outcome" where
  "byte_at buf i \<equiv> checked_index buf i"

definition read_u16 :: "u8 list \<Rightarrow> nat \<Rightarrow> u16 outcome" where
  "read_u16 buf i = obind (byte_at buf i) (\<lambda>a. obind (byte_at buf (i + 1)) (\<lambda>b.
     Ret (u16_from_be_bytes a b)))"

definition read_u32 :: "u8 list \<Rightarrow> nat \<Rightarrow> u32 outcome" where
  "read_u32 buf i = obind (byte_at buf i) (\<lambda>a. obind (byte_at buf (i + 1)) (\<lambda>b.
     obind (byte_at buf (i + 2)) (\<lambda>c. obind (byte_at buf (i + 3)) (\<lambda>d.
     Ret (u32_from_be_bytes a b c d)))))"

fun read_u32s :: "u8 list \<Rightarrow> nat \<Rightarrow> nat \<Rightarrow> u32 list outcome" where
  "read_u32s buf off 0 = Ret []"
| "read_u32s buf off (Suc n) =
     obind (read_u32 buf off) (\<lambda>w. obind (read_u32s buf (off + 4) n) (\<lambda>ws. Ret (w # ws)))"

section \<open>Writers invert readers\<close>

lemma put_u16_be [codec_simps, simp]: "put_u16 (u16_from_be_bytes a b) = [a, b]"
  unfolding put_u16_def u16_from_be_bytes_def
  by (intro list.inject [THEN iffD2] conjI bit_word_eqI) (auto simp: bit_simps dest: bit_imp_le_length)

lemma put_u32_be [codec_simps, simp]: "put_u32 (u32_from_be_bytes a b c d) = [a, b, c, d]"
  unfolding put_u32_def u32_from_be_bytes_def
  by (intro list.inject [THEN iffD2] conjI bit_word_eqI) (auto simp: bit_simps dest: bit_imp_le_length)

lemma put_u16_cases: "put_u16 w = [ucast (drop_bit 8 w), ucast w]"
  by (simp add: put_u16_def)

lemma byte_at_drop: "drop i buf = b # rest \<Longrightarrow> byte_at buf i = Ret b"
  by (metis checked_index_def drop_eq_Nil hd_drop_conv_nth leI list.discI list.sel(1))

lemma drop_Suc_tl: "drop i buf = b # rest \<Longrightarrow> drop (Suc i) buf = rest"
  by (metis drop_Suc list.sel(3) tl_drop)

lemma drop_add2: "drop i buf = a # b # rest \<Longrightarrow> drop (i + 2) buf = rest"
  by (metis add_2_eq_Suc' drop_Suc_tl)

lemma byte_at_range: "i < length buf \<Longrightarrow> byte_at buf i = Ret (buf ! i)"
  by (simp add: checked_index_def)

lemma byte_at_Ret_iff: "byte_at buf i = Ret b \<longleftrightarrow> i < length buf \<and> b = buf ! i"
  by (auto simp: checked_index_def)

lemma read_u16_range: "i + 1 < length buf \<Longrightarrow> read_u16 buf i = Ret (u16_from_be_bytes (buf ! i) (buf ! (i + 1)))"
  by (simp add: read_u16_def byte_at_range)

lemma read_u32_range:
  "i + 3 < length buf \<Longrightarrow>
   read_u32 buf i = Ret (u32_from_be_bytes (buf ! i) (buf ! (i + 1)) (buf ! (i + 2)) (buf ! (i + 3)))"
  by (simp add: read_u32_def byte_at_range)

lemma read_u16_drop:
  assumes "drop i buf = put_u16 w @ rest" shows "read_u16 buf i = Ret w"
proof -
  have i: "drop i buf = ucast (drop_bit 8 w) # ucast w # rest"
    using assms by (simp add: put_u16_def)
  show ?thesis
    using byte_at_drop [OF i] byte_at_drop [OF drop_Suc_tl [OF i]] by (simp add: read_u16_def)
qed

lemma read_u32_drop:
  assumes "drop i buf = put_u32 w @ rest" shows "read_u32 buf i = Ret w"
proof -
  have 0: "drop i buf = ucast (drop_bit 24 w) # ucast (drop_bit 16 w) # ucast (drop_bit 8 w) # ucast w # rest"
    using assms by (simp add: put_u32_def)
  note 1 = drop_Suc_tl [OF 0] note 2 = drop_Suc_tl [OF 1] note 3 = drop_Suc_tl [OF 2]
  show ?thesis
    using byte_at_drop [OF 0] byte_at_drop [OF 1] byte_at_drop [OF 2] byte_at_drop [OF 3]
    by (simp add: read_u32_def numeral_2_eq_2 numeral_3_eq_3)
qed

lemma drop_append_at: "drop i buf = xs @ rest \<Longrightarrow> drop (i + length xs) buf = rest"
  by (metis add.commute append_eq_conv_conj drop_drop)

lemma read_u32s_drop:
  "drop off buf = concat (map put_u32 ws) @ rest \<Longrightarrow> read_u32s buf off (length ws) = Ret ws"
proof (induction ws arbitrary: off)
  case (Cons w ws)
  then have "drop off buf = put_u32 w @ (concat (map put_u32 ws) @ rest)"
    by simp
  from read_u32_drop [OF this] drop_append_at [OF this] Cons.IH [of "off + 4"]
  show ?case by simp
qed simp

lemma take4_drop: "i + 3 < length buf \<Longrightarrow> take 4 (drop i buf) = [buf ! i, buf ! (i + 1), buf ! (i + 2), buf ! (i + 3)]"
  by (intro nth_equalityI) (auto simp: less_Suc_eq numeral_eq_Suc)

lemma read_u32_take:
  "read_u32 buf i = Ret w \<Longrightarrow> i + 4 \<le> length buf \<and> take 4 (drop i buf) = put_u32 w"
  by (auto simp: read_u32_def obind_Ret_iff byte_at_Ret_iff take4_drop)

lemma read_u32s_take:
  "read_u32s buf off n = Ret ws \<Longrightarrow> off \<le> length buf \<Longrightarrow>
   length ws = n \<and> off + 4 * n \<le> length buf \<and> take (4 * n) (drop off buf) = concat (map put_u32 ws)"
proof (induction n arbitrary: off ws)
  case (Suc n)
  then obtain w ws' where w: "read_u32 buf off = Ret w" and ws': "read_u32s buf (off + 4) n = Ret ws'"
    and ws: "ws = w # ws'" by (auto simp: obind_Ret_iff)
  from read_u32_take [OF w] have len: "off + 4 \<le> length buf" and hd: "take 4 (drop off buf) = put_u32 w"
    by auto
  from Suc.IH [OF ws' len] have "length ws' = n" "off + 4 + 4 * n \<le> length buf"
    "take (4 * n) (drop (off + 4) buf) = concat (map put_u32 ws')" by auto
  moreover have "take (4 * Suc n) (drop off buf) = take 4 (drop off buf) @ take (4 * n) (drop (off + 4) buf)"
    using take_add [of 4 "4 * n" "drop off buf"] by (simp add: add.commute)
  ultimately show ?case using ws hd by simp
qed simp

lemma read_u32s_range: "off + 4 * n \<le> length buf \<Longrightarrow> \<exists>ws. read_u32s buf off n = Ret ws"
proof (induction n arbitrary: off)
  case (Suc n)
  then have "off + 4 + 4 * n \<le> length buf" by simp
  from Suc.IH [OF this] obtain ws where "read_u32s buf (off + 4) n = Ret ws" ..
  with Suc.prems show ?case by (simp add: read_u32_range)
qed simp

lemma length_put_u32s [simp]: "length (concat (map put_u32 ws)) = 4 * length ws"
  by (induction ws) auto

lemma take2_drop: "i + 1 < length buf \<Longrightarrow> take 2 (drop i buf) = [buf ! i, buf ! (i + 1)]"
  by (intro nth_equalityI) (auto simp: less_Suc_eq numeral_eq_Suc)

lemma read_u16_take:
  "read_u16 buf i = Ret w \<Longrightarrow> i + 2 \<le> length buf \<and> take 2 (drop i buf) = put_u16 w"
  by (auto simp: read_u16_def obind_Ret_iff byte_at_Ret_iff take2_drop)

section \<open>Chunks of a slice\<close>

text \<open>\<open>slice::chunks(n)\<close> for \<open>n > 0\<close>; the last chunk may be shorter. Rust panics for \<open>n = 0\<close>.\<close>

function chunks :: "nat \<Rightarrow> 'a list \<Rightarrow> 'a list list" where
  "chunks n xs = (if xs = [] \<or> n = 0 then [] else take n xs # chunks n (drop n xs))"
  by pat_completeness auto
termination
  by (relation "measure (\<lambda>(n, xs). length xs)") auto

declare chunks.simps [simp del]

lemma chunks_Nil [simp]: "chunks n [] = []"
  by (simp add: chunks.simps)

lemma concat_chunks: "0 < n \<Longrightarrow> concat (chunks n xs) = xs"
  by (induction n xs rule: chunks.induct) (subst chunks.simps, auto)

lemma chunks_bounds: "c \<in> set (chunks n xs) \<Longrightarrow> c \<noteq> [] \<and> length c \<le> n"
proof (induction n xs rule: chunks.induct)
  case (1 n xs)
  show ?case
  proof (cases "xs = [] \<or> n = 0")
    case True
    with "1.prems" show ?thesis by (simp add: chunks.simps [of n xs])
  next
    case False
    with "1.prems" have "c = take n xs \<or> c \<in> set (chunks n (drop n xs))"
      by (simp add: chunks.simps [of n xs])
    with False "1.IH" show ?thesis by auto
  qed
qed

lemma length_chunks: "0 < n \<Longrightarrow> length (chunks n xs) = (length xs + n - 1) div n"
proof (induction n xs rule: chunks.induct)
  case (1 n xs)
  show ?case
  proof (cases "xs = []")
    case False
    with "1" have "length (chunks n xs) = Suc ((length xs - n + n - 1) div n)"
      by (simp add: chunks.simps [of n xs])
    also have "\<dots> = (length xs + n - 1) div n"
    proof (cases "n \<le> length xs")
      case True
      then have "length xs + n - 1 = (length xs - n + n - 1) + n" using \<open>0 < n\<close> by simp
      then show ?thesis using \<open>0 < n\<close> by (metis add.commute div_add_self1 less_numeral_extra(3) plus_1_eq_Suc)
    next
      case no: False
      then have "(length xs - n + n - 1) div n = 0" using \<open>0 < n\<close> by simp
      moreover have "(length xs + n - 1) div n = 1"
        using no False \<open>0 < n\<close> by (intro div_nat_eqI) (auto simp: Suc_le_eq le_diff_conv neq_Nil_conv)
      ultimately show ?thesis by simp
    qed
    finally show ?thesis .
  qed (use \<open>0 < n\<close> in simp)
qed

end
