(* ===== verification/Rtp_Packet.thy ===== *)
theory Rtp_Packet
  imports Core_Types Bytes
begin

unbundle bit_operations_syntax

text \<open>
  \<open>seameet-rtp/src/packet.rs\<close>: the RTP packet, its constructors, its serialisation
  \<open>to_bytes\<close> and its parser \<open>from_bytes\<close>. Parsing is total (it never panics), serialisation and
  parsing are inverse to each other on well-formed packets and on accepted buffers.
\<close>

definition RTP_VERSION :: u8 where "RTP_VERSION = 2"
definition RTP_HEADER_SIZE :: nat where "RTP_HEADER_SIZE = 12"
definition PT_AUDIO :: u8 where "PT_AUDIO = 111"
definition PT_VIDEO :: u8 where "PT_VIDEO = 96"

record rtp_packet =
  rp_version :: u8
  rp_padding :: bool
  rp_extension :: bool
  rp_cc :: u8
  rp_marker :: bool
  rp_payload_type :: u8
  rp_sequence_number :: u16
  rp_timestamp :: u32
  rp_ssrc :: u32
  rp_csrc :: "u32 list"
  rp_payload :: "u8 list"

definition new_audio :: "u8 list \<Rightarrow> u32 \<Rightarrow> u32 \<Rightarrow> u16 \<Rightarrow> rtp_packet" where
  "new_audio payload ts ssrc seq =
     \<lparr>rp_version = RTP_VERSION, rp_padding = False, rp_extension = False, rp_cc = 0,
      rp_marker = False, rp_payload_type = PT_AUDIO, rp_sequence_number = seq, rp_timestamp = ts,
      rp_ssrc = ssrc, rp_csrc = [], rp_payload = payload\<rparr>"

definition new_video :: "u8 list \<Rightarrow> u32 \<Rightarrow> u32 \<Rightarrow> u16 \<Rightarrow> bool \<Rightarrow> rtp_packet" where
  "new_video payload ts ssrc seq marker =
     \<lparr>rp_version = RTP_VERSION, rp_padding = False, rp_extension = False, rp_cc = 0,
      rp_marker = marker, rp_payload_type = PT_VIDEO, rp_sequence_number = seq, rp_timestamp = ts,
      rp_ssrc = ssrc, rp_csrc = [], rp_payload = payload\<rparr>"

definition bool_u8 :: "bool \<Rightarrow> u8" where
  "bool_u8 b = (if b then 1 else 0)"

definition rtp_first_byte :: "rtp_packet \<Rightarrow> u8" where
  "rtp_first_byte p = push_bit 6 (rp_version p) OR push_bit 5 (bool_u8 (rp_padding p))
     OR push_bit 4 (bool_u8 (rp_extension p)) OR (rp_cc p AND 0x0F)"

definition rtp_second_byte :: "rtp_packet \<Rightarrow> u8" where
  "rtp_second_byte p = push_bit 7 (bool_u8 (rp_marker p)) OR (rp_payload_type p AND 0x7F)"

definition rtp_to_bytes :: "rtp_packet \<Rightarrow> u8 list" where
  "rtp_to_bytes p =
     [rtp_first_byte p, rtp_second_byte p] @ put_u16 (rp_sequence_number p)
     @ put_u32 (rp_timestamp p) @ put_u32 (rp_ssrc p)
     @ concat (map put_u32 (rp_csrc p)) @ rp_payload p"

definition rtp_from_bytes :: "u8 list \<Rightarrow> rtp_packet sea_result outcome" where
  "rtp_from_bytes buf =
    (if length buf < RTP_HEADER_SIZE then Ret (Inl (PeerConnection ''RTP packet too short''))
     else obind (byte_at buf 0) (\<lambda>b0.
       let version = drop_bit 6 b0 AND 0x03 in
       if version \<noteq> RTP_VERSION
       then Ret (Inl (PeerConnection (''unsupported RTP version: '' @ show_nat (unat version))))
       else
         let padding = (drop_bit 5 b0 AND 0x01 \<noteq> 0);
             extension = (drop_bit 4 b0 AND 0x01 \<noteq> 0);
             cc = b0 AND 0x0F in
         obind (byte_at buf 1) (\<lambda>b1.
         let marker = (drop_bit 7 b1 AND 0x01 \<noteq> 0);
             payload_type = b1 AND 0x7F in
         obind (read_u16 buf 2) (\<lambda>sequence_number.
         obind (read_u32 buf 4) (\<lambda>timestamp.
         obind (read_u32 buf 8) (\<lambda>ssrc.
         let csrc_end = RTP_HEADER_SIZE + unat cc * 4 in
         if length buf < csrc_end
         then Ret (Inl (PeerConnection ''RTP packet too short for CSRC list''))
         else obind (read_u32s buf RTP_HEADER_SIZE (unat cc)) (\<lambda>csrc.
           obind (slice_from_to csrc_end (length buf) buf) (\<lambda>payload.
           Ret (Inr
            \<lparr>rp_version = version, rp_padding = padding, rp_extension = extension, rp_cc = cc,
             rp_marker = marker, rp_payload_type = payload_type,
             rp_sequence_number = sequence_number, rp_timestamp = timestamp, rp_ssrc = ssrc,
             rp_csrc = csrc, rp_payload = payload\<rparr>)))))))))"

text \<open>What the wire format can carry: version 2, a 4-bit CSRC count that counts the CSRC list, a 7-bit
payload type.\<close>

definition rtp_wf :: "rtp_packet \<Rightarrow> bool" where
  "rtp_wf p \<longleftrightarrow> rp_version p = RTP_VERSION \<and> unat (rp_cc p) < 16
     \<and> length (rp_csrc p) = unat (rp_cc p) \<and> unat (rp_payload_type p) < 128"

section \<open>Header bits\<close>

lemma bool_u8_bit: "bit (bool_u8 b) n \<longleftrightarrow> b \<and> n = 0"
  by (auto simp: bool_u8_def bit_1_iff)

lemma mask4_u8: "(w :: u8) AND 0x0F = take_bit 4 w"
  by (simp add: take_bit_eq_mask mask_eq_exp_minus_1)

lemma mask7_u8: "(w :: u8) AND 0x7F = take_bit 7 w"
  by (simp add: take_bit_eq_mask mask_eq_exp_minus_1)

lemma mask2_u8: "(w :: u8) AND 0x03 = take_bit 2 w"
  by (simp add: take_bit_eq_mask mask_eq_exp_minus_1)

lemma and_1_neq_0: "((w :: u8) AND 0x01 \<noteq> 0) = bit w 0"
  by (simp add: and_one_eq bit_0 odd_iff_mod_2_eq_one)

lemma take_bit_u8_small: "unat (w :: u8) < 2 ^ n \<Longrightarrow> take_bit n w = w"
  by (metis take_bit_nat_eq_self unsigned_take_bit_eq word_unat_eq_iff)

lemma unat_take_bit_u8: "unat (take_bit n (w :: u8)) < 2 ^ n"
  by (simp add: unsigned_take_bit_eq)

lemmas header_bit_simps = mask4_u8 mask7_u8 mask2_u8 and_1_neq_0 bit_simps bool_u8_bit

lemma bit_RTP_VERSION: "bit RTP_VERSION n \<longleftrightarrow> n = 1"
  by (cases n) (auto simp: RTP_VERSION_def bit_Suc bit_0 bit_1_iff)

lemma rtp_first_byte_fields:
  assumes "rp_version p = RTP_VERSION"
  shows "drop_bit 6 (rtp_first_byte p) AND 0x03 = RTP_VERSION"
    and "(drop_bit 5 (rtp_first_byte p) AND 0x01 \<noteq> 0) = rp_padding p"
    and "(drop_bit 4 (rtp_first_byte p) AND 0x01 \<noteq> 0) = rp_extension p"
    and "rtp_first_byte p AND 0x0F = rp_cc p AND 0x0F"
proof -
  show "drop_bit 6 (rtp_first_byte p) AND 0x03 = RTP_VERSION"
    using assms by (intro bit_word_eqI)
      (auto simp: rtp_first_byte_def header_bit_simps bit_RTP_VERSION)
  show "(drop_bit 5 (rtp_first_byte p) AND 0x01 \<noteq> 0) = rp_padding p"
    "(drop_bit 4 (rtp_first_byte p) AND 0x01 \<noteq> 0) = rp_extension p"
    using assms by (auto simp: rtp_first_byte_def header_bit_simps)
  show "rtp_first_byte p AND 0x0F = rp_cc p AND 0x0F"
    by (intro bit_word_eqI) (auto simp: rtp_first_byte_def header_bit_simps)
qed

lemma rtp_second_byte_fields:
  shows "(drop_bit 7 (rtp_second_byte p) AND 0x01 \<noteq> 0) = rp_marker p"
    and "rtp_second_byte p AND 0x7F = rp_payload_type p AND 0x7F"
proof -
  show "(drop_bit 7 (rtp_second_byte p) AND 0x01 \<noteq> 0) = rp_marker p"
    by (auto simp: rtp_second_byte_def header_bit_simps)
  show "rtp_second_byte p AND 0x7F = rp_payload_type p AND 0x7F"
    by (intro bit_word_eqI) (auto simp: rtp_second_byte_def header_bit_simps)
qed

section \<open>The parser never panics\<close>

lemma and_0F_le: "unat ((w :: u8) AND 0x0F) < 16"
  using unat_take_bit_u8 [of 4 w] by (simp add: mask4_u8)

lemma and_7F_le: "unat ((w :: u8) AND 0x7F) < 128"
  using unat_take_bit_u8 [of 7 w] by (simp add: mask7_u8)

text \<open>\<open>RtpPacket::from_bytes\<close> returns (a packet or an error) on every byte slice: no index and no
slice of the parser is ever out of range, so no datagram can make it panic.\<close>

lemma rtp_from_bytes_total: "\<exists>r. rtp_from_bytes buf = Ret r"
proof (cases "length buf < 12")
  case False
  then have len: "12 \<le> length buf" by simp
  then have b01: "byte_at buf 0 = Ret (buf ! 0)" "byte_at buf (Suc 0) = Ret (buf ! Suc 0)"
    by (simp_all only: byte_at_range)
  define cc where "cc = unat (buf ! 0 AND 0x0F)"
  show ?thesis
  proof (cases "length buf < 12 + cc * 4")
    case True
    with len show ?thesis
      by (simp add: rtp_from_bytes_def RTP_HEADER_SIZE_def b01 read_u16_range read_u32_range
          Let_def cc_def)
  next
    case False
    then obtain ws where "read_u32s buf 12 cc = Ret ws"
      using read_u32s_range [of 12 cc buf] by (auto simp: mult.commute)
    with len False show ?thesis
      by (simp add: rtp_from_bytes_def RTP_HEADER_SIZE_def b01 read_u16_range read_u32_range
          Let_def cc_def slice_from_to_def)
  qed
qed (simp add: rtp_from_bytes_def RTP_HEADER_SIZE_def)

section \<open>Round trips\<close>

lemma rtp_to_bytes_shape:
  fixes p defines "buf \<equiv> rtp_to_bytes p"
  shows "byte_at buf 0 = Ret (rtp_first_byte p)" "byte_at buf 1 = Ret (rtp_second_byte p)"
    "read_u16 buf 2 = Ret (rp_sequence_number p)" "read_u32 buf 4 = Ret (rp_timestamp p)"
    "read_u32 buf 8 = Ret (rp_ssrc p)"
    "read_u32s buf 12 (length (rp_csrc p)) = Ret (rp_csrc p)"
    "length buf = 12 + length (rp_csrc p) * 4 + length (rp_payload p)"
    "drop (12 + length (rp_csrc p) * 4) buf = rp_payload p"
proof -
  show "byte_at buf 0 = Ret (rtp_first_byte p)" "byte_at buf 1 = Ret (rtp_second_byte p)"
    by (simp_all add: buf_def rtp_to_bytes_def checked_index_def)
  show "read_u16 buf 2 = Ret (rp_sequence_number p)"
    by (rule read_u16_drop) (simp add: buf_def rtp_to_bytes_def)
  show "read_u32 buf 4 = Ret (rp_timestamp p)"
    by (rule read_u32_drop) (simp add: buf_def rtp_to_bytes_def)
  show "read_u32 buf 8 = Ret (rp_ssrc p)"
    by (rule read_u32_drop) (simp add: buf_def rtp_to_bytes_def)
  show "read_u32s buf 12 (length (rp_csrc p)) = Ret (rp_csrc p)"
    by (rule read_u32s_drop) (simp add: buf_def rtp_to_bytes_def)
  show "length buf = 12 + length (rp_csrc p) * 4 + length (rp_payload p)"
    by (simp add: buf_def rtp_to_bytes_def)
  show "drop (12 + length (rp_csrc p) * 4) buf = rp_payload p"
  proof -
    define hdr where "hdr = [rtp_first_byte p, rtp_second_byte p] @ put_u16 (rp_sequence_number p)
      @ put_u32 (rp_timestamp p) @ put_u32 (rp_ssrc p) @ concat (map put_u32 (rp_csrc p))"
    have "buf = hdr @ rp_payload p" by (simp add: buf_def rtp_to_bytes_def hdr_def)
    moreover have "length hdr = 12 + length (rp_csrc p) * 4" by (simp add: hdr_def)
    ultimately show ?thesis by simp
  qed
qed

lemma rtp_parse_of_wf:
  assumes "rtp_wf p" shows "rtp_from_bytes (rtp_to_bytes p) = Ret (Inr p)"
proof -
  have cc: "rp_cc p AND 0x0F = rp_cc p" and pt: "rp_payload_type p AND 0x7F = rp_payload_type p"
    using assms take_bit_u8_small [of "rp_cc p" 4] take_bit_u8_small [of "rp_payload_type p" 7]
    by (simp_all add: rtp_wf_def mask4_u8 mask7_u8)
  have v: "rp_version p = RTP_VERSION" and n: "unat (rp_cc p) = length (rp_csrc p)"
    using assms by (simp_all add: rtp_wf_def)
  show ?thesis
    unfolding rtp_from_bytes_def RTP_HEADER_SIZE_def
    by (simp add: rtp_to_bytes_shape Let_def rtp_first_byte_fields [OF v]
        rtp_second_byte_fields cc pt n v [symmetric] slice_from_to_def
        rtp_to_bytes_shape(2) [unfolded One_nat_def])
qed

text \<open>C29: parsing the bytes of a packet whose fields fit the wire format gives the packet back (every
header field, the CSRC list and the payload), so distinct such packets have distinct encodings.\<close>

theorem rtp_roundtrip:
  assumes "rtp_wf p"
  shows "rtp_from_bytes (rtp_to_bytes p) = Ret (Inr p)
    \<and> (\<forall>q. rtp_wf q \<and> rtp_to_bytes q = rtp_to_bytes p \<longrightarrow> q = p)"
  using assms rtp_parse_of_wf by (metis outcome.inject sum.inject(2))

theorem rtp_roundtrip_witness:
  "rtp_from_bytes (rtp_to_bytes (new_audio [0xDE, 0xAD] 160 12345 42)) = Ret (Inr (new_audio [0xDE, 0xAD] 160 12345 42))"
  using rtp_roundtrip [of "new_audio [0xDE, 0xAD] 160 12345 42"]
  by (simp add: rtp_wf_def new_audio_def RTP_VERSION_def PT_AUDIO_def)

lemma rtp_first_byte_parsed:
  assumes "drop_bit 6 b0 AND 0x03 = RTP_VERSION"
    and "rp_version p = RTP_VERSION" and "rp_padding p = (drop_bit 5 b0 AND 0x01 \<noteq> 0)"
    and "rp_extension p = (drop_bit 4 b0 AND 0x01 \<noteq> 0)" and "rp_cc p = b0 AND 0x0F"
  shows "rtp_first_byte p = b0"
proof (rule bit_word_eqI)
  fix n assume "n < LENGTH(8)"
  then consider "n < 4" | "n = 4" | "n = 5" | "n = 6" | "n = 7" by fastforce
  moreover have "bit b0 6 = bit RTP_VERSION 0" "bit b0 7 = bit RTP_VERSION 1"
    using assms(1) by (auto simp: header_bit_simps simp flip: assms(1))
  ultimately show "bit (rtp_first_byte p) n = bit b0 n"
    using assms(2-) by cases (auto simp: rtp_first_byte_def header_bit_simps bit_RTP_VERSION)
qed

lemma rtp_second_byte_parsed:
  assumes "rp_marker p = (drop_bit 7 b1 AND 0x01 \<noteq> 0)" and "rp_payload_type p = b1 AND 0x7F"
  shows "rtp_second_byte p = b1"
proof (rule bit_word_eqI)
  fix n assume "n < LENGTH(8)"
  then consider "n < 7" | "n = 7" by fastforce
  then show "bit (rtp_second_byte p) n = bit b1 n"
    using assms by cases (auto simp: rtp_second_byte_def header_bit_simps)
qed

lemma rtp_from_bytes_fields:
  assumes "rtp_from_bytes buf = Ret (Inr p)"
  shows "12 + unat (rp_cc p) * 4 \<le> length buf"
    and "byte_at buf 0 = Ret (rtp_first_byte p)" and "byte_at buf 1 = Ret (rtp_second_byte p)"
    and "read_u16 buf 2 = Ret (rp_sequence_number p)" and "read_u32 buf 4 = Ret (rp_timestamp p)"
    and "read_u32 buf 8 = Ret (rp_ssrc p)"
    and "read_u32s buf 12 (unat (rp_cc p)) = Ret (rp_csrc p)"
    and "rp_payload p = drop (12 + unat (rp_cc p) * 4) buf" and "rp_version p = RTP_VERSION"
    and "unat (rp_cc p) < 16" and "unat (rp_payload_type p) < 128"
proof -
  from assms obtain b0 b1 where b: "byte_at buf 0 = Ret b0" "byte_at buf 1 = Ret b1"
    and v: "drop_bit 6 b0 AND 0x03 = RTP_VERSION" "rp_version p = RTP_VERSION"
    and f: "rp_padding p = (drop_bit 5 b0 AND 0x01 \<noteq> 0)" "rp_extension p = (drop_bit 4 b0 AND 0x01 \<noteq> 0)"
      "rp_cc p = b0 AND 0x0F" "rp_marker p = (drop_bit 7 b1 AND 0x01 \<noteq> 0)" "rp_payload_type p = b1 AND 0x7F"
    and r: "12 + unat (rp_cc p) * 4 \<le> length buf" "read_u16 buf 2 = Ret (rp_sequence_number p)"
      "read_u32 buf 4 = Ret (rp_timestamp p)" "read_u32 buf 8 = Ret (rp_ssrc p)"
      "read_u32s buf 12 (unat (rp_cc p)) = Ret (rp_csrc p)"
      "rp_payload p = drop (12 + unat (rp_cc p) * 4) buf"
    by (auto simp: rtp_from_bytes_def RTP_HEADER_SIZE_def obind_Ret_iff Let_def slice_from_to_def
        split: if_splits)
  show "12 + unat (rp_cc p) * 4 \<le> length buf" "read_u16 buf 2 = Ret (rp_sequence_number p)"
    "read_u32 buf 4 = Ret (rp_timestamp p)" "read_u32 buf 8 = Ret (rp_ssrc p)"
    "read_u32s buf 12 (unat (rp_cc p)) = Ret (rp_csrc p)"
    "rp_payload p = drop (12 + unat (rp_cc p) * 4) buf" "rp_version p = RTP_VERSION"
    using r v(2) by simp_all
  show "byte_at buf 0 = Ret (rtp_first_byte p)" "byte_at buf 1 = Ret (rtp_second_byte p)"
    using b rtp_first_byte_parsed [OF v f(1-3)] rtp_second_byte_parsed [OF f(4,5)] by simp_all
  show "unat (rp_cc p) < 16" "unat (rp_payload_type p) < 128"
    using f and_0F_le and_7F_le by simp_all
qed

lemma buffer_split12:
  assumes "12 \<le> length buf"
  shows "buf = [buf ! 0, buf ! 1] @ take 2 (drop 2 buf) @ take 4 (drop 4 buf) @ take 4 (drop 8 buf) @ drop 12 buf"
proof -
  have "drop 8 buf = take 4 (drop 8 buf) @ drop 12 buf"
    "drop 4 buf = take 4 (drop 4 buf) @ drop 8 buf" "drop 2 buf = take 2 (drop 2 buf) @ drop 4 buf"
    using append_take_drop_id [of 4 "drop 8 buf"] append_take_drop_id [of 4 "drop 4 buf"]
      append_take_drop_id [of 2 "drop 2 buf"] by simp_all
  moreover have "buf = [buf ! 0, buf ! 1] @ drop 2 buf"
  proof -
    have "take 2 buf = [buf ! 0, buf ! 1]" using assms take2_drop [of 0 buf] by simp
    then show ?thesis using append_take_drop_id [of 2 buf] by (metis append_Cons append_Nil)
  qed
  ultimately show ?thesis by simp
qed

text \<open>every buffer the parser accepts is exactly the serialisation of the packet it returns, and that
packet fits the wire format: no byte of an accepted datagram is lost or reinterpreted.\<close>

lemma rtp_parse_exact:
  assumes "rtp_from_bytes buf = Ret (Inr p)" shows "rtp_to_bytes p = buf \<and> rtp_wf p"
proof -
  note f = rtp_from_bytes_fields [OF assms]
  define n where "n = unat (rp_cc p)"
  have len: "12 + 4 * n \<le> length buf" using f(1) by (simp add: n_def)
  have cs: "length (rp_csrc p) = n" "take (4 * n) (drop 12 buf) = concat (map put_u32 (rp_csrc p))"
    using read_u32s_take [OF f(7)] len by (auto simp: n_def)
  have bytes: "rtp_first_byte p = buf ! 0" "rtp_second_byte p = buf ! 1"
    using f(2,3) by (auto simp: byte_at_Ret_iff)
  have pay: "rp_payload p = drop (4 * n) (drop 12 buf)"
    using f(8) by (simp add: n_def mult.commute add.commute)
  have "rtp_to_bytes p = [buf ! 0, buf ! 1] @ take 2 (drop 2 buf) @ take 4 (drop 4 buf)
      @ take 4 (drop 8 buf) @ take (4 * n) (drop 12 buf) @ drop (4 * n) (drop 12 buf)"
    using read_u16_take [OF f(4)] read_u32_take [OF f(5)] read_u32_take [OF f(6)] cs pay bytes
    by (simp add: rtp_to_bytes_def)
  also have "\<dots> = [buf ! 0, buf ! 1] @ take 2 (drop 2 buf) @ take 4 (drop 4 buf) @ take 4 (drop 8 buf) @ drop 12 buf"
    by (simp only: append_take_drop_id)
  also have "\<dots> = buf" using buffer_split12 [of buf] len by simp
  finally show ?thesis using f(9-11) cs(1) by (simp add: rtp_wf_def n_def)
qed

theorem rtp_parse_exact_witness:
  "rtp_to_bytes (new_audio [0xDE, 0xAD] 160 12345 42) = [0x80, 111, 0, 42, 0, 0, 0, 160, 0, 0, 0x30, 0x39, 0xDE, 0xAD]
   \<and> rtp_wf (new_audio [0xDE, 0xAD] 160 12345 42)"
proof -
  have parse: "rtp_from_bytes [0x80, 111, 0, 42, 0, 0, 0, 160, 0, 0, 0x30, 0x39, 0xDE, 0xAD]
      = Ret (Inr (new_audio [0xDE, 0xAD] 160 12345 42))"
    by code_simp
  from rtp_parse_exact [OF parse] show ?thesis .
qed

end
