(* ===== verification/Rtcp_Packet.thy ===== *)
theory Rtcp_Packet
  imports Rtp_Packet
begin

unbundle bit_operations_syntax

text \<open>
  \<open>seameet-rtp/src/rtcp.rs\<close>: the RTCP packets (sender and receiver report, generic NACK, picture loss
  indication), their serialisation and their parser. The parser slices \<open>buf[12..expected_len]\<close> for a
  NACK, which panics when the length field announces fewer than three words; the development
  characterises exactly when it does.

  The length field of a NACK is \<open>2 + fci_count as u16\<close>: the count is truncated to 16 bits and the sum
  wraps (a release build).
\<close>

definition RTCP_SR :: u8 where "RTCP_SR = 200"
definition RTCP_RR :: u8 where "RTCP_RR = 201"
definition RTCP_RTPFB :: u8 where "RTCP_RTPFB = 205"
definition RTCP_PSFB :: u8 where "RTCP_PSFB = 206"
definition NACK_FMT :: u8 where "NACK_FMT = 1"
definition PLI_FMT :: u8 where "PLI_FMT = 1"

lemmas rtcp_consts = RTCP_SR_def RTCP_RR_def RTCP_RTPFB_def RTCP_PSFB_def NACK_FMT_def PLI_FMT_def

datatype rtcp_packet =
    SenderReport u32
  | ReceiverReport u32
  | Nack u32 "u16 list"
  | Pli u32

definition nack_entry :: "u16 \<Rightarrow> u8 list" where
  "nack_entry seq = put_u16 seq @ put_u16 0"

fun rtcp_to_bytes :: "rtcp_packet \<Rightarrow> u8 list" where
  "rtcp_to_bytes (SenderReport ssrc) = [0x80, RTCP_SR] @ put_u16 1 @ put_u32 ssrc"
| "rtcp_to_bytes (ReceiverReport ssrc) = [0x80, RTCP_RR] @ put_u16 1 @ put_u32 ssrc"
| "rtcp_to_bytes (Nack ssrc lost) =
     [0x80 OR NACK_FMT, RTCP_RTPFB] @ put_u16 (2 + of_nat (length lost)) @ put_u32 0 @ put_u32 ssrc
     @ concat (map nack_entry lost)"
| "rtcp_to_bytes (Pli ssrc) =
     [0x80 OR PLI_FMT, RTCP_PSFB] @ put_u16 2 @ put_u32 0 @ put_u32 ssrc"

text \<open>One FCI entry: the packet identifier and, for every set bit \<open>k\<close> of the bitmask, \<open>pid + k + 1\<close>
in wrapping 16-bit arithmetic.\<close>

definition nack_decode_entry :: "u16 \<Rightarrow> u16 \<Rightarrow> u16 list" where
  "nack_decode_entry pid blp =
     pid # map (\<lambda>k. pid + (of_nat k + 1)) (filter (\<lambda>k. blp AND push_bit k 1 \<noteq> 0) [0..<16])"

function nack_loop :: "u8 list \<Rightarrow> nat \<Rightarrow> u16 list \<Rightarrow> u16 list outcome" where
  "nack_loop fci i lost =
     (if i + 3 < length fci + 1 \<and> i + 1 < length fci
      then obind (read_u16 fci i) (\<lambda>pid. obind (read_u16 fci (i + 2)) (\<lambda>blp.
             nack_loop fci (i + 4) (lost @ nack_decode_entry pid blp)))
      else Ret lost)"
  by pat_completeness auto
termination
  by (relation "measure (\<lambda>(fci, i, lost). length fci - i)") auto

declare nack_loop.simps [simp del]

definition rtcp_from_bytes :: "u8 list \<Rightarrow> rtcp_packet sea_result outcome" where
  "rtcp_from_bytes buf =
    (if length buf < 8 then Ret (Inl (PeerConnection ''RTCP packet too short''))
     else obind (byte_at buf 0) (\<lambda>b0.
       let version = drop_bit 6 b0 AND 0x03 in
       if version \<noteq> 2
       then Ret (Inl (PeerConnection (''unsupported RTCP version: '' @ show_nat (unat version))))
       else
         let fmt = b0 AND 0x1F in
         obind (byte_at buf 1) (\<lambda>pt.
         obind (read_u16 buf 2) (\<lambda>length_field.
         let expected_len = (unat length_field + 1) * 4 in
         if length buf < expected_len then Ret (Inl (PeerConnection ''RTCP packet truncated''))
         else if pt = RTCP_SR then
           obind (read_u32 buf 4) (\<lambda>ssrc. Ret (Inr (SenderReport ssrc)))
         else if pt = RTCP_RR then
           obind (read_u32 buf 4) (\<lambda>ssrc. Ret (Inr (ReceiverReport ssrc)))
         else if pt = RTCP_RTPFB \<and> fmt = NACK_FMT then
           (if length buf < 12 then Ret (Inl (PeerConnection ''NACK packet too short''))
            else obind (read_u32 buf 8) (\<lambda>ssrc.
              obind (slice_from_to 12 expected_len buf) (\<lambda>fci.
              obind (nack_loop fci 0 []) (\<lambda>lost. Ret (Inr (Nack ssrc lost))))))
         else if pt = RTCP_PSFB \<and> fmt = PLI_FMT then
           (if length buf < 12 then Ret (Inl (PeerConnection ''PLI packet too short''))
            else obind (read_u32 buf 8) (\<lambda>ssrc. Ret (Inr (Pli ssrc))))
         else Ret (Inl (PeerConnection (''unsupported RTCP packet type: '' @ show_nat (unat pt)
                @ '' fmt: '' @ show_nat (unat fmt))))))))"

section \<open>The NACK entry loop\<close>

lemma nack_entry_length [simp]: "length (nack_entry w) = 4"
  by (simp add: nack_entry_def)

lemma nack_decode_entry_0 [simp]: "nack_decode_entry pid 0 = [pid]"
  by (simp add: nack_decode_entry_def)

lemma nack_loop_entries:
  "drop i fci = concat (map nack_entry ws) \<Longrightarrow> i \<le> length fci \<Longrightarrow> nack_loop fci i acc = Ret (acc @ ws)"
proof (induction ws arbitrary: i acc)
  case Nil
  then show ?case by (subst nack_loop.simps) simp
next
  case (Cons w ws)
  have e: "drop i fci = put_u16 w @ put_u16 0 @ concat (map nack_entry ws)"
    using Cons.prems(1) by (simp add: nack_entry_def [of w])
  have e2: "drop (i + 2) fci = put_u16 0 @ concat (map nack_entry ws)"
    using drop_append_at [OF e] by simp
  have e4: "drop (i + 4) fci = concat (map nack_entry ws)"
    using drop_append_at [OF e2] by (simp add: numeral_eq_Suc)
  have "4 \<le> length (drop i fci)" using e by simp
  then have len: "i + 4 \<le> length fci" by simp
  show ?case
    using len Cons.IH [OF e4 len] read_u16_drop [OF e] read_u16_drop [OF e2]
    by (subst nack_loop.simps) simp
qed

lemma nack_loop_aligned:
  "4 dvd length fci \<Longrightarrow> 4 dvd i \<Longrightarrow> \<exists>r. nack_loop fci i acc = Ret r"
proof (induction fci i acc rule: nack_loop.induct)
  case (1 fci i lost)
  show ?case
  proof (cases "i + 3 < length fci + 1 \<and> i + 1 < length fci")
    case True
    with "1.prems" have len: "i + 4 \<le> length fci"
      by (elim dvdE) presburger
    then have r: "\<exists>pid. read_u16 fci i = Ret pid" "\<exists>blp. read_u16 fci (i + 2) = Ret blp"
      by (simp_all add: read_u16_range)
    from "1.prems" have "4 dvd i + 4" by simp
    with r True "1.IH" "1.prems"(1) show ?thesis
      by (subst nack_loop.simps) auto
  qed (subst nack_loop.simps, simp)
qed

text \<open>a NACK entry stands for its packet identifier and for \<open>pid + k + 1\<close> (modulo \<open>2\<^sup>16\<close>) for
exactly the set bits \<open>k\<close> of its bitmask, as RFC 4585 defines the generic NACK; the identifier comes
first and no other sequence number is reported.\<close>

lemma nack_decode_entry_set:
  "set (nack_decode_entry pid blp) = insert pid {pid + of_nat (k + 1) | k. k < 16 \<and> bit blp k}
   \<and> hd (nack_decode_entry pid blp) = pid"
proof -
  have "(blp AND push_bit k 1 \<noteq> 0) = bit blp k" for k
    by (simp add: bit_iff_and_push_bit_not_eq_0)
  then show ?thesis
    by (auto simp: nack_decode_entry_def add.commute add.left_commute)
qed

section \<open>Round trip\<close>

lemma fmt_byte: "drop_bit 6 (0x81 :: u8) AND 0x03 = 2" "(0x81 :: u8) AND 0x1F = 1"
  "drop_bit 6 (0x80 :: u8) AND 0x03 = 2" "(0x80 :: u8) OR 1 = 0x81"
  by code_simp+

lemma nack_entries_length [simp]: "length (concat (map nack_entry ws)) = 4 * length ws"
  by (induction ws) auto

lemma rtcp_report_shape:
  assumes "buf = [0x80, pt] @ put_u16 1 @ put_u32 ssrc"
  shows "length buf = 8" "byte_at buf 0 = Ret 0x80" "byte_at buf (Suc 0) = Ret pt" "read_u16 buf 2 = Ret 1"
    "read_u32 buf 4 = Ret ssrc"
  by (simp_all add: assms checked_index_def read_u16_drop read_u32_drop)

lemma rtcp_feedback_shape:
  assumes "buf = [0x81, pt] @ put_u16 len @ put_u32 0 @ put_u32 ssrc @ fci"
  shows "length buf = 12 + length fci" "byte_at buf 0 = Ret 0x81" "byte_at buf (Suc 0) = Ret pt"
    "read_u16 buf 2 = Ret len" "read_u32 buf 8 = Ret ssrc" "drop 12 buf = fci"
proof -
  show "read_u32 buf 8 = Ret ssrc"
    by (rule read_u32_drop) (simp add: assms)
qed (simp_all add: assms checked_index_def read_u16_drop)

lemma nack_length_field:
  assumes "n < 65534" shows "unat (2 + of_nat n :: u16) = n + 2"
proof -
  have "unat (of_nat (n + 2) :: u16) = n + 2"
    using assms by (simp only: unsigned_of_nat) (simp add: take_bit_nat_eq_self)
  then show ?thesis by (simp add: add.commute)
qed

lemma rtcp_nack_roundtrip:
  assumes "length lost < 65534"
  shows "rtcp_from_bytes (rtcp_to_bytes (Nack ssrc lost)) = Ret (Inr (Nack ssrc lost))"
proof -
  define fci where "fci = concat (map nack_entry lost)"
  have loop: "nack_loop fci 0 [] = Ret lost"
    using nack_loop_entries [of 0 fci lost "[]"] by (simp add: fci_def)
  define buf where "buf = rtcp_to_bytes (Nack ssrc lost)"
  then have "buf = [0x81, RTCP_RTPFB] @ put_u16 (2 + of_nat (length lost)) @ put_u32 0 @ put_u32 ssrc @ fci"
    by (simp add: fci_def NACK_FMT_def fmt_byte)
  note sh = rtcp_feedback_shape [OF this]
  have "rtcp_from_bytes buf = Ret (Inr (Nack ssrc lost))"
    using loop
    by (simp add: rtcp_from_bytes_def sh Let_def fmt_byte nack_length_field [OF assms] rtcp_consts
        slice_from_to_def fci_def)
  then show ?thesis by (simp add: buf_def)
qed

lemma rtcp_pli_roundtrip: "rtcp_from_bytes (rtcp_to_bytes (Pli ssrc)) = Ret (Inr (Pli ssrc))"
proof -
  define buf where "buf = rtcp_to_bytes (Pli ssrc)"
  then have "buf = [0x81, RTCP_PSFB] @ put_u16 2 @ put_u32 0 @ put_u32 ssrc @ []"
    by (simp add: PLI_FMT_def fmt_byte)
  note sh = rtcp_feedback_shape [OF this]
  have "rtcp_from_bytes buf = Ret (Inr (Pli ssrc))"
    by (simp add: rtcp_from_bytes_def sh Let_def fmt_byte rtcp_consts)
  then show ?thesis by (simp add: buf_def)
qed

lemma rtcp_report_roundtrip:
  "rtcp_from_bytes (rtcp_to_bytes (SenderReport ssrc)) = Ret (Inr (SenderReport ssrc))"
  "rtcp_from_bytes (rtcp_to_bytes (ReceiverReport ssrc)) = Ret (Inr (ReceiverReport ssrc))"
proof -
  define buf where "buf = rtcp_to_bytes (SenderReport ssrc)"
  then have "buf = [0x80, RTCP_SR] @ put_u16 1 @ put_u32 ssrc" by simp
  note sh = rtcp_report_shape [OF this]
  have "rtcp_from_bytes buf = Ret (Inr (SenderReport ssrc))"
    by (simp add: rtcp_from_bytes_def sh Let_def fmt_byte)
  then show "rtcp_from_bytes (rtcp_to_bytes (SenderReport ssrc)) = Ret (Inr (SenderReport ssrc))"
    by (simp add: buf_def)
next
  define buf where "buf = rtcp_to_bytes (ReceiverReport ssrc)"
  then have "buf = [0x80, RTCP_RR] @ put_u16 1 @ put_u32 ssrc" by simp
  note sh = rtcp_report_shape [OF this]
  have "rtcp_from_bytes buf = Ret (Inr (ReceiverReport ssrc))"
    by (simp add: rtcp_from_bytes_def sh Let_def fmt_byte rtcp_consts)
  then show "rtcp_from_bytes (rtcp_to_bytes (ReceiverReport ssrc)) = Ret (Inr (ReceiverReport ssrc))"
    by (simp add: buf_def)
qed



section \<open>When the parser panics\<close>

definition rtcp_fmt :: "u8 list \<Rightarrow> u8" where
  "rtcp_fmt buf = buf ! 0 AND 0x1F"

definition rtcp_length_words :: "u8 list \<Rightarrow> nat" where
  "rtcp_length_words buf = unat (u16_from_be_bytes (buf ! 2) (buf ! 3))"

lemma rtcp_from_bytes_long:
  assumes "8 \<le> length buf"
  shows "byte_at buf 0 = Ret (buf ! 0)" "byte_at buf (Suc 0) = Ret (buf ! 1)"
    "read_u16 buf 2 = Ret (u16_from_be_bytes (buf ! 2) (buf ! 3))" "\<exists>w. read_u32 buf 4 = Ret w"
  using assms byte_at_range [of 0 buf] byte_at_range [of 1 buf] read_u16_range [of 2 buf]
    read_u32_range [of 4 buf]
  by (simp_all only: One_nat_def) auto

lemma rtcp_nack_no_panic:
  assumes "12 \<le> length buf" "2 \<le> n" "(n + 1) * 4 \<le> length buf"
  shows "\<exists>fci lost. slice_from_to 12 ((n + 1) * 4) buf = Ret fci \<and> nack_loop fci 0 [] = Ret lost"
proof -
  have le: "12 \<le> (n + 1) * 4" using assms(2) by simp
  define fci where "fci = take ((n + 1) * 4 - 12) (drop 12 buf)"
  have "length fci = 4 * (n - 2)" using assms by (simp add: fci_def)
  then have "\<exists>r. nack_loop fci 0 [] = Ret r"
    by (intro nack_loop_aligned) simp_all
  with le assms(3) show ?thesis by (auto simp: slice_from_to_def fci_def)
qed

text \<open>C39: \<open>RtcpPacket::from_bytes\<close> panics on exactly these inputs: a version-2 transport-layer feedback
packet with FMT 1 (a generic NACK) of at least 12 bytes whose length field is 0 or 1, so that
\<open>buf[12..expected_len]\<close> starts after it ends. On every other input it returns a packet or an error.\<close>

theorem rtcp_from_bytes_panics_iff:
  "rtcp_from_bytes buf = Panic \<longleftrightarrow>
     12 \<le> length buf \<and> drop_bit 6 (buf ! 0) AND 0x03 = 2 \<and> buf ! 1 = RTCP_RTPFB
     \<and> rtcp_fmt buf = NACK_FMT \<and> rtcp_length_words buf < 2"
proof (cases "length buf < 8 \<or> drop_bit 6 (buf ! 0) AND 0x03 \<noteq> 2
    \<or> length buf < (rtcp_length_words buf + 1) * 4 \<or> \<not> (buf ! 1 = RTCP_RTPFB \<and> rtcp_fmt buf = NACK_FMT)
    \<or> length buf < 12")
  case True
  then show ?thesis
  proof (cases "length buf < 8")
    case False
    then have len: "8 \<le> length buf" by simp
    note r = rtcp_from_bytes_long [OF len]
    obtain w where w: "read_u32 buf 4 = Ret w" using r(4) by blast
    have w8: "12 \<le> length buf \<Longrightarrow> \<exists>v. read_u32 buf 8 = Ret v" by (simp add: read_u32_range)
    from True len show ?thesis
      unfolding rtcp_from_bytes_def rtcp_fmt_def rtcp_length_words_def
      by (auto simp: r(1-3) w Let_def obind_def rtcp_consts split: outcome.split
          dest!: w8 dest: leI)
  qed (simp add: rtcp_from_bytes_def)
next
  case False
  then have len: "12 \<le> length buf" and v: "drop_bit 6 (buf ! 0) AND 0x03 = 2"
    and fits: "(rtcp_length_words buf + 1) * 4 \<le> length buf"
    and kind: "buf ! 1 = RTCP_RTPFB" "rtcp_fmt buf = NACK_FMT" by auto
  have "8 \<le> length buf" using len by simp
  note r = rtcp_from_bytes_long [OF this]
  obtain w where w: "read_u32 buf 8 = Ret w" using len by (simp add: read_u32_range)
  define n where "n = rtcp_length_words buf"
  have eq: "rtcp_from_bytes buf = obind (slice_from_to 12 ((n + 1) * 4) buf) (\<lambda>fci.
      obind (nack_loop fci 0 []) (\<lambda>lost. Ret (Inr (Nack w lost))))"
    using len v fits kind
    unfolding rtcp_from_bytes_def rtcp_fmt_def rtcp_length_words_def n_def
    by (simp add: r(1-3) w Let_def rtcp_consts)
  show ?thesis
  proof (cases "n < 2")
    case True
    then have "slice_from_to 12 ((n + 1) * 4) buf = Panic" by (auto simp: slice_from_to_def)
    with eq len v kind True show ?thesis by (simp add: n_def)
  next
    case False
    with rtcp_nack_no_panic [of buf n] len fits eq show ?thesis by (auto simp: n_def)
  qed
qed

end
