(* ===== verification/Signaling_Message.thy ===== *)
theory Signaling_Message
  imports Core_Types
begin

text \<open>
  \<open>seameet-signaling/src/message.rs\<close>: the messages of the signaling channel, their room and their
  type tag. The JSON codec is the crate \<open>serde_json\<close>: the operations that send a message take the
  serialiser as an argument.
\<close>

record participant_status =
  ps_id :: participant_id
  ps_display_name :: "string option"
  ps_audio_muted :: bool
  ps_video_muted :: bool
  ps_screen_sharing :: bool
  ps_e2ee :: bool

datatype sdp_message =
    Join (join_participant: participant_id) (join_room: string) (join_display_name: "string option") (join_token: "string option")
  | Leave participant_id string
  | Offer participant_id "participant_id option" string string
  | Answer participant_id participant_id string string
  | IceCandidate participant_id participant_id string string "string option" "u16 option"
  | Ready string bool "participant_id list" "(string, string) hmap"
  | PeerJoined participant_id string "string option"
  | PeerLeft participant_id string
  | ScreenShareStarted participant_id string u32
  | ScreenShareStopped participant_id string u32
  | MuteAudio participant_id string
  | UnmuteAudio participant_id string
  | MuteVideo participant_id string
  | UnmuteVideo participant_id string
  | VideoConfigChanged participant_id string u32 u32 u32
  | RequestRenegotiation string u32
  | RequestKeyframe participant_id participant_id string
  | RoomStatus string "participant_status list" bool
  | E2eePublicKey participant_id string string
  | E2eeSenderKey participant_id participant_id string string u32
  | E2eeKeyRotation participant_id string u32
  | ChatMessage participant_id string "string option" string nat bool "u32 option"
  | ActiveSpeaker string participant_id u8
  | ScreenShareRouted participant_id string string
  | Error u16 string

fun msg_room_id :: "sdp_message \<Rightarrow> string option" where
  "msg_room_id (Join _ room_id _ _) = Some room_id"
| "msg_room_id (Leave _ room_id) = Some room_id"
| "msg_room_id (Offer _ _ room_id _) = Some room_id"
| "msg_room_id (Answer _ _ room_id _) = Some room_id"
| "msg_room_id (IceCandidate _ _ room_id _ _ _) = Some room_id"
| "msg_room_id (Ready room_id _ _ _) = Some room_id"
| "msg_room_id (PeerJoined _ room_id _) = Some room_id"
| "msg_room_id (PeerLeft _ room_id) = Some room_id"
| "msg_room_id (ScreenShareStarted _ room_id _) = Some room_id"
| "msg_room_id (ScreenShareStopped _ room_id _) = Some room_id"
| "msg_room_id (MuteAudio _ room_id) = Some room_id"
| "msg_room_id (UnmuteAudio _ room_id) = Some room_id"
| "msg_room_id (MuteVideo _ room_id) = Some room_id"
| "msg_room_id (UnmuteVideo _ room_id) = Some room_id"
| "msg_room_id (VideoConfigChanged _ room_id _ _ _) = Some room_id"
| "msg_room_id (RequestRenegotiation room_id _) = Some room_id"
| "msg_room_id (RequestKeyframe _ _ room_id) = Some room_id"
| "msg_room_id (RoomStatus room_id _ _) = Some room_id"
| "msg_room_id (E2eePublicKey _ room_id _) = Some room_id"
| "msg_room_id (E2eeSenderKey _ _ room_id _ _) = Some room_id"
| "msg_room_id (E2eeKeyRotation _ room_id _) = Some room_id"
| "msg_room_id (ChatMessage _ room_id _ _ _ _ _) = Some room_id"
| "msg_room_id (ActiveSpeaker room_id _ _) = Some room_id"
| "msg_room_id (ScreenShareRouted _ _ room_id) = Some room_id"
| "msg_room_id (Error _ _) = None"

fun msg_kind :: "sdp_message \<Rightarrow> string" where
  "msg_kind (Join _ _ _ _) = ''join''"
| "msg_kind (Leave _ _) = ''leave''"
| "msg_kind (Offer _ _ _ _) = ''offer''"
| "msg_kind (Answer _ _ _ _) = ''answer''"
| "msg_kind (IceCandidate _ _ _ _ _ _) = ''ice_candidate''"
| "msg_kind (Ready _ _ _ _) = ''ready''"
| "msg_kind (PeerJoined _ _ _) = ''peer_joined''"
| "msg_kind (PeerLeft _ _) = ''peer_left''"
| "msg_kind (ScreenShareStarted _ _ _) = ''screen_share_started''"
| "msg_kind (ScreenShareStopped _ _ _) = ''screen_share_stopped''"
| "msg_kind (MuteAudio _ _) = ''mute_audio''"
| "msg_kind (UnmuteAudio _ _) = ''unmute_audio''"
| "msg_kind (MuteVideo _ _) = ''mute_video''"
| "msg_kind (UnmuteVideo _ _) = ''unmute_video''"
| "msg_kind (VideoConfigChanged _ _ _ _ _) = ''video_config_changed''"
| "msg_kind (RequestRenegotiation _ _) = ''request_renegotiation''"
| "msg_kind (RequestKeyframe _ _ _) = ''request_keyframe''"
| "msg_kind (RoomStatus _ _ _) = ''room_status''"
| "msg_kind (E2eePublicKey _ _ _) = ''e2ee_public_key''"
| "msg_kind (E2eeSenderKey _ _ _ _ _) = ''e2ee_sender_key''"
| "msg_kind (E2eeKeyRotation _ _ _) = ''e2ee_key_rotation''"
| "msg_kind (ChatMessage _ _ _ _ _ _ _) = ''chat_message''"
| "msg_kind (ActiveSpeaker _ _ _) = ''active_speaker''"
| "msg_kind (ScreenShareRouted _ _ _) = ''screen_share_routed''"
| "msg_kind (Error _ _) = ''error''"

text \<open>Every message but an error names a room.\<close>

lemma msg_room_id_None_iff: "msg_room_id m = None \<longleftrightarrow> (\<exists>code text. m = Error code text)"
  by (cases m) auto

end
