(* ===== verification/Signaling_State.thy ===== *)
theory Signaling_State
  imports Signaling_Message
begin

text \<open>
  \<open>seameet-signaling/src/engine.rs\<close>, first half: members, rooms, the shared \<open>SignalingState\<close> with its
  reverse index from participants to rooms, and the room-status broadcast.

  A sink (\<open>mpsc::UnboundedSender<String>\<close>) is a channel name; clones of a sender are the same channel.
  An operation that sends returns the list of its sends, in order; a send to a channel whose receiver is
  dropped fails and is ignored by every caller, so \<open>delivered\<close> filters by the closed channels. Which
  channels are closed is the argument \<open>closed\<close> of \<open>prune_stale\<close>.
\<close>

type_synonym chan = nat
type_synonym outbox = "(chan \<times> string) list"
type_synonym serialiser = "sdp_message \<Rightarrow> string option"

definition delivered :: "(chan \<Rightarrow> bool) \<Rightarrow> outbox \<Rightarrow> outbox" where
  "delivered closed ob = filter (\<lambda>(c, _). \<not> closed c) ob"

definition send_msg :: "serialiser \<Rightarrow> chan \<Rightarrow> sdp_message \<Rightarrow> outbox" where
  \<comment> \<open>\<open>if let Ok(json) = serde_json::to_string(&msg) { let _ = tx.send(json); }\<close>\<close>
  "send_msg ser tx m = (case ser m of Some json \<Rightarrow> [(tx, json)] | None \<Rightarrow> [])"

section \<open>Members and rooms\<close>

record member_media_state =
  mm_audio_muted :: bool
  mm_video_muted :: bool
  mm_screen_sharing :: bool
  mm_e2ee :: bool

definition media_default :: member_media_state where
  "media_default = \<lparr>mm_audio_muted = False, mm_video_muted = False, mm_screen_sharing = False, mm_e2ee = False\<rparr>"

record member =
  mb_id :: participant_id
  mb_sink :: chan
  mb_display_name :: "string option"
  mb_media :: member_media_state

definition member_with_display_name :: "participant_id \<Rightarrow> chan \<Rightarrow> string option \<Rightarrow> member" where
  "member_with_display_name i tx name =
     \<lparr>mb_id = i, mb_sink = tx, mb_display_name = name, mb_media = media_default\<rparr>"

definition member_new :: "participant_id \<Rightarrow> chan \<Rightarrow> member" where
  "member_new i tx = member_with_display_name i tx None"

definition member_send :: "member \<Rightarrow> string \<Rightarrow> outbox" where
  "member_send m msg = [(mb_sink m, msg)]"

record room =
  rm_members :: "(participant_id, member) hmap"
  rm_chat_history :: "string list"

definition room_new :: room where
  "room_new = \<lparr>rm_members = [], rm_chat_history = []\<rparr>"

definition push_chat :: "string \<Rightarrow> nat \<Rightarrow> room \<Rightarrow> room" where
  "push_chat raw max_entries r =
    (let h = (if length (rm_chat_history r) \<ge> max_entries \<and> max_entries > 0
              then tl (rm_chat_history r) else rm_chat_history r) in
     r\<lparr>rm_chat_history := h @ [raw]\<rparr>)"

definition member_count :: "room \<Rightarrow> nat" where
  "member_count r = hm_len (rm_members r)"

definition room_join :: "member \<Rightarrow> room \<Rightarrow> bool \<times> room" where
  "room_join m r = (rm_members r = [], r\<lparr>rm_members := hm_insert (mb_id m) m (rm_members r)\<rparr>)"

definition room_leave :: "participant_id \<Rightarrow> room \<Rightarrow> bool \<times> room" where
  "room_leave i r = (let ms = hm_remove i (rm_members r) in (ms = [], r\<lparr>rm_members := ms\<rparr>))"

definition room_broadcast :: "string \<Rightarrow> participant_id \<Rightarrow> room \<Rightarrow> outbox" where
  "room_broadcast msg exclude r =
     concat (map (\<lambda>m. if mb_id m \<noteq> exclude then member_send m msg else []) (hm_values (rm_members r)))"

definition room_send_to :: "participant_id \<Rightarrow> string \<Rightarrow> room \<Rightarrow> outbox" where
  "room_send_to i msg r = (case hm_get (rm_members r) i of Some m \<Rightarrow> member_send m msg | None \<Rightarrow> [])"

definition prune_stale :: "(chan \<Rightarrow> bool) \<Rightarrow> room \<Rightarrow> participant_id list \<times> room" where
  "prune_stale closed r =
    (let stale = map mb_id (filter (\<lambda>m. closed (mb_sink m)) (hm_values (rm_members r))) in
     (stale, r\<lparr>rm_members := fold hm_remove stale (rm_members r)\<rparr>))"

definition peer_ids :: "participant_id \<Rightarrow> room \<Rightarrow> participant_id list" where
  "peer_ids exclude r = filter (\<lambda>i. i \<noteq> exclude) (hm_keys (rm_members r))"

definition peer_sinks :: "participant_id \<Rightarrow> room \<Rightarrow> chan list" where
  "peer_sinks exclude r = map mb_sink (filter (\<lambda>m. mb_id m \<noteq> exclude) (hm_values (rm_members r)))"

definition room_broadcast_all :: "string \<Rightarrow> room \<Rightarrow> outbox" where
  "room_broadcast_all msg r = concat (map (\<lambda>m. member_send m msg) (hm_values (rm_members r)))"

definition update_media :: "participant_id \<Rightarrow> (member_media_state \<Rightarrow> member_media_state) \<Rightarrow> room \<Rightarrow> room" where
  "update_media i f r = r\<lparr>rm_members := hm_modify i (\<lambda>m. m\<lparr>mb_media := f (mb_media m)\<rparr>) (rm_members r)\<rparr>"

definition set_audio_muted :: "participant_id \<Rightarrow> bool \<Rightarrow> room \<Rightarrow> room" where
  "set_audio_muted i b = update_media i (\<lambda>s. s\<lparr>mm_audio_muted := b\<rparr>)"

definition set_video_muted :: "participant_id \<Rightarrow> bool \<Rightarrow> room \<Rightarrow> room" where
  "set_video_muted i b = update_media i (\<lambda>s. s\<lparr>mm_video_muted := b\<rparr>)"

definition set_screen_sharing :: "participant_id \<Rightarrow> bool \<Rightarrow> room \<Rightarrow> room" where
  "set_screen_sharing i b = update_media i (\<lambda>s. s\<lparr>mm_screen_sharing := b\<rparr>)"

definition set_e2ee :: "participant_id \<Rightarrow> bool \<Rightarrow> room \<Rightarrow> room" where
  "set_e2ee i b = update_media i (\<lambda>s. s\<lparr>mm_e2ee := b\<rparr>)"

definition status_of :: "member \<Rightarrow> participant_status" where
  "status_of m = \<lparr>ps_id = mb_id m, ps_display_name = mb_display_name m,
     ps_audio_muted = mm_audio_muted (mb_media m), ps_video_muted = mm_video_muted (mb_media m),
     ps_screen_sharing = mm_screen_sharing (mb_media m), ps_e2ee = mm_e2ee (mb_media m)\<rparr>"

definition participants_snapshot :: "room \<Rightarrow> participant_status list" where
  "participants_snapshot r = map status_of (hm_values (rm_members r))"

definition display_names :: "(participant_id \<Rightarrow> string) \<Rightarrow> participant_id \<Rightarrow> room \<Rightarrow> (string, string) hmap" where
  \<comment> \<open>\<open>show\<close> is the \<open>Display\<close> of the \<open>uuid\<close> crate; the collected map keeps the last entry of a key.\<close>
  "display_names show exclude r =
     fold (\<lambda>m acc. case mb_display_name m of Some name \<Rightarrow> hm_insert (show (mb_id m)) name acc | None \<Rightarrow> acc)
       (filter (\<lambda>m. mb_id m \<noteq> exclude) (hm_values (rm_members r))) []"

section \<open>The signaling state\<close>

record signaling_state =
  st_rooms :: "(string, room) hmap"
  st_connections :: "(participant_id, chan \<times> string list) hmap"
  st_connection_gens :: "(participant_id, nat) hmap"
  st_e2ee_required :: bool

definition state_new :: signaling_state where
  "state_new = \<lparr>st_rooms = [], st_connections = [], st_connection_gens = [], st_e2ee_required = False\<rparr>"

definition set_e2ee_required :: "bool \<Rightarrow> signaling_state \<Rightarrow> signaling_state" where
  "set_e2ee_required b st = st\<lparr>st_e2ee_required := b\<rparr>"

definition state_room :: "signaling_state \<Rightarrow> string \<Rightarrow> room option" where
  "state_room st rid = hm_get (st_rooms st) rid"

definition update_room :: "string \<Rightarrow> (room \<Rightarrow> room) \<Rightarrow> signaling_state \<Rightarrow> signaling_state" where
  \<comment> \<open>\<open>if let Some(room) = st.room_mut(room_id) { .. }\<close>\<close>
  "update_room rid f st = st\<lparr>st_rooms := hm_modify rid f (st_rooms st)\<rparr>"

definition state_join ::
  "participant_id \<Rightarrow> string \<Rightarrow> chan \<Rightarrow> string option \<Rightarrow> signaling_state \<Rightarrow> bool \<times> signaling_state" where
  "state_join i rid tx name st =
    (let room = (case hm_get (st_rooms st) rid of Some r \<Rightarrow> r | None \<Rightarrow> room_new);
         (is_first, room') = room_join (member_with_display_name i tx name) room;
         (_, rids) = (case hm_get (st_connections st) i of Some c \<Rightarrow> c | None \<Rightarrow> (tx, []));
         rids' = (if rid \<in> set rids then rids else rids @ [rid]) in
     (is_first, st\<lparr>st_rooms := hm_insert rid room' (st_rooms st),
                   st_connections := hm_insert i (tx, rids') (st_connections st)\<rparr>))"

definition state_leave :: "participant_id \<Rightarrow> string \<Rightarrow> signaling_state \<Rightarrow> bool \<times> signaling_state" where
  "state_leave i rid st =
    (let (room_empty, rooms') =
           (case hm_get (st_rooms st) rid of
              Some room \<Rightarrow>
                (let (empty, room') = room_leave i room in
                 (empty, if empty then hm_remove rid (st_rooms st) else hm_insert rid room' (st_rooms st)))
            | None \<Rightarrow> (True, st_rooms st));
         conns' = (case hm_get (st_connections st) i of
              Some (tx, rids) \<Rightarrow>
                (let rids' = filter (\<lambda>r. r \<noteq> rid) rids in
                 if rids' = [] then hm_remove i (st_connections st)
                 else hm_insert i (tx, rids') (st_connections st))
            | None \<Rightarrow> st_connections st) in
     (room_empty, st\<lparr>st_rooms := rooms', st_connections := conns'\<rparr>))"

fun leave_all :: "participant_id \<Rightarrow> string list \<Rightarrow> signaling_state \<Rightarrow> (string \<times> bool) list \<times> signaling_state" where
  "leave_all i [] st = ([], st)"
| "leave_all i (rid # rids) st =
    (let (empty, st1) = state_leave i rid st; (rest, st2) = leave_all i rids st1 in ((rid, empty) # rest, st2))"

definition state_disconnect :: "participant_id \<Rightarrow> signaling_state \<Rightarrow> (string \<times> bool) list \<times> signaling_state" where
  "state_disconnect i st =
    (let rids = (case hm_get (st_connections st) i of Some (_, rids) \<Rightarrow> rids | None \<Rightarrow> []);
         (affected, st1) = leave_all i rids st in
     (affected, st1\<lparr>st_connections := hm_remove i (st_connections st1),
                    st_connection_gens := hm_remove i (st_connection_gens st1)\<rparr>))"

definition set_connection_gen :: "participant_id \<Rightarrow> nat \<Rightarrow> signaling_state \<Rightarrow> signaling_state" where
  "set_connection_gen i g st = st\<lparr>st_connection_gens := hm_insert i g (st_connection_gens st)\<rparr>"

definition connection_gen :: "participant_id \<Rightarrow> signaling_state \<Rightarrow> nat option" where
  "connection_gen i st = hm_get (st_connection_gens st) i"

definition state_sink :: "participant_id \<Rightarrow> signaling_state \<Rightarrow> chan option" where
  "state_sink i st = map_option fst (hm_get (st_connections st) i)"

definition state_peers :: "string \<Rightarrow> participant_id \<Rightarrow> signaling_state \<Rightarrow> chan list" where
  "state_peers rid exclude st =
     (case hm_get (st_rooms st) rid of Some r \<Rightarrow> peer_sinks exclude r | None \<Rightarrow> [])"

definition broadcast_room_status :: "serialiser \<Rightarrow> string \<Rightarrow> signaling_state \<Rightarrow> outbox" where
  "broadcast_room_status ser rid st =
    (case state_room st rid of
       Some room \<Rightarrow>
         (case ser (RoomStatus rid (participants_snapshot room) (st_e2ee_required st)) of
            Some json \<Rightarrow> room_broadcast_all json room
          | None \<Rightarrow> [])
     | None \<Rightarrow> [])"


section \<open>The representation invariant\<close>

text \<open>
  Every map has distinct keys, a member is stored under its own identifier, and the reverse index of the
  state names every room a participant is a member of. The converse of the last part is not an invariant:
  \<open>prune_stale\<close> removes a member without touching the index.
\<close>

definition room_inv :: "(participant_id, chan \<times> string list) hmap \<Rightarrow> string \<Rightarrow> room \<Rightarrow> bool" where
  "room_inv conns rid r \<longleftrightarrow> hm_wf (rm_members r) \<and>
     (\<forall>(i, m) \<in> set (rm_members r). mb_id m = i \<and>
        (case hm_get conns i of Some (_, rids) \<Rightarrow> rid \<in> set rids | None \<Rightarrow> False))"

definition state_inv :: "signaling_state \<Rightarrow> bool" where
  "state_inv st \<longleftrightarrow> hm_wf (st_rooms st) \<and> hm_wf (st_connections st) \<and> hm_wf (st_connection_gens st) \<and>
     (\<forall>(rid, r) \<in> set (st_rooms st). room_inv (st_connections st) rid r)"

text \<open>Who is a member of which room: the abstract view of the state.\<close>

definition abs_members :: "signaling_state \<Rightarrow> string \<Rightarrow> participant_id \<Rightarrow> member option" where
  "abs_members st rid = (case state_room st rid of Some r \<Rightarrow> hm_get (rm_members r) | None \<Rightarrow> Map.empty)"

definition joined_rooms :: "signaling_state \<Rightarrow> participant_id \<Rightarrow> string set" where
  "joined_rooms st i = (case hm_get (st_connections st) i of Some (_, rids) \<Rightarrow> set rids | None \<Rightarrow> {})"

lemma joined_rooms_index:
  "(case hm_get (st_connections st) i of Some (_, rids) \<Rightarrow> rid \<in> set rids | None \<Rightarrow> False) \<longleftrightarrow> rid \<in> joined_rooms st i"
  by (auto simp: joined_rooms_def split: option.splits)

lemma state_inv_iff:
  "state_inv st \<longleftrightarrow> hm_wf (st_rooms st) \<and> hm_wf (st_connections st) \<and> hm_wf (st_connection_gens st) \<and>
     (\<forall>rid r. hm_get (st_rooms st) rid = Some r \<longrightarrow> hm_wf (rm_members r) \<and>
       (\<forall>i m. hm_get (rm_members r) i = Some m \<longrightarrow> mb_id m = i \<and> rid \<in> joined_rooms st i))"
proof -
  have "room_inv (st_connections st) rid r \<longleftrightarrow> hm_wf (rm_members r) \<and>
      (\<forall>i m. hm_get (rm_members r) i = Some m \<longrightarrow> mb_id m = i \<and> rid \<in> joined_rooms st i)" for rid r
  proof (cases "hm_wf (rm_members r)")
    case True
    then show ?thesis
      by (simp add: room_inv_def joined_rooms_index hm_ball_get)
  qed (simp add: room_inv_def)
  then show ?thesis
    by (cases "hm_wf (st_rooms st)") (simp_all add: state_inv_def hm_ball_get)
qed

lemma state_inv_new: "state_inv state_new"
  by (simp add: state_inv_def state_new_def)

lemma abs_members_new [simp]: "abs_members state_new rid = Map.empty"
  by (simp add: abs_members_def state_room_def state_new_def)

lemma state_invD:
  assumes "state_inv st"
  shows state_inv_rooms: "hm_wf (st_rooms st)"
    and state_inv_conns: "hm_wf (st_connections st)"
    and state_inv_gens: "hm_wf (st_connection_gens st)"
    and state_inv_room: "hm_get (st_rooms st) rid = Some r \<Longrightarrow> hm_wf (rm_members r)"
    and state_inv_id: "hm_get (st_rooms st) rid = Some r \<Longrightarrow> hm_get (rm_members r) i = Some m \<Longrightarrow> mb_id m = i"
    and state_inv_index: "hm_get (st_rooms st) rid = Some r \<Longrightarrow> hm_get (rm_members r) i = Some m \<Longrightarrow> rid \<in> joined_rooms st i"
  using assms by (simp_all add: state_inv_iff)

lemma state_inv_member: "state_inv st \<Longrightarrow> abs_members st rid i = Some m \<Longrightarrow> mb_id m = i \<and> rid \<in> joined_rooms st i"
  by (auto simp: abs_members_def state_room_def state_inv_id state_inv_index split: option.splits)

lemma state_join_rooms:
  "st_rooms (snd (state_join i rid tx name st)) = hm_insert rid (snd (room_join (member_with_display_name i tx name)
     (case hm_get (st_rooms st) rid of Some r \<Rightarrow> r | None \<Rightarrow> room_new))) (st_rooms st)"
  by (simp add: state_join_def room_join_def Let_def split: prod.splits)

lemma state_join_first: "fst (state_join i rid tx name st) \<longleftrightarrow> abs_members st rid = Map.empty"
  by (simp add: state_join_def room_join_def Let_def abs_members_def state_room_def room_new_def
      hm_empty_iff fun_eq_iff split: prod.splits option.splits)

lemma joined_rooms_join:
  "joined_rooms (snd (state_join i rid tx name st)) = (joined_rooms st)(i := insert rid (joined_rooms st i))"
  by (auto simp: joined_rooms_def state_join_def room_join_def fun_eq_iff Let_def split: option.splits prod.splits if_splits)

lemma state_join_wf:
  assumes "state_inv st"
  shows "hm_wf (st_rooms (snd (state_join i rid tx name st)))"
    "hm_wf (st_connections (snd (state_join i rid tx name st)))"
    "st_connection_gens (snd (state_join i rid tx name st)) = st_connection_gens st"
  using assms by (simp_all add: state_join_def room_join_def Let_def state_invD split: prod.splits)

lemma state_inv_join:
  assumes "state_inv st" shows "state_inv (snd (state_join i rid tx name st))"
  unfolding state_inv_iff [of "snd (state_join i rid tx name st)"]
proof (intro conjI allI impI)
  fix rid' r
  assume r: "hm_get (st_rooms (snd (state_join i rid tx name st))) rid' = Some r"
  show "hm_wf (rm_members r)"
    using r assms by (auto simp: state_join_rooms room_join_def room_new_def state_inv_room
        split: if_splits option.splits)
  fix j m
  assume "hm_get (rm_members r) j = Some m"
  then show "mb_id m = j" "rid' \<in> joined_rooms (snd (state_join i rid tx name st)) j"
    using r assms
    by (auto simp: state_join_rooms room_join_def room_new_def joined_rooms_join member_with_display_name_def
        state_inv_id state_inv_index split: if_splits option.splits)
qed (simp_all add: assms state_join_wf state_invD)

lemma abs_join:
  "abs_members (snd (state_join i rid tx name st)) =
     (abs_members st)(rid := (abs_members st rid)(i \<mapsto> member_with_display_name i tx name))"
  by (auto simp: abs_members_def state_room_def state_join_rooms room_join_def room_new_def
      member_with_display_name_def fun_eq_iff split: option.splits)

lemma abs_leave:
  "abs_members (snd (state_leave i rid st)) = (abs_members st)(rid := (abs_members st rid)(i := None))"
  by (auto simp: abs_members_def state_room_def state_leave_def room_leave_def fun_eq_iff Let_def hm_empty_iff
      split: option.splits prod.splits if_splits)

lemma joined_rooms_leave:
  "joined_rooms (snd (state_leave i rid st)) = (joined_rooms st)(i := joined_rooms st i - {rid})"
  by (auto simp: joined_rooms_def state_leave_def fun_eq_iff Let_def filter_empty_conv
      split: option.splits prod.splits if_splits)

lemma state_leave_room:
  "hm_get (st_rooms (snd (state_leave i rid st))) rid' = Some r \<Longrightarrow>
     \<exists>r0. hm_get (st_rooms st) rid' = Some r0 \<and> rm_chat_history r = rm_chat_history r0 \<and>
       rm_members r = (if rid' = rid then hm_remove i (rm_members r0) else rm_members r0) \<and>
       (rid' = rid \<longrightarrow> rm_members r \<noteq> [])"
  by (auto simp: state_leave_def room_leave_def Let_def split: option.splits prod.splits if_splits)

lemma state_leave_wf:
  assumes "state_inv st"
  shows "hm_wf (st_rooms (snd (state_leave i rid st)))"
    "hm_wf (st_connections (snd (state_leave i rid st)))"
    "st_connection_gens (snd (state_leave i rid st)) = st_connection_gens st"
  using assms by (auto simp: state_leave_def Let_def state_invD split: option.splits prod.splits)

lemma state_inv_leave:
  assumes "state_inv st" shows "state_inv (snd (state_leave i rid st))"
  unfolding state_inv_iff [of "snd (state_leave i rid st)"]
proof (intro conjI allI impI)
  fix rid' r
  assume "hm_get (st_rooms (snd (state_leave i rid st))) rid' = Some r"
  then obtain r0 where r: "hm_get (st_rooms st) rid' = Some r0"
    "rm_members r = (if rid' = rid then hm_remove i (rm_members r0) else rm_members r0)"
    using state_leave_room by blast
  show "hm_wf (rm_members r)"
    using r assms by (auto simp: state_inv_room)
  fix j m
  assume "hm_get (rm_members r) j = Some m"
  then show "mb_id m = j" "rid' \<in> joined_rooms (snd (state_leave i rid st)) j"
    using r assms by (auto simp: joined_rooms_leave state_inv_id state_inv_index split: if_splits)
qed (simp_all add: assms state_leave_wf state_invD)


section \<open>The membership contract\<close>

text \<open>
  What the connection loop relies on: a membership relation, an index that covers it, and the effect of
  joining and leaving on both. Leaving every indexed room is then leaving every room.
\<close>

locale membership =
  fixes mem :: "'s \<Rightarrow> string \<Rightarrow> participant_id \<Rightarrow> member option"
    and idx :: "'s \<Rightarrow> participant_id \<Rightarrow> string set"
    and inv :: "'s \<Rightarrow> bool"
    and joins :: "participant_id \<Rightarrow> string \<Rightarrow> chan \<Rightarrow> string option \<Rightarrow> 's \<Rightarrow> 's"
    and leaves :: "participant_id \<Rightarrow> string \<Rightarrow> 's \<Rightarrow> 's"
  assumes inv_joins: "inv s \<Longrightarrow> inv (joins i rid tx name s)"
    and inv_leaves: "inv s \<Longrightarrow> inv (leaves i rid s)"
    and mem_joins: "mem (joins i rid tx name s) = (mem s)(rid := (mem s rid)(i \<mapsto> member_with_display_name i tx name))"
    and mem_leaves: "mem (leaves i rid s) = (mem s)(rid := (mem s rid)(i := None))"
    and mem_indexed: "inv s \<Longrightarrow> mem s rid i = Some m \<Longrightarrow> rid \<in> idx s i"
begin

lemma inv_leave_rooms: "inv s \<Longrightarrow> inv (fold (leaves i) rids s)"
  by (induction rids arbitrary: s) (simp_all add: inv_leaves)

lemma mem_leave_rooms:
  "mem (fold (leaves i) rids s) rid = (if rid \<in> set rids then (mem s rid)(i := None) else mem s rid)"
  by (induction rids arbitrary: s) (auto simp: mem_leaves)

lemma mem_leave_indexed:
  assumes "inv s" "idx s i \<subseteq> set rids"
  shows "mem (fold (leaves i) rids s) rid = (mem s rid)(i := None)"
proof (cases "rid \<in> set rids")
  case False
  then have "mem s rid i = None"
    using assms mem_indexed [of s rid i] by (cases "mem s rid i") auto
  then show ?thesis
    by (auto simp: mem_leave_rooms)
qed (simp add: mem_leave_rooms)

lemma leave_undoes_join:
  "mem s rid i = None \<Longrightarrow> mem (leaves i rid (joins i rid tx name s)) = mem s"
  by (simp add: mem_leaves mem_joins fun_upd_idem)

lemma rejoin_replaces:
  "mem (joins i rid tx' name' (joins i rid tx name s)) = mem (joins i rid tx' name' s)"
  by (simp add: mem_joins)

end

interpretation sig: membership abs_members joined_rooms state_inv
  "\<lambda>i rid tx name st. snd (state_join i rid tx name st)" "\<lambda>i rid st. snd (state_leave i rid st)"
  by unfold_locales (simp_all add: state_inv_join state_inv_leave abs_join abs_leave state_inv_member)

lemma leave_all_fold: "snd (leave_all i rids st) = fold (\<lambda>rid st. snd (state_leave i rid st)) rids st"
  by (induction rids arbitrary: st) (simp_all add: case_prod_unfold Let_def)

lemma fst_leave_all: "map fst (fst (leave_all i rids st)) = rids"
  by (induction rids arbitrary: st) (simp_all add: case_prod_unfold Let_def)

lemma state_disconnect_snd:
  "snd (state_disconnect i st) =
    (let st1 = fold (\<lambda>rid st. snd (state_leave i rid st))
        (case hm_get (st_connections st) i of Some (_, rids) \<Rightarrow> rids | None \<Rightarrow> []) st in
     st1\<lparr>st_connections := hm_remove i (st_connections st1),
         st_connection_gens := hm_remove i (st_connection_gens st1)\<rparr>)"
  by (simp add: state_disconnect_def Let_def leave_all_fold [symmetric] split: prod.splits)

lemma abs_members_update [simp]:
  "abs_members (st\<lparr>st_connections := c\<rparr>) = abs_members st"
  "abs_members (st\<lparr>st_connection_gens := g\<rparr>) = abs_members st"
  by (simp_all add: abs_members_def [abs_def] state_room_def)

lemma disconnect_index: "joined_rooms st i \<subseteq>
    set (case hm_get (st_connections st) i of Some (_, rids) \<Rightarrow> rids | None \<Rightarrow> [])"
  by (auto simp: joined_rooms_def split: option.splits)

lemma abs_disconnect:
  assumes "state_inv st"
  shows "abs_members (snd (state_disconnect i st)) rid = (abs_members st rid)(i := None)"
  by (simp add: state_disconnect_snd Let_def sig.mem_leave_indexed [OF assms disconnect_index])

lemma abs_membersI: "hm_get (st_rooms st) rid = Some r \<Longrightarrow> abs_members st rid = hm_get (rm_members r)"
  by (simp add: abs_members_def state_room_def)

lemma state_inv_disconnect:
  assumes "state_inv st" shows "state_inv (snd (state_disconnect i st))"
proof -
  define st1 where "st1 = fold (\<lambda>rid st. snd (state_leave i rid st))
        (case hm_get (st_connections st) i of Some (_, rids) \<Rightarrow> rids | None \<Rightarrow> []) st"
  have inv: "state_inv st1"
    unfolding st1_def by (rule sig.inv_leave_rooms [OF assms])
  have "abs_members st1 rid i = None" for rid
    unfolding st1_def by (simp add: sig.mem_leave_indexed [OF assms disconnect_index])
  then have "hm_get (st_rooms st1) rid = Some r \<Longrightarrow> hm_get (rm_members r) i = None" for rid r
    by (metis abs_membersI)
  then show ?thesis
    using inv unfolding state_disconnect_snd Let_def st1_def [symmetric] state_inv_iff joined_rooms_def
    by fastforce
qed

text \<open>
  C19: A disconnect takes the participant out of every room, whatever rooms it joined, leaves every other
  membership as it was, forgets the connection and its generation, and reports each indexed room once.
\<close>

theorem disconnect_leaves_every_room:
  assumes "state_inv st"
  shows "abs_members (snd (state_disconnect i st)) rid = (abs_members st rid)(i := None) \<and>
    state_sink i (snd (state_disconnect i st)) = None \<and>
    connection_gen i (snd (state_disconnect i st)) = None \<and>
    set (map fst (fst (state_disconnect i st))) = joined_rooms st i \<and>
    state_inv (snd (state_disconnect i st))"
proof (intro conjI)
  show "abs_members (snd (state_disconnect i st)) rid = (abs_members st rid)(i := None)"
    using assms by (rule abs_disconnect)
  show "state_inv (snd (state_disconnect i st))"
    using assms by (rule state_inv_disconnect)
  have "map fst (fst (state_disconnect i st)) =
      (case hm_get (st_connections st) i of Some (_, rids) \<Rightarrow> rids | None \<Rightarrow> [])"
    by (simp add: state_disconnect_def Let_def fst_leave_all split: prod.splits)
       (metis fst_conv fst_leave_all)
  then show "set (map fst (fst (state_disconnect i st))) = joined_rooms st i"
    by (simp add: joined_rooms_def split: option.splits)
qed (simp_all add: state_disconnect_snd Let_def state_sink_def connection_gen_def)

theorem disconnect_leaves_every_room_witness:
  "abs_members (snd (state_disconnect (ParticipantId 1)
     (snd (state_join (ParticipantId 1) ''a'' 7 None (snd (state_join (ParticipantId 2) ''a'' 8 None state_new)))))) ''a''
   = [ParticipantId 2 \<mapsto> member_new (ParticipantId 2) 8]"
  using disconnect_leaves_every_room [OF state_inv_join [OF state_inv_join [OF state_inv_new]],
      of "ParticipantId 1" "ParticipantId 1" "''a''" 7 None "ParticipantId 2" "''a''" 8 None "''a''"]
  by (auto simp: abs_join member_new_def fun_eq_iff)

text \<open>
  Joining puts the member, with the sink and name of this join and default media state, under its
  identifier in that room and changes no other membership; the caller is the initiator exactly when the
  room had no member; the participant's sink is the one of the latest join.
\<close>

lemma state_join_spec:
  "abs_members (snd (state_join i rid tx name st)) =
     (abs_members st)(rid := (abs_members st rid)(i \<mapsto> member_with_display_name i tx name)) \<and>
   (fst (state_join i rid tx name st) \<longleftrightarrow> abs_members st rid = Map.empty) \<and>
   state_sink i (snd (state_join i rid tx name st)) = Some tx"
  by (simp add: abs_join state_join_first)
     (simp add: state_sink_def state_join_def room_join_def Let_def split: prod.splits)

section \<open>Chat history\<close>

lemma push_chat_history:
  "rm_chat_history (push_chat raw n r) =
     (if 0 < n \<and> n \<le> length (rm_chat_history r) then tl (rm_chat_history r) else rm_chat_history r) @ [raw]"
  by (simp add: push_chat_def Let_def)

lemma push_chat_members [simp]: "rm_members (push_chat raw n r) = rm_members r"
  by (simp add: push_chat_def Let_def)

lemma push_chat_bound:
  "0 < n \<Longrightarrow> length (rm_chat_history r) \<le> n \<Longrightarrow> length (rm_chat_history (push_chat raw n r)) \<le> n"
  by (auto simp: push_chat_history)

lemma push_chat_window:
  assumes "0 < n" "rm_chat_history r = drop (length xs - n) xs"
  shows "rm_chat_history (push_chat raw n r) = drop (length (xs @ [raw]) - n) (xs @ [raw])"
  using assms by (cases "n \<le> length xs") (auto simp: push_chat_history tl_drop Suc_diff_le drop_Suc)

text \<open>
  After any run of chat messages a room keeps the latest \<open>max_entries\<close> of them in the order they
  were sent, all of them when the limit is zero.
\<close>

lemma chat_history_window:
  "rm_chat_history (fold (\<lambda>raw. push_chat raw n) raws room_new) =
     (if n = 0 then raws else drop (length raws - n) raws)"
proof (induction raws rule: rev_induct)
  case (snoc raw raws)
  then show ?case
    using push_chat_window [of n "fold (\<lambda>raw. push_chat raw n) raws room_new" raws raw]
    by (cases "n = 0") (simp_all add: push_chat_history)
qed (simp add: room_new_def)

section \<open>Room limits\<close>

text \<open>
  The limits the engine enforces: at most \<open>max_room_members\<close> members (one when the limit is zero, since
  the capacity check is skipped for a room that does not exist yet), at most \<open>max_chat_history\<close> stored
  messages unless that is zero, and, when \<open>tidy\<close> is set, no empty room left in the table (a hook that prunes a
  room before a join may leave it empty for a moment).
\<close>

definition room_limits :: "bool \<Rightarrow> nat \<Rightarrow> nat \<Rightarrow> room \<Rightarrow> bool" where
  "room_limits tidy maxm maxh r \<longleftrightarrow> member_count r \<le> max 1 maxm \<and>
     (maxh = 0 \<or> length (rm_chat_history r) \<le> maxh) \<and> (tidy \<longrightarrow> maxm = 0 \<or> rm_members r \<noteq> [])"

definition within_limits :: "bool \<Rightarrow> nat \<Rightarrow> nat \<Rightarrow> signaling_state \<Rightarrow> bool" where
  "within_limits tidy maxm maxh st \<longleftrightarrow> (\<forall>(rid, r) \<in> set (st_rooms st). room_limits tidy maxm maxh r)"

lemma within_limits_iff:
  "state_inv st \<Longrightarrow> within_limits tidy maxm maxh st \<longleftrightarrow>
     (\<forall>rid r. hm_get (st_rooms st) rid = Some r \<longrightarrow> room_limits tidy maxm maxh r)"
  by (simp add: within_limits_def hm_ball_get state_inv_rooms)

lemma limits_leave:
  assumes "state_inv st" "within_limits tidy maxm maxh st"
  shows "within_limits tidy maxm maxh (snd (state_leave i rid st))"
  unfolding within_limits_iff [OF state_inv_leave [OF assms(1)]]
proof (intro allI impI)
  fix rid' r
  assume "hm_get (st_rooms (snd (state_leave i rid st))) rid' = Some r"
  then obtain r0 where r0: "hm_get (st_rooms st) rid' = Some r0" "rm_chat_history r = rm_chat_history r0"
      "rm_members r = (if rid' = rid then hm_remove i (rm_members r0) else rm_members r0)"
      "rid' = rid \<longrightarrow> rm_members r \<noteq> []"
    using state_leave_room by blast
  moreover have "room_limits tidy maxm maxh r0" "hm_wf (rm_members r0)"
    using r0 assms by (auto simp: within_limits_iff state_inv_room)
  moreover have "hm_len (hm_remove i (rm_members r0)) \<le> hm_len (rm_members r0)"
    using \<open>hm_wf (rm_members r0)\<close> by (rule hm.len_del_le)
  ultimately show "room_limits tidy maxm maxh r"
    by (auto simp: room_limits_def member_count_def)
qed

lemma limits_leave_all:
  "state_inv st \<Longrightarrow> within_limits tidy maxm maxh st \<Longrightarrow>
     within_limits tidy maxm maxh (fold (\<lambda>rid st. snd (state_leave i rid st)) rids st)"
  by (induction rids arbitrary: st) (simp_all add: limits_leave state_inv_leave)

lemma limits_disconnect:
  "state_inv st \<Longrightarrow> within_limits tidy maxm maxh st \<Longrightarrow> within_limits tidy maxm maxh (snd (state_disconnect i st))"
  using limits_leave_all unfolding state_disconnect_snd Let_def within_limits_def by simp

lemma limits_gens [simp]: "within_limits tidy maxm maxh (set_connection_gen i g st) = within_limits tidy maxm maxh st"
  by (simp add: within_limits_def set_connection_gen_def)

lemma state_inv_gen: "state_inv st \<Longrightarrow> state_inv (set_connection_gen i g st)"
  by (simp add: state_inv_def set_connection_gen_def)

text \<open>Updates of one room that keep its members' identities.\<close>

lemma hm_ball_modify:
  "(\<forall>(k, v) \<in> set (hm_modify k0 f m). P k v) \<longleftrightarrow> (\<forall>(k, v) \<in> set m. P k (if k = k0 then f v else v))"
  by (induction m) (auto simp: hm_modify_def)

lemma state_inv_update_room:
  assumes "state_inv st"
    and "\<And>r. room_inv (st_connections st) rid r \<Longrightarrow> room_inv (st_connections st) rid (f r)"
  shows "state_inv (update_room rid f st)"
  using assms by (fastforce simp: state_inv_def update_room_def hm_ball_modify)

lemma room_inv_media: "room_inv c rid r \<Longrightarrow> room_inv c rid (update_media i f r)"
  by (fastforce simp: room_inv_def update_media_def hm_ball_modify)

lemma room_inv_chat: "room_inv c rid r \<Longrightarrow> room_inv c rid (push_chat raw n r)"
  by (simp add: room_inv_def)

lemma room_limits_media: "room_limits tidy maxm maxh (update_media i f r) = room_limits tidy maxm maxh r"
  by (simp add: room_limits_def update_media_def member_count_def) (simp add: hm_modify_def)

lemma room_limits_chat: "room_limits tidy maxm maxh r \<Longrightarrow> room_limits tidy maxm maxh (push_chat raw maxh r)"
  using push_chat_bound [of maxh r raw] by (auto simp: room_limits_def member_count_def)

lemma limits_update_room:
  assumes "within_limits tidy maxm maxh st" "\<And>r. room_limits tidy maxm maxh r \<Longrightarrow> room_limits tidy maxm maxh (f r)"
  shows "within_limits tidy maxm maxh (update_room rid f st)"
  using assms by (fastforce simp: within_limits_def update_room_def hm_ball_modify)

lemmas media_setters = set_audio_muted_def set_video_muted_def set_screen_sharing_def set_e2ee_def

section \<open>Pruning\<close>

lemma fold_hm_remove:
  "hm_wf m \<Longrightarrow> hm_wf (fold hm_remove ks m) \<and> hm_get (fold hm_remove ks m) = (\<lambda>k. if k \<in> set ks then None else hm_get m k) \<and>
     hm_len (fold hm_remove ks m) \<le> hm_len m"
proof (induction ks arbitrary: m)
  case (Cons k ks)
  then show ?case
    using le_trans [OF _ hm.len_del_le [of m k]] by (auto simp: fun_eq_iff)
qed auto

lemma prune_stale_members:
  assumes "hm_wf (rm_members r)" "\<forall>(i, m) \<in> set (rm_members r). mb_id m = i"
  shows "hm_get (rm_members (snd (prune_stale closed r))) i =
    (case hm_get (rm_members r) i of Some m \<Rightarrow> if closed (mb_sink m) then None else Some m | None \<Rightarrow> None)"
proof -
  let ?stale = "map mb_id (filter (\<lambda>m. closed (mb_sink m)) (hm_values (rm_members r)))"
  have "i \<in> set ?stale \<longleftrightarrow> (\<exists>m. hm_get (rm_members r) i = Some m \<and> closed (mb_sink m))"
    using assms by (force simp: hm_values_def hm_in_set_get [symmetric])
  then show ?thesis
    using fold_hm_remove [OF assms(1), of ?stale] by (auto simp: prune_stale_def Let_def split: option.splits)
qed

lemma room_inv_prune:
  assumes "room_inv c rid r" shows "room_inv c rid (snd (prune_stale closed r))"
proof -
  have wf: "hm_wf (rm_members r)"
    using assms by (simp add: room_inv_def)
  let ?r = "snd (prune_stale closed r)"
  have "hm_wf (rm_members ?r)"
    using fold_hm_remove [OF wf] by (simp add: prune_stale_def Let_def)
  moreover have "set (rm_members ?r) \<subseteq> set (rm_members r)"
    using fold_hm_remove [OF wf] by (auto simp: prune_stale_def Let_def hm_in_set_get wf split: if_splits)
  ultimately show ?thesis
    using assms by (auto simp: room_inv_def)
qed

lemma prune_stale_count:
  "hm_wf (rm_members r) \<Longrightarrow> member_count (snd (prune_stale closed r)) \<le> member_count r"
  using fold_hm_remove by (fastforce simp: prune_stale_def Let_def member_count_def)

lemma prune_stale_history [simp]: "rm_chat_history (snd (prune_stale closed r)) = rm_chat_history r"
  by (simp add: prune_stale_def Let_def)

end
