(* ===== verification/Signaling_Dispatch.thy ===== *)
theory Signaling_Dispatch
  imports Signaling_State
begin

text \<open>
  \<open>seameet-signaling/src/engine.rs\<close>, second part: the extension hooks of the engine and \<open>dispatch\<close>, the
  default handling of one message.

  \<open>dispatch\<close> takes the lock of the state once per message, so a call is one transition of the state with
  the list of its sends. Its arguments are the JSON serialiser \<open>ser\<close>, the \<open>Display\<close> of an identifier
  \<open>show\<close>, the channels \<open>closed\<close> at the time of the call, and those of the source.

  A value of the trait \<open>SignalingHooks\<close> is a record of functions over the state \<open>'h\<close> the implementation
  keeps behind \<open>&self\<close> and the signaling state it may lock.
\<close>

section \<open>Hooks\<close>

record 'h hooks =
  hk_on_message :: "(chan \<Rightarrow> bool) \<Rightarrow> sdp_message \<Rightarrow> string \<Rightarrow> participant_id \<Rightarrow> chan \<Rightarrow> 'h \<times> signaling_state \<Rightarrow>
    bool \<times> outbox \<times> 'h \<times> signaling_state"
  hk_on_disconnect :: "participant_id \<Rightarrow> (string \<times> bool) list \<Rightarrow> 'h \<times> signaling_state \<Rightarrow> outbox \<times> 'h \<times> signaling_state"
  hk_on_authenticate :: "participant_id \<Rightarrow> string \<Rightarrow> string option \<Rightarrow> 'h \<Rightarrow> (string + unit) \<times> 'h"
  hk_on_rate_check :: "participant_id \<Rightarrow> 'h \<Rightarrow> bool \<times> 'h"
  hk_max_room_members :: nat
  hk_max_chat_history :: nat
  hk_max_room_id_len :: nat
  hk_max_display_name_len :: nat
  hk_require_e2ee :: bool
  hk_e2ee_join_timeout_ms :: nat

definition on_authenticate_default :: "participant_id \<Rightarrow> string \<Rightarrow> string option \<Rightarrow> 'h \<Rightarrow> (string + unit) \<times> 'h" where
  "on_authenticate_default p room_id token h = (Inr (), h)"

definition on_rate_check_default :: "participant_id \<Rightarrow> 'h \<Rightarrow> bool \<times> 'h" where
  "on_rate_check_default p h = (True, h)"

definition noop_on_message ::
  "(chan \<Rightarrow> bool) \<Rightarrow> sdp_message \<Rightarrow> string \<Rightarrow> participant_id \<Rightarrow> chan \<Rightarrow> 'h \<times> signaling_state \<Rightarrow>
    bool \<times> outbox \<times> 'h \<times> signaling_state" where
  "noop_on_message closed sdp raw pid tx hs = (False, [], hs)"

definition noop_on_disconnect ::
  "participant_id \<Rightarrow> (string \<times> bool) list \<Rightarrow> 'h \<times> signaling_state \<Rightarrow> outbox \<times> 'h \<times> signaling_state" where
  "noop_on_disconnect pid affected hs = ([], hs)"

definition noop_hooks :: "'h hooks" where
  "noop_hooks =
    \<lparr>hk_on_message = noop_on_message, hk_on_disconnect = noop_on_disconnect,
     hk_on_authenticate = on_authenticate_default, hk_on_rate_check = on_rate_check_default,
     hk_max_room_members = 25, hk_max_chat_history = 1000, hk_max_room_id_len = 64,
     hk_max_display_name_len = 64, hk_require_e2ee = False, hk_e2ee_join_timeout_ms = 5000\<rparr>"

definition e2ee_noop_hooks :: "nat \<Rightarrow> 'h hooks" where
  "e2ee_noop_hooks timeout = noop_hooks\<lparr>hk_require_e2ee := True, hk_e2ee_join_timeout_ms := timeout\<rparr>"

section \<open>Dispatch\<close>

definition dispatch_join ::
  "serialiser \<Rightarrow> (participant_id \<Rightarrow> string) \<Rightarrow> (chan \<Rightarrow> bool) \<Rightarrow> participant_id \<Rightarrow> string \<Rightarrow> string option \<Rightarrow>
    chan \<Rightarrow> nat \<Rightarrow> signaling_state \<Rightarrow> outbox \<times> signaling_state" where
  "dispatch_join ser show closed participant room_id display_name self_tx max_room_members st0 =
    (let st = update_room room_id (\<lambda>r. snd (prune_stale closed r)) st0;
         full = (case state_room st room_id of Some r \<Rightarrow> member_count r \<ge> max_room_members | None \<Rightarrow> False) in
     if full then (send_msg ser self_tx (Error 403 ''room is full''), st)
     else
       let existing_peers = (case state_room st room_id of Some r \<Rightarrow> peer_ids participant r | None \<Rightarrow> []);
           existing_display_names =
             (case state_room st room_id of Some r \<Rightarrow> display_names show participant r | None \<Rightarrow> []);
           (initiator, st') = state_join participant room_id self_tx display_name st;
           history = (case state_room st' room_id of Some r \<Rightarrow> rm_chat_history r | None \<Rightarrow> []) in
       (send_msg ser self_tx (Ready room_id initiator existing_peers existing_display_names) @
        broadcast_room_status ser room_id st' @
        map (\<lambda>msg_json. (self_tx, msg_json)) history, st'))"

definition unicast :: "participant_id \<Rightarrow> string \<Rightarrow> signaling_state \<Rightarrow> outbox \<times> signaling_state" where
  \<comment> \<open>\<open>if let Some(peer_tx) = st.sink(to) { let _ = peer_tx.send(raw) }\<close>\<close>
  "unicast i raw st = ((case state_sink i st of Some peer_tx \<Rightarrow> [(peer_tx, raw)] | None \<Rightarrow> []), st)"

definition relay_peers :: "string \<Rightarrow> participant_id \<Rightarrow> string \<Rightarrow> signaling_state \<Rightarrow> outbox" where
  \<comment> \<open>\<open>for peer_tx in st.peers(room_id, &pid) { let _ = peer_tx.send(raw) }\<close>\<close>
  "relay_peers room_id pid raw st = map (\<lambda>peer_tx. (peer_tx, raw)) (state_peers room_id pid st)"

fun dispatch ::
  "serialiser \<Rightarrow> (participant_id \<Rightarrow> string) \<Rightarrow> (chan \<Rightarrow> bool) \<Rightarrow> sdp_message \<Rightarrow> string \<Rightarrow> participant_id \<Rightarrow>
    chan \<Rightarrow> nat \<Rightarrow> nat \<Rightarrow> signaling_state \<Rightarrow> outbox \<times> signaling_state" where
  "dispatch ser show closed (Join participant room_id display_name _) raw pid self_tx maxh maxm st =
     dispatch_join ser show closed participant room_id display_name self_tx maxm st"
| "dispatch ser show closed (Leave participant room_id) raw pid self_tx maxh maxm st =
     (let (_, st') = state_leave participant room_id st in (broadcast_room_status ser room_id st', st'))"
| "dispatch ser show closed (Offer _ to room_id _) raw pid self_tx maxh maxm st =
     (case to of Some target \<Rightarrow> unicast target raw st | None \<Rightarrow> (relay_peers room_id pid raw st, st))"
| "dispatch ser show closed (Answer _ to _ _) raw pid self_tx maxh maxm st = unicast to raw st"
| "dispatch ser show closed (IceCandidate _ to _ _ _ _) raw pid self_tx maxh maxm st = unicast to raw st"
| "dispatch ser show closed (RequestRenegotiation _ _) raw pid self_tx maxh maxm st = ([], st)"
| "dispatch ser show closed (MuteAudio _ room_id) raw pid self_tx maxh maxm st =
     (let st' = update_room room_id (set_audio_muted pid True) st in (broadcast_room_status ser room_id st', st'))"
| "dispatch ser show closed (UnmuteAudio _ room_id) raw pid self_tx maxh maxm st =
     (let st' = update_room room_id (set_audio_muted pid False) st in (broadcast_room_status ser room_id st', st'))"
| "dispatch ser show closed (MuteVideo _ room_id) raw pid self_tx maxh maxm st =
     (let st' = update_room room_id (set_video_muted pid True) st in (broadcast_room_status ser room_id st', st'))"
| "dispatch ser show closed (UnmuteVideo _ room_id) raw pid self_tx maxh maxm st =
     (let st' = update_room room_id (set_video_muted pid False) st in (broadcast_room_status ser room_id st', st'))"
| "dispatch ser show closed (ScreenShareStarted _ room_id _) raw pid self_tx maxh maxm st =
     (let st' = update_room room_id (set_screen_sharing pid True) st in (relay_peers room_id pid raw st', st'))"
| "dispatch ser show closed (ScreenShareStopped _ room_id _) raw pid self_tx maxh maxm st =
     (let st' = update_room room_id (set_screen_sharing pid False) st in (relay_peers room_id pid raw st', st'))"
| "dispatch ser show closed (VideoConfigChanged _ room_id _ _ _) raw pid self_tx maxh maxm st =
     (relay_peers room_id pid raw st, st)"
| "dispatch ser show closed (ChatMessage _ room_id _ _ _ _ _) raw pid self_tx maxh maxm st =
     (let st' = update_room room_id (push_chat raw maxh) st in
      (case state_room st' room_id of Some r \<Rightarrow> room_broadcast_all raw r | None \<Rightarrow> [], st'))"
| "dispatch ser show closed (ActiveSpeaker _ _ _) raw pid self_tx maxh maxm st = ([], st)"
| "dispatch ser show closed (E2eePublicKey _ room_id _) raw pid self_tx maxh maxm st =
     (let st' = update_room room_id (set_e2ee pid True) st in
      ((case state_room st' room_id of Some r \<Rightarrow> room_broadcast raw pid r | None \<Rightarrow> []) @
       broadcast_room_status ser room_id st', st'))"
| "dispatch ser show closed (E2eeKeyRotation _ room_id _) raw pid self_tx maxh maxm st =
     (let st' = update_room room_id (set_e2ee pid True) st in
      ((case state_room st' room_id of Some r \<Rightarrow> room_broadcast raw pid r | None \<Rightarrow> []) @
       broadcast_room_status ser room_id st', st'))"
| "dispatch ser show closed (E2eeSenderKey _ to _ _ _) raw pid self_tx maxh maxm st = unicast to raw st"
| "dispatch ser show closed (Ready _ _ _ _) raw pid self_tx maxh maxm st = ([], st)"
| "dispatch ser show closed (PeerJoined _ _ _) raw pid self_tx maxh maxm st = ([], st)"
| "dispatch ser show closed (PeerLeft _ _) raw pid self_tx maxh maxm st = ([], st)"
| "dispatch ser show closed (RequestKeyframe _ _ _) raw pid self_tx maxh maxm st = ([], st)"
| "dispatch ser show closed (RoomStatus _ _ _) raw pid self_tx maxh maxm st = ([], st)"
| "dispatch ser show closed (ScreenShareRouted _ _ _) raw pid self_tx maxh maxm st = ([], st)"
| "dispatch ser show closed (Error _ _) raw pid self_tx maxh maxm st = ([], st)"

section \<open>The invariant and the limits\<close>

lemma update_room_get:
  "hm_get (st_rooms (update_room rid f st)) rid' =
     (if rid' = rid then map_option f (hm_get (st_rooms st) rid) else hm_get (st_rooms st) rid')"
  by (simp add: update_room_def)

lemma state_room_update:
  "state_room (update_room rid f st) rid' =
     (if rid' = rid then map_option f (state_room st rid) else state_room st rid')"
  by (simp add: state_room_def update_room_get)

lemma state_inv_prune:
  "state_inv st \<Longrightarrow> state_inv (update_room rid (\<lambda>r. snd (prune_stale closed r)) st)"
  by (rule state_inv_update_room) (simp_all add: room_inv_prune)

lemma state_inv_dispatch_join:
  "state_inv st \<Longrightarrow> state_inv (snd (dispatch_join ser show closed p rid name tx maxm st))"
  by (simp add: dispatch_join_def Let_def case_prod_unfold state_inv_prune state_inv_join)

lemma state_inv_dispatch:
  "state_inv st \<Longrightarrow> state_inv (snd (dispatch ser show closed sdp raw pid tx maxh maxm st))"
  by (cases sdp)
    (auto simp: Let_def case_prod_unfold unicast_def media_setters state_inv_dispatch_join state_inv_leave
      room_inv_media room_inv_chat intro!: state_inv_update_room split: option.split)

lemma limits_join:
  assumes inv: "state_inv st"
    and others: "\<And>rid' r. rid' \<noteq> rid \<Longrightarrow> hm_get (st_rooms st) rid' = Some r \<Longrightarrow> room_limits tidy maxm maxh r"
    and room: "\<And>r. hm_get (st_rooms st) rid = Some r \<Longrightarrow>
      member_count r < maxm \<and> (maxh = 0 \<or> length (rm_chat_history r) \<le> maxh)"
  shows "within_limits tidy maxm maxh (snd (state_join i rid tx name st))"
  unfolding within_limits_iff [OF state_inv_join [OF inv]]
proof (intro allI impI)
  fix rid' r'
  assume r': "hm_get (st_rooms (snd (state_join i rid tx name st))) rid' = Some r'"
  show "room_limits tidy maxm maxh r'"
  proof (cases "rid' = rid")
    case False
    then show ?thesis
      using r' others by (simp add: state_join_rooms)
  next
    case True
    define r where "r = (case hm_get (st_rooms st) rid of Some r \<Rightarrow> r | None \<Rightarrow> room_new)"
    let ?ms = "hm_insert i (member_with_display_name i tx name) (rm_members r)"
    have eq: "r' = r\<lparr>rm_members := ?ms\<rparr>"
      using r' True by (simp add: state_join_rooms room_join_def r_def member_with_display_name_def)
    have "hm_wf (rm_members r)" "maxh = 0 \<or> length (rm_chat_history r) \<le> maxh" "hm_len (rm_members r) < max 1 maxm"
      using room state_inv_room [OF inv]
      by (auto simp: r_def room_new_def member_count_def hm_len_def split: option.splits)
    then have "hm_len ?ms \<le> max 1 maxm"
      by (intro hm.len_ins_bound)
    moreover have "?ms \<noteq> []"
      by (simp add: hm_empty_iff)
    ultimately show ?thesis
      using \<open>maxh = 0 \<or> _\<close> by (simp add: eq room_limits_def member_count_def)
  qed
qed

lemma limits_dispatch_join:
  assumes inv: "state_inv st" and lim: "within_limits tidy maxm maxh st"
  shows "within_limits tidy maxm maxh (snd (dispatch_join ser show closed p rid name tx maxm st))"
proof -
  define st1 where "st1 = update_room rid (\<lambda>r. snd (prune_stale closed r)) st"
  have inv1: "state_inv st1"
    unfolding st1_def using inv by (rule state_inv_prune)
  have others: "room_limits tidy maxm maxh r" if "rid' \<noteq> rid" "hm_get (st_rooms st1) rid' = Some r" for rid' r
    using that inv lim by (auto simp: st1_def update_room_get within_limits_iff)
  have pruned: "member_count r \<le> max 1 maxm \<and> (maxh = 0 \<or> length (rm_chat_history r) \<le> maxh)"
    if r: "hm_get (st_rooms st1) rid = Some r" for r
  proof -
    obtain r0 where r0: "hm_get (st_rooms st) rid = Some r0" "r = snd (prune_stale closed r0)"
      using r by (auto simp: st1_def update_room_get)
    moreover have "room_limits tidy maxm maxh r0" "hm_wf (rm_members r0)"
      using inv lim r0 by (auto simp: within_limits_iff state_inv_room)
    ultimately show ?thesis
      using prune_stale_count [of r0 closed] by (auto simp: room_limits_def)
  qed
  show ?thesis
  proof (cases "case state_room st1 rid of Some r \<Rightarrow> member_count r \<ge> maxm | None \<Rightarrow> False")
    case True
    then have "room_limits tidy maxm maxh r" if "hm_get (st_rooms st1) rid = Some r" for r
      using that pruned [OF that]
      by (auto simp: room_limits_def state_room_def member_count_def hm_len_def)
    then have "room_limits tidy maxm maxh r" if "hm_get (st_rooms st1) rid' = Some r" for rid' r
      using that others [of rid' r] by (cases "rid' = rid") simp_all
    then have "within_limits tidy maxm maxh st1"
      by (simp add: within_limits_iff [OF inv1])
    with True show ?thesis
      unfolding dispatch_join_def Let_def st1_def [symmetric] by simp
  next
    case False
    then have below: "member_count r < maxm \<and> (maxh = 0 \<or> length (rm_chat_history r) \<le> maxh)"
      if "hm_get (st_rooms st1) rid = Some r" for r
      using that pruned [OF that] by (simp add: state_room_def)
    have "within_limits tidy maxm maxh (snd (state_join p rid tx name st1))"
      using inv1 others below by (rule limits_join)
    with False show ?thesis
      unfolding dispatch_join_def Let_def st1_def [symmetric] by (simp add: case_prod_unfold)
  qed
qed

lemma limits_dispatch:
  "state_inv st \<Longrightarrow> within_limits tidy maxm maxh st \<Longrightarrow>
     within_limits tidy maxm maxh (snd (dispatch ser show closed sdp raw pid tx maxh maxm st))"
  by (cases sdp)
    (auto simp: Let_def case_prod_unfold unicast_def media_setters limits_dispatch_join limits_leave
      room_limits_media room_limits_chat intro!: limits_update_room split: option.split)

section \<open>Who receives what\<close>

lemma values_member:
  assumes "state_inv st" "state_room st rid = Some r"
  shows "m \<in> set (hm_values (rm_members r)) \<longleftrightarrow> abs_members st rid (mb_id m) = Some m"
  using assms state_inv_room [OF assms(1)] state_inv_id [OF assms(1)]
  by (auto simp: hm_values_set abs_members_def ran_def state_room_def)

lemma values_collect:
  assumes "state_inv st" "state_room st rid = Some r"
  shows "{f m |m. m \<in> set (hm_values (rm_members r)) \<and> Q (mb_id m)} = {f m |i m. abs_members st rid i = Some m \<and> Q i}"
proof (intro set_eqI iffI)
  fix x assume "x \<in> {f m |m. m \<in> set (hm_values (rm_members r)) \<and> Q (mb_id m)}"
  then show "x \<in> {f m |i m. abs_members st rid i = Some m \<and> Q i}"
    using values_member [OF assms] by blast
next
  fix x assume "x \<in> {f m |i m. abs_members st rid i = Some m \<and> Q i}"
  then obtain i m where "x = f m" "abs_members st rid i = Some m" "Q i"
    by blast
  moreover from this have "mb_id m = i"
    using state_inv_member [OF assms(1)] by blast
  ultimately show "x \<in> {f m |m. m \<in> set (hm_values (rm_members r)) \<and> Q (mb_id m)}"
    using values_member [OF assms] by blast
qed

lemma relay_peers_set:
  assumes "state_inv st"
  shows "set (relay_peers rid pid raw st) = {(mb_sink m, raw) |i m. abs_members st rid i = Some m \<and> i \<noteq> pid}"
proof (cases "state_room st rid")
  case (Some r)
  then have "set (relay_peers rid pid raw st) =
      {(mb_sink m, raw) |m. m \<in> set (hm_values (rm_members r)) \<and> mb_id m \<noteq> pid}"
    by (auto simp: relay_peers_def state_peers_def state_room_def peer_sinks_def)
  then show ?thesis
    by (simp only: values_collect [OF assms Some, of "\<lambda>m. (mb_sink m, raw)" "\<lambda>i. i \<noteq> pid"])
qed (simp add: relay_peers_def state_peers_def state_room_def abs_members_def)

lemma broadcast_all_set:
  assumes "state_inv st" "state_room st rid = Some r"
  shows "set (room_broadcast_all raw r) = {(mb_sink m, raw) |i m. abs_members st rid i = Some m}"
proof -
  have "set (room_broadcast_all raw r) = {(mb_sink m, raw) |m. m \<in> set (hm_values (rm_members r)) \<and> True}"
    by (auto simp: room_broadcast_all_def member_send_def)
  then show ?thesis
    unfolding values_collect [OF assms, of _ "\<lambda>_. True"] by simp
qed

lemma broadcast_set:
  assumes "state_inv st" "state_room st rid = Some r"
  shows "set (room_broadcast raw pid r) = {(mb_sink m, raw) |i m. abs_members st rid i = Some m \<and> i \<noteq> pid}"
proof -
  have "set (room_broadcast raw pid r) = {(mb_sink m, raw) |m. m \<in> set (hm_values (rm_members r)) \<and> mb_id m \<noteq> pid}"
    by (auto simp: room_broadcast_def member_send_def split: if_splits)
  then show ?thesis
    by (simp only: values_collect [OF assms, of "\<lambda>m. (mb_sink m, raw)" "\<lambda>i. i \<noteq> pid"])
qed

lemma room_status_set:
  assumes "state_inv st" "(c, msg) \<in> set (broadcast_room_status ser rid st)"
  shows "\<exists>i m. abs_members st rid i = Some m \<and> mb_sink m = c"
  using assms(2) broadcast_all_set [OF assms(1)]
  by (clarsimp simp: broadcast_room_status_def split: option.splits) blast

fun unicast_target :: "sdp_message \<Rightarrow> participant_id option" where
  "unicast_target (Offer _ to _ _) = to"
| "unicast_target (Answer _ to _ _) = Some to"
| "unicast_target (IceCandidate _ to _ _ _ _) = Some to"
| "unicast_target (E2eeSenderKey _ to _ _ _) = Some to"
| "unicast_target _ = None"

lemma join_recipients:
  assumes "state_inv st" "(c, msg) \<in> set (fst (dispatch_join ser show closed p rid name tx maxm st))"
  shows "c = tx \<or> (\<exists>i m. abs_members (snd (dispatch_join ser show closed p rid name tx maxm st)) rid i = Some m \<and> mb_sink m = c)"
proof -
  define st1 where "st1 = update_room rid (\<lambda>r. snd (prune_stale closed r)) st"
  have "state_inv (snd (state_join p rid tx name st1))"
    unfolding st1_def by (intro state_inv_join state_inv_prune assms(1))
  note status = room_status_set [OF this]
  from assms(2) show ?thesis
    unfolding dispatch_join_def Let_def st1_def [symmetric]
    by (auto simp: send_msg_def case_prod_unfold dest: status split: if_splits option.splits)
qed

lemma dispatch_recipients_room:
  assumes inv: "state_inv st" and "unicast_target sdp = None" "\<forall>p rid name tok. sdp \<noteq> Join p rid name tok"
    and "(c, msg) \<in> set (fst (dispatch ser show closed sdp raw pid tx maxh maxm st))"
  shows "\<exists>rid i m. msg_room_id sdp = Some rid \<and>
    abs_members (snd (dispatch ser show closed sdp raw pid tx maxh maxm st)) rid i = Some m \<and> mb_sink m = c"
proof -
  define st' where "st' = snd (dispatch ser show closed sdp raw pid tx maxh maxm st)"
  have inv': "state_inv st'"
    unfolding st'_def using inv by (rule state_inv_dispatch)
  note sets = room_status_set [OF inv'] relay_peers_set [OF inv'] broadcast_all_set [OF inv'] broadcast_set [OF inv']
  obtain rid where rid: "msg_room_id sdp = Some rid"
    and "(c, msg) \<in> set (broadcast_room_status ser rid st') \<or> (c, msg) \<in> set (relay_peers rid pid raw st') \<or>
      (c, msg) \<in> set (case state_room st' rid of Some r \<Rightarrow> room_broadcast_all raw r | None \<Rightarrow> []) \<or>
      (c, msg) \<in> set (case state_room st' rid of Some r \<Rightarrow> room_broadcast raw pid r | None \<Rightarrow> [])"
    using assms(2-4) unfolding st'_def
    by (cases sdp) (auto simp: Let_def case_prod_unfold)
  then have "\<exists>i m. abs_members st' rid i = Some m \<and> mb_sink m = c"
    using sets by (cases "state_room st' rid") auto
  with rid show ?thesis
    unfolding st'_def by blast
qed

text \<open>
  C18: Isolation of rooms. Whatever message arrives, each send of \<open>dispatch\<close> goes to the addressed
  participant's current sink with the message unchanged (offers, answers, candidates and sender keys with
  a target), or to a member of the room the message names, or, for a join, back to the sender.
\<close>

theorem dispatch_recipients:
  assumes inv: "state_inv st" and send: "(c, msg) \<in> set (fst (dispatch ser show closed sdp raw pid tx maxh maxm st))"
  shows "case unicast_target sdp of
      Some i \<Rightarrow> state_sink i st = Some c \<and> msg = raw
    | None \<Rightarrow> (c = tx \<and> msg_kind sdp = ''join'') \<or>
        (\<exists>rid i m. msg_room_id sdp = Some rid \<and>
           abs_members (snd (dispatch ser show closed sdp raw pid tx maxh maxm st)) rid i = Some m \<and> mb_sink m = c)"
proof (cases "unicast_target sdp")
  case (Some i)
  then show ?thesis
    using send by (cases sdp) (auto simp: unicast_def split: option.splits)
next
  case None
  then show ?thesis
  proof (cases "\<exists>p rid name tok. sdp = Join p rid name tok")
    case True
    then obtain p rid name tok where "sdp = Join p rid name tok"
      by blast
    then show ?thesis
      using join_recipients [OF inv, of c msg ser "show" closed p rid name tx maxm] send by auto
  next
    case False
    then show ?thesis
      using dispatch_recipients_room [OF inv None _ send] None by simp
  qed
qed

theorem dispatch_recipients_witness:
  "state_sink (ParticipantId 2) (snd (state_join (ParticipantId 2) ''a'' 8 None state_new)) = Some 8"
  using dispatch_recipients [OF state_inv_join [OF state_inv_new], of 8 "''x''" "\<lambda>_. None" "\<lambda>_. []" "\<lambda>_. False"
      "Answer (ParticipantId 1) (ParticipantId 2) ''a'' ''s''" "''x''" "ParticipantId 1" 7 0 25
      "ParticipantId 2" "''a''" 8 None]
  by (simp add: unicast_def state_sink_def state_join_def room_join_def Let_def state_new_def)

section \<open>Joining\<close>

definition live_members :: "(chan \<Rightarrow> bool) \<Rightarrow> signaling_state \<Rightarrow> string \<Rightarrow> participant_id \<Rightarrow> member option" where
  "live_members closed st rid i =
     (case abs_members st rid i of Some m \<Rightarrow> if closed (mb_sink m) then None else Some m | None \<Rightarrow> None)"

lemma abs_update_room:
  "abs_members (update_room rid f st) = (abs_members st)(rid :=
     (case state_room st rid of Some r \<Rightarrow> hm_get (rm_members (f r)) | None \<Rightarrow> Map.empty))"
  by (auto simp: abs_members_def state_room_update fun_eq_iff split: option.splits)

lemma abs_prune:
  assumes "state_inv st"
  shows "abs_members (update_room rid (\<lambda>r. snd (prune_stale closed r)) st) =
    (abs_members st)(rid := live_members closed st rid)"
proof -
  have "hm_get (rm_members (snd (prune_stale closed r))) = live_members closed st rid"
    if "state_room st rid = Some r" for r
  proof -
    have r: "hm_get (st_rooms st) rid = Some r"
      using that by (simp add: state_room_def)
    then have "\<forall>(i, m) \<in> set (rm_members r). mb_id m = i"
      using state_inv_room [OF assms] state_inv_id [OF assms] by (simp add: hm_ball_get)
    from prune_stale_members [OF state_inv_room [OF assms r] this] show ?thesis
      by (simp add: live_members_def abs_membersI [OF r] fun_eq_iff)
  qed
  then show ?thesis
    by (simp add: abs_update_room live_members_def abs_members_def fun_eq_iff split: option.splits)
qed

definition room_full :: "(chan \<Rightarrow> bool) \<Rightarrow> nat \<Rightarrow> string \<Rightarrow> signaling_state \<Rightarrow> bool" where
  "room_full closed maxm rid st \<longleftrightarrow> state_room st rid \<noteq> None \<and> maxm \<le> card (dom (live_members closed st rid))"

lemma pruned_count:
  assumes "state_inv st" "state_room (update_room rid (\<lambda>r. snd (prune_stale closed r)) st) rid = Some r"
  shows "member_count r = card (dom (live_members closed st rid))" "hm_wf (rm_members r)"
    "hm_get (rm_members r) = live_members closed st rid"
proof -
  let ?st = "update_room rid (\<lambda>r. snd (prune_stale closed r)) st"
  show wf: "hm_wf (rm_members r)"
    using state_inv_room [OF state_inv_prune [OF assms(1)]] assms(2) by (simp add: state_room_def)
  show get: "hm_get (rm_members r) = live_members closed st rid"
    using abs_membersI [of ?st rid r] assms(2) abs_prune [OF assms(1)] by (simp add: state_room_def)
  show "member_count r = card (dom (live_members closed st rid))"
    using hm_len_card [OF wf] by (simp add: member_count_def get)
qed

lemma room_full_iff:
  assumes "state_inv st"
  shows "(case state_room (update_room rid (\<lambda>r. snd (prune_stale closed r)) st) rid of
      Some r \<Rightarrow> member_count r \<ge> maxm | None \<Rightarrow> False) \<longleftrightarrow> room_full closed maxm rid st"
proof (cases "state_room st rid")
  case (Some r)
  then show ?thesis
    using pruned_count(1) [OF assms, of rid closed "snd (prune_stale closed r)"]
    by (simp add: room_full_def state_room_update)
qed (simp add: room_full_def state_room_update)


text \<open>
  C11: A join first drops the members whose connection is closed. If the room exists and its live members
  already reach the capacity, only an error 403 is sent, to the caller, and nobody joins. Otherwise the
  caller becomes a member, and no other room changes.
\<close>

theorem dispatch_join_membership:
  assumes "state_inv st"
  shows "abs_members (snd (dispatch_join ser show closed p rid name tx maxm st)) = (abs_members st)(rid :=
      (if room_full closed maxm rid st then live_members closed st rid
       else (live_members closed st rid)(p \<mapsto> member_with_display_name p tx name))) \<and>
    (room_full closed maxm rid st \<longrightarrow>
       fst (dispatch_join ser show closed p rid name tx maxm st) = send_msg ser tx (Error 403 ''room is full''))"
  unfolding dispatch_join_def Let_def room_full_iff [OF assms]
  by (simp add: abs_prune [OF assms] abs_join case_prod_unfold)

lemma room_full_new: "\<not> room_full closed maxm rid state_new"
  by (simp add: room_full_def state_room_def state_new_def)

lemma live_members_new: "live_members closed state_new rid = Map.empty"
  by (simp add: live_members_def fun_eq_iff)

theorem dispatch_join_membership_witness:
  "abs_members (snd (dispatch_join (\<lambda>_. None) (\<lambda>_. []) (\<lambda>_. False) (ParticipantId 1) ''a'' None 7 25 state_new)) ''a'' =
     [ParticipantId 1 \<mapsto> member_new (ParticipantId 1) 7]"
  using dispatch_join_membership [OF state_inv_new, of "\<lambda>_. None" "\<lambda>_. []" "\<lambda>_. False" "ParticipantId 1" "''a''" None 7 25]
  by (simp add: room_full_new live_members_new member_new_def)

lemma state_join_history:
  "state_room (snd (state_join i rid tx name st)) rid \<noteq> None"
  "map_option rm_chat_history (state_room (snd (state_join i rid tx name st)) rid) =
     Some (case state_room st rid of Some r \<Rightarrow> rm_chat_history r | None \<Rightarrow> [])"
  by (simp_all add: state_room_def state_join_rooms room_join_def room_new_def split: option.splits)

lemma peer_ids_live:
  assumes "state_inv st" "state_room (update_room rid (\<lambda>r. snd (prune_stale closed r)) st) rid = Some r"
  shows "set (peer_ids p r) = dom (live_members closed st rid) - {p}" "distinct (peer_ids p r)"
  using pruned_count [OF assms] hm_dom [of "rm_members r"]
  by (auto simp: peer_ids_def hm_wf_def hm_keys_def)

text \<open>
  C31: A participant that is let in receives, in this order, \<open>Ready\<close> with every live member but itself
  exactly once and the initiator flag set exactly when the room has no live member, then its share of the
  room-status broadcast, then the room's chat history from the oldest message to the newest.
\<close>

theorem dispatch_join_welcome:
  assumes "state_inv st" "\<not> room_full closed maxm rid st"
  shows "\<exists>peers names st'. st' = snd (dispatch_join ser show closed p rid name tx maxm st) \<and>
    fst (dispatch_join ser show closed p rid name tx maxm st) =
      send_msg ser tx (Ready rid (live_members closed st rid = Map.empty) peers names) @
      broadcast_room_status ser rid st' @
      map (Pair tx) (case state_room st rid of Some r \<Rightarrow> rm_chat_history r | None \<Rightarrow> []) \<and>
    set peers = dom (live_members closed st rid) - {p} \<and> distinct peers"
proof -
  define st1 where "st1 = update_room rid (\<lambda>r. snd (prune_stale closed r)) st"
  define peers where "peers = (case state_room st1 rid of Some r \<Rightarrow> peer_ids p r | None \<Rightarrow> [])"
  define st2 where "st2 = snd (state_join p rid tx name st1)"
  have peers: "set peers = dom (live_members closed st rid) - {p} \<and> distinct peers"
  proof (cases "state_room st1 rid")
    case None
    then have "state_room st rid = None"
      by (simp add: st1_def state_room_update)
    then show ?thesis
      by (simp add: peers_def None live_members_def [abs_def] abs_members_def)
  next
    case (Some r)
    then show ?thesis
      using peer_ids_live [OF assms(1)] by (simp add: peers_def st1_def)
  qed
  have hist: "(case state_room st2 rid of Some r \<Rightarrow> rm_chat_history r | None \<Rightarrow> []) =
      (case state_room st rid of Some r \<Rightarrow> rm_chat_history r | None \<Rightarrow> [])"
    using state_join_history [of p rid tx name st1]
    by (auto simp: st2_def st1_def state_room_update split: option.splits)
  have init: "fst (state_join p rid tx name st1) \<longleftrightarrow> live_members closed st rid = Map.empty"
    by (simp add: state_join_first st1_def abs_prune [OF assms(1)])
  have "dispatch_join ser show closed p rid name tx maxm st =
      (send_msg ser tx (Ready rid (live_members closed st rid = Map.empty) peers
          (case state_room st1 rid of Some r \<Rightarrow> display_names show p r | None \<Rightarrow> [])) @
        broadcast_room_status ser rid st2 @
        map (Pair tx) (case state_room st rid of Some r \<Rightarrow> rm_chat_history r | None \<Rightarrow> []), st2)"
    unfolding dispatch_join_def Let_def room_full_iff [OF assms(1)]
    using assms(2) init hist by (simp add: st1_def [symmetric] peers_def [symmetric] st2_def case_prod_unfold)
  then show ?thesis
    using peers by auto
qed

theorem dispatch_join_welcome_witness:
  "\<exists>peers names st'. st' = snd (dispatch_join (\<lambda>_. None) (\<lambda>_. []) (\<lambda>_. False) (ParticipantId 1) ''a'' None 7 25 state_new) \<and>
    fst (dispatch_join (\<lambda>_. None) (\<lambda>_. []) (\<lambda>_. False) (ParticipantId 1) ''a'' None 7 25 state_new) =
      send_msg (\<lambda>_. None) 7 (Ready ''a'' (live_members (\<lambda>_. False) state_new ''a'' = Map.empty) peers names) @
      broadcast_room_status (\<lambda>_. None) ''a'' st' @
      map (Pair 7) (case state_room state_new ''a'' of Some r \<Rightarrow> rm_chat_history r | None \<Rightarrow> []) \<and>
    set peers = dom (live_members (\<lambda>_. False) state_new ''a'') - {ParticipantId 1} \<and> distinct peers"
  by (rule dispatch_join_welcome [OF state_inv_new room_full_new])

section \<open>Chat and media state\<close>

text \<open>
  A chat message is delivered unchanged to every member of its room, the sender included, and to nobody
  else; it is appended to the history and no membership changes. In an unknown room it has no effect.
\<close>

lemma dispatch_chat:
  assumes "state_inv st"
  shows "let (out, st') = dispatch ser show closed (ChatMessage p rid name txt ts enc ep) raw pid tx maxh maxm st in
    set out = {(mb_sink m, raw) |i m. abs_members st rid i = Some m} \<and>
    length out = card (dom (abs_members st rid)) \<and>
    abs_members st' = abs_members st \<and>
    map_option rm_chat_history (state_room st' rid) =
      map_option (\<lambda>r. rm_chat_history (push_chat raw maxh r)) (state_room st rid)"
proof (cases "state_room st rid")
  case None
  then show ?thesis
    by (simp add: Let_def state_room_update abs_update_room fun_upd_idem abs_members_def)
next
  case (Some r)
  have "hm_len (rm_members r) = card (dom (abs_members st rid))"
    using Some state_inv_room [OF assms] by (simp add: hm_len_card abs_members_def state_room_def)
  moreover have "length (room_broadcast_all raw (push_chat raw maxh r)) = hm_len (rm_members r)"
    by (simp add: room_broadcast_all_def member_send_def length_concat o_def hm_values_def hm_len_def
        sum_list_triv)
  moreover have "room_broadcast_all raw (push_chat raw maxh r) = room_broadcast_all raw r"
    by (simp add: room_broadcast_all_def)
  moreover have "abs_members (update_room rid (push_chat raw maxh) st) = abs_members st"
    using Some by (simp add: abs_update_room fun_upd_idem abs_members_def)
  ultimately show ?thesis
    using broadcast_all_set [OF assms Some] Some by (simp add: Let_def state_room_update)
qed

theorem dispatch_chat_witness:
  "set (fst (dispatch (\<lambda>_. None) (\<lambda>_. []) (\<lambda>_. False) (ChatMessage (ParticipantId 1) ''a'' None ''t'' 0 False None) ''raw''
      (ParticipantId 1) 7 10 25 (snd (state_join (ParticipantId 2) ''a'' 8 None state_new)))) = {(8, ''raw'')}"
  using dispatch_chat [OF state_inv_join [OF state_inv_new], of "\<lambda>_. None" "\<lambda>_. []" "\<lambda>_. False" "ParticipantId 1"
      "''a''" None "''t''" 0 False None "''raw''" "ParticipantId 1" 7 10 25 "ParticipantId 2" "''a''" 8 None]
  by (simp add: Let_def case_prod_unfold abs_join member_with_display_name_def)

text \<open>The media flag each status message sets, and its room.\<close>

fun media_effect :: "sdp_message \<Rightarrow> (string \<times> (member_media_state \<Rightarrow> member_media_state)) option" where
  "media_effect (MuteAudio _ rid) = Some (rid, \<lambda>s. s\<lparr>mm_audio_muted := True\<rparr>)"
| "media_effect (UnmuteAudio _ rid) = Some (rid, \<lambda>s. s\<lparr>mm_audio_muted := False\<rparr>)"
| "media_effect (MuteVideo _ rid) = Some (rid, \<lambda>s. s\<lparr>mm_video_muted := True\<rparr>)"
| "media_effect (UnmuteVideo _ rid) = Some (rid, \<lambda>s. s\<lparr>mm_video_muted := False\<rparr>)"
| "media_effect (ScreenShareStarted _ rid _) = Some (rid, \<lambda>s. s\<lparr>mm_screen_sharing := True\<rparr>)"
| "media_effect (ScreenShareStopped _ rid _) = Some (rid, \<lambda>s. s\<lparr>mm_screen_sharing := False\<rparr>)"
| "media_effect (E2eePublicKey _ rid _) = Some (rid, \<lambda>s. s\<lparr>mm_e2ee := True\<rparr>)"
| "media_effect (E2eeKeyRotation _ rid _) = Some (rid, \<lambda>s. s\<lparr>mm_e2ee := True\<rparr>)"
| "media_effect _ = None"

lemma abs_update_media:
  "abs_members (update_room rid (update_media pid f) st) = (abs_members st)(rid :=
     (\<lambda>i. map_option (\<lambda>m. if i = pid then m\<lparr>mb_media := f (mb_media m)\<rparr> else m) (abs_members st rid i)))"
  by (auto simp: abs_update_room update_media_def abs_members_def fun_eq_iff option.map_ident split: option.splits)

lemma room_status_content:
  assumes "state_inv st" "ser (RoomStatus rid (case state_room st rid of Some r \<Rightarrow> participants_snapshot r | None \<Rightarrow> []) (st_e2ee_required st)) = Some json"
  shows "set (broadcast_room_status ser rid st) = {(mb_sink m, json) |i m. abs_members st rid i = Some m}"
proof (cases "state_room st rid")
  case (Some r)
  then show ?thesis
    using assms broadcast_all_set [OF assms(1) Some] by (simp add: broadcast_room_status_def)
qed (simp add: broadcast_room_status_def abs_members_def)

text \<open>
  A status message (mute, unmute, screen share, end-to-end key) changes exactly one flag of exactly one
  member: the sender of the connection, in the room the message names, if it is a member there.
\<close>

lemma dispatch_media_flag:
  assumes "media_effect sdp = Some (rid, f)"
  shows "abs_members (snd (dispatch ser show closed sdp raw pid tx maxh maxm st)) = (abs_members st)(rid :=
     (\<lambda>i. map_option (\<lambda>m. if i = pid then m\<lparr>mb_media := f (mb_media m)\<rparr> else m) (abs_members st rid i)))"
  using assms by (cases sdp) (auto simp: Let_def media_setters abs_update_media [symmetric])

theorem dispatch_media_flag_witness:
  "abs_members (snd (dispatch (\<lambda>_. None) (\<lambda>_. []) (\<lambda>_. False) (MuteAudio (ParticipantId 2) ''a'') ''raw'' (ParticipantId 2) 8 10 25
     (snd (state_join (ParticipantId 2) ''a'' 8 None state_new)))) ''a'' (ParticipantId 2) =
   Some ((member_new (ParticipantId 2) 8)\<lparr>mb_media := media_default\<lparr>mm_audio_muted := True\<rparr>\<rparr>)"
  using dispatch_media_flag [of "MuteAudio (ParticipantId 2) ''a''" "''a''" "\<lambda>s. s\<lparr>mm_audio_muted := True\<rparr>" "\<lambda>_. None" "\<lambda>_. []" "\<lambda>_. False"
      "''raw''" "ParticipantId 2" 8 10 25 "snd (state_join (ParticipantId 2) ''a'' 8 None state_new)"]
  by (simp add: abs_join member_new_def member_with_display_name_def)

text \<open>
  Messages that only the server sends (\<open>Ready\<close>, \<open>PeerJoined\<close>, \<open>RoomStatus\<close>, \<open>ActiveSpeaker\<close>, errors,
  renegotiation requests and the like) have no effect when a client sends them.
\<close>

lemma dispatch_server_only:
  "msg_kind sdp \<in> {''ready'', ''peer_joined'', ''peer_left'', ''request_renegotiation'', ''request_keyframe'',
      ''room_status'', ''active_speaker'', ''screen_share_routed'', ''error''} \<Longrightarrow>
   dispatch ser show closed sdp raw pid tx maxh maxm st = ([], st)"
  by (cases sdp) auto

theorem dispatch_server_only_witness:
  "dispatch (\<lambda>_. None) (\<lambda>_. []) (\<lambda>_. False) (ActiveSpeaker ''a'' (ParticipantId 1) 30) ''raw'' (ParticipantId 1) 7 0 0 state_new
    = ([], state_new)"
  by (rule dispatch_server_only) simp

end
