(* ===== verification/Signaling_Connection.thy ===== *)
theory Signaling_Connection
  imports Signaling_Dispatch
begin

text \<open>
  \<open>seameet-signaling/src/engine.rs\<close>, last part: \<open>run_connection\<close>, the life of one connection, and the
  interleaving of any number of them over the shared state.

  Between two \<open>await\<close> points that lock the shared state a task runs alone on it, so a connection is a small
  machine whose program counter names the next lock region: \<open>conn_recv\<close> is the part of the loop body up to
  the first lock of the state, \<open>conn_step\<close> the rest, one region per step. A call of the hooks is one region.
  \<open>de\<close> is \<open>serde_json::from_str\<close>. The process-wide counter \<open>NEXT_CONN_GEN\<close> is a natural number (the code
  has a \<open>u64\<close>, which 2^64 connections would wrap). Log lines have no counterpart.
\<close>

section \<open>Names and room identifiers\<close>

definition is_cont :: "char \<Rightarrow> bool" where
  \<comment> \<open>a UTF-8 continuation byte, \<open>0b10xxxxxx\<close>\<close>
  "is_cont c = (128 \<le> (of_char c :: nat) \<and> (of_char c :: nat) < 192)"

function utf8_chars :: "string \<Rightarrow> string list" where
  \<comment> \<open>\<open>s.chars()\<close>, each character as its bytes\<close>
  "utf8_chars [] = []"
| "utf8_chars (b # bs) = (b # takeWhile is_cont bs) # utf8_chars (dropWhile is_cont bs)"
  by pat_completeness auto
termination by (relation "measure length") (auto simp: length_dropWhile_le le_imp_less_Suc)

definition is_control_char :: "string \<Rightarrow> bool" where
  \<comment> \<open>\<open>char::is_control\<close>: U+0000..U+001F, U+007F and U+0080..U+009F (in UTF-8 C2 80 .. C2 9F)\<close>
  "is_control_char c = (case map of_char c :: nat list of
     [b] \<Rightarrow> b < 32 \<or> b = 127
   | [a, b] \<Rightarrow> a = 194 \<and> 128 \<le> b \<and> b < 160
   | _ \<Rightarrow> False)"

definition is_char_boundary :: "string \<Rightarrow> nat \<Rightarrow> bool" where
  "is_char_boundary s i = (i = 0 \<or> i = length s \<or> (i < length s \<and> \<not> is_cont (s ! i)))"

definition str_prefix :: "string \<Rightarrow> nat \<Rightarrow> string outcome" where
  \<comment> \<open>\<open>&s[..i]\<close>\<close>
  "str_prefix s i = (if is_char_boundary s i then Ret (take i s) else Panic)"

definition clean_name :: "string \<Rightarrow> string" where
  "clean_name name = concat (filter (\<lambda>c. \<not> is_control_char c) (utf8_chars name))"

definition sanitize_name :: "nat \<Rightarrow> string \<Rightarrow> string outcome" where
  "sanitize_name max_name name =
    (let cleaned = clean_name name in
     if length cleaned > max_name then str_prefix cleaned max_name else Ret cleaned)"

definition sanitize_display_name :: "nat \<Rightarrow> string option \<Rightarrow> string option outcome" where
  "sanitize_display_name max_name display_name =
    (case display_name of
       None \<Rightarrow> Ret None
     | Some name \<Rightarrow> (case sanitize_name max_name name of Ret s \<Rightarrow> Ret (Some s) | Panic \<Rightarrow> Panic))"

definition invalid_room_id :: "nat \<Rightarrow> string \<Rightarrow> bool" where
  "invalid_room_id max_room_id room_id =
    (length room_id > max_room_id \<or> room_id = [] \<or> (\<exists>c \<in> set (utf8_chars room_id). is_control_char c))"

section \<open>One connection\<close>

datatype conn_pc =
    Reading
  | CheckingCapacity participant_id string "string option" string
  | Registering participant_id string "string option" string
  | Hooking sdp_message string bool
  | Dispatching sdp_message string bool
  | Cleanup
  | Disconnecting
  | StatusUpdates "string list" "(string \<times> bool) list"
  | NotifyingHooks "(string \<times> bool) list"
  | Finished
  | Crashed

record connection =
  cn_tx :: chan
  cn_pid :: "participant_id option"
  cn_gen :: nat
  cn_deadline :: bool
  cn_pc :: conn_pc

definition conn_new :: "chan \<Rightarrow> nat \<Rightarrow> connection" where
  "conn_new tx g = \<lparr>cn_tx = tx, cn_pid = None, cn_gen = g, cn_deadline = False, cn_pc = Reading\<rparr>"

definition goto :: "conn_pc \<Rightarrow> connection \<Rightarrow> connection" where
  "goto pc cn = cn\<lparr>cn_pc := pc\<rparr>"

text \<open>The deadline branch of the \<open>select!\<close>.\<close>

definition conn_timeout :: "serialiser \<Rightarrow> connection \<Rightarrow> outbox \<times> connection" where
  "conn_timeout ser cn = (send_msg ser (cn_tx cn) (Error 403 ''e2ee_required''), goto Cleanup cn)"

definition invalid_room_msg :: "nat \<Rightarrow> string" where
  "invalid_room_msg n = ''invalid room_id (max '' @ show_nat n @ '' chars, no control chars)''"

text \<open>The first \<open>Join\<close> of a connection, up to the capacity check.\<close>

definition first_join ::
  "serialiser \<Rightarrow> 'h hooks \<Rightarrow> participant_id \<Rightarrow> string \<Rightarrow> string option \<Rightarrow> string option \<Rightarrow> string \<Rightarrow>
    connection \<Rightarrow> 'h \<Rightarrow> outbox \<times> connection \<times> 'h" where
  "first_join ser H participant room_id display_name token msg cn h =
    (if invalid_room_id (hk_max_room_id_len H) room_id
     then (send_msg ser (cn_tx cn) (Error 400 (invalid_room_msg (hk_max_room_id_len H))), cn, h)
     else case sanitize_display_name (hk_max_display_name_len H) display_name of
       Panic \<Rightarrow> ([], goto Crashed cn, h)
     | Ret sanitized_name \<Rightarrow>
        (case hk_on_authenticate H participant room_id token h of
           (Inl reason, h') \<Rightarrow> (send_msg ser (cn_tx cn) (Error 401 reason), goto Finished cn, h')
         | (Inr _, h') \<Rightarrow> ([], goto (CheckingCapacity participant room_id sanitized_name msg) cn, h')))"

text \<open>The loop body on a message of a connection that has joined, up to the call of the hooks.\<close>

definition is_e2ee_public_key :: "sdp_message \<Rightarrow> bool" where
  "is_e2ee_public_key sdp = (case sdp of E2eePublicKey _ _ _ \<Rightarrow> True | _ \<Rightarrow> False)"

definition joined_message ::
  "'h hooks \<Rightarrow> sdp_message \<Rightarrow> string \<Rightarrow> participant_id \<Rightarrow> connection \<Rightarrow> 'h \<Rightarrow> outbox \<times> connection \<times> 'h" where
  "joined_message H sdp msg pid cn0 h =
    (let cn = (if is_e2ee_public_key sdp then cn0\<lparr>cn_deadline := False\<rparr> else cn0);
         (allowed, h') = hk_on_rate_check H pid h in
     if \<not> allowed then ([], cn, h')
     else if (case msg_room_id sdp of Some room_id \<Rightarrow> length room_id > hk_max_room_id_len H \<or> room_id = [] | None \<Rightarrow> False)
     then ([], cn, h')
     else ([], goto (Hooking sdp msg False) cn, h'))"

definition conn_recv ::
  "serialiser \<Rightarrow> (string \<Rightarrow> sdp_message option) \<Rightarrow> 'h hooks \<Rightarrow> string option \<Rightarrow> connection \<Rightarrow> 'h \<Rightarrow>
    outbox \<times> connection \<times> 'h" where
  "conn_recv ser de H received cn h =
    (case received of
       None \<Rightarrow> ([], goto Cleanup cn, h)
     | Some msg \<Rightarrow>
        (case de msg of
           None \<Rightarrow> ([], cn, h)
         | Some sdp \<Rightarrow>
            (case cn_pid cn of
               None \<Rightarrow>
                (case sdp of
                   Join participant room_id display_name token \<Rightarrow>
                     first_join ser H participant room_id display_name token msg cn h
                 | _ \<Rightarrow> ([], cn, h))
             | Some pid \<Rightarrow> joined_message H sdp msg pid cn h)))"

text \<open>The regions that lock the shared state.\<close>

definition check_capacity ::
  "serialiser \<Rightarrow> 'h hooks \<Rightarrow> participant_id \<Rightarrow> string \<Rightarrow> string option \<Rightarrow> string \<Rightarrow> connection \<Rightarrow> signaling_state \<Rightarrow>
    outbox \<times> connection" where
  "check_capacity ser H participant room_id name msg cn st =
    (if (case state_room st room_id of Some room \<Rightarrow> member_count room \<ge> hk_max_room_members H | None \<Rightarrow> False)
     then (send_msg ser (cn_tx cn) (Error 403 ''room is full''), goto Reading cn)
     else ([], (goto (Registering participant room_id name msg) cn)\<lparr>cn_pid := Some participant\<rparr>))"

definition sanitized_join :: "participant_id \<Rightarrow> string \<Rightarrow> string option \<Rightarrow> sdp_message" where
  "sanitized_join participant room_id name = Join participant room_id name None"

definition after_dispatch :: "'h hooks \<Rightarrow> bool \<Rightarrow> connection \<Rightarrow> connection" where
  "after_dispatch H first cn =
    (if first \<and> hk_require_e2ee H then (goto Reading cn)\<lparr>cn_deadline := True\<rparr> else goto Reading cn)"

definition conn_step ::
  "serialiser \<Rightarrow> (participant_id \<Rightarrow> string) \<Rightarrow> 'h hooks \<Rightarrow> (chan \<Rightarrow> bool) \<Rightarrow> connection \<Rightarrow> 'h \<times> signaling_state \<Rightarrow>
    outbox \<times> connection \<times> 'h \<times> signaling_state" where
  "conn_step ser show H closed cn hs =
    (case hs of (h, st) \<Rightarrow>
     (case cn_pc cn of
        CheckingCapacity participant room_id name msg \<Rightarrow>
          (case check_capacity ser H participant room_id name msg cn st of (out, cn') \<Rightarrow> (out, cn', h, st))
      | Registering participant room_id name msg \<Rightarrow>
          (let sdp = sanitized_join participant room_id name;
               raw = (case ser sdp of Some json \<Rightarrow> json | None \<Rightarrow> msg) in
           ([], goto (Hooking sdp raw True) cn, h, set_connection_gen participant (cn_gen cn) st))
      | Hooking sdp raw first \<Rightarrow>
          (case cn_pid cn of
             Some pid \<Rightarrow>
              (let (handled, out, hs') = hk_on_message H closed sdp raw pid (cn_tx cn) (h, st) in
               (out, if handled then after_dispatch H first cn else goto (Dispatching sdp raw first) cn, hs'))
           | None \<Rightarrow> ([], cn, h, st))
      | Dispatching sdp raw first \<Rightarrow>
          (case cn_pid cn of
             Some pid \<Rightarrow>
              (let (out, st') = dispatch ser show closed sdp raw pid (cn_tx cn) (hk_max_chat_history H) (hk_max_room_members H) st in
               (out, after_dispatch H first cn, h, st'))
           | None \<Rightarrow> ([], cn, h, st))
      | Cleanup \<Rightarrow>
          (case cn_pid cn of
             Some pid \<Rightarrow>
               ([], goto (if connection_gen pid st \<noteq> Some (cn_gen cn) then Finished else Disconnecting) cn, h, st)
           | None \<Rightarrow> ([], goto Finished cn, h, st))
      | Disconnecting \<Rightarrow>
          (case cn_pid cn of
             Some pid \<Rightarrow>
              (let (affected, st') = state_disconnect pid st in
               ([], goto (StatusUpdates (map fst affected) affected) cn, h, st'))
           | None \<Rightarrow> ([], cn, h, st))
      | StatusUpdates rids affected \<Rightarrow>
          (case rids of
             rid # rids' \<Rightarrow> (broadcast_room_status ser rid st, goto (StatusUpdates rids' affected) cn, h, st)
           | [] \<Rightarrow> ([], goto (NotifyingHooks affected) cn, h, st))
      | NotifyingHooks affected \<Rightarrow>
          (case cn_pid cn of
             Some pid \<Rightarrow>
              (let (out, hs') = hk_on_disconnect H pid affected (h, st) in (out, goto Finished cn, hs'))
           | None \<Rightarrow> ([], cn, h, st))
      | _ \<Rightarrow> ([], cn, h, st)))"

section \<open>Any number of connections\<close>

text \<open>
  The server's connections by number. A closed channel never opens again, but which channels are closed is
  known to the code only through \<open>is_closed\<close>: a step takes them as an argument, and nothing below relies on
  what they are.
\<close>

record 'h server =
  sv_state :: signaling_state
  sv_hooks :: 'h
  sv_next_gen :: nat
  sv_conns :: "connection list"

datatype sv_event =
    Accept chan
  | Receive nat "string option"
  | DeadlineFired nat
  | Advance nat "chan \<Rightarrow> bool"

definition server_new :: "'h \<Rightarrow> 'h server" where
  "server_new h = \<lparr>sv_state = state_new, sv_hooks = h, sv_next_gen = 1, sv_conns = []\<rparr>"

definition put_conn :: "nat \<Rightarrow> connection \<Rightarrow> 'h \<Rightarrow> signaling_state \<Rightarrow> 'h server \<Rightarrow> 'h server" where
  "put_conn k cn h st sv = sv\<lparr>sv_conns := (sv_conns sv)[k := cn], sv_hooks := h, sv_state := st\<rparr>"

fun sv_step ::
  "serialiser \<Rightarrow> (participant_id \<Rightarrow> string) \<Rightarrow> (string \<Rightarrow> sdp_message option) \<Rightarrow> 'h hooks \<Rightarrow> sv_event \<Rightarrow> 'h server \<Rightarrow>
    outbox \<times> 'h server" where
  "sv_step ser show de H (Accept tx) sv =
     ([], sv\<lparr>sv_conns := sv_conns sv @ [conn_new tx (sv_next_gen sv)], sv_next_gen := sv_next_gen sv + 1\<rparr>)"
| "sv_step ser show de H (Receive k received) sv =
     (if k < length (sv_conns sv) \<and> cn_pc (sv_conns sv ! k) = Reading
      then case conn_recv ser de H received (sv_conns sv ! k) (sv_hooks sv) of
        (out, cn, h) \<Rightarrow> (out, put_conn k cn h (sv_state sv) sv)
      else ([], sv))"
| "sv_step ser show de H (DeadlineFired k) sv =
     (if k < length (sv_conns sv) \<and> cn_pc (sv_conns sv ! k) = Reading \<and> cn_deadline (sv_conns sv ! k)
      then case conn_timeout ser (sv_conns sv ! k) of
        (out, cn) \<Rightarrow> (out, put_conn k cn (sv_hooks sv) (sv_state sv) sv)
      else ([], sv))"
| "sv_step ser show de H (Advance k closed) sv =
     (if k < length (sv_conns sv)
      then case conn_step ser show H closed (sv_conns sv ! k) (sv_hooks sv, sv_state sv) of
        (out, cn, h, st) \<Rightarrow> (out, put_conn k cn h st sv)
      else ([], sv))"

inductive sv_reachable ::
  "serialiser \<Rightarrow> (participant_id \<Rightarrow> string) \<Rightarrow> (string \<Rightarrow> sdp_message option) \<Rightarrow> 'h hooks \<Rightarrow> 'h \<Rightarrow> 'h server \<Rightarrow> bool"
  for ser "show" de H h0 where
  sv_init: "sv_reachable ser show de H h0 (server_new h0)"
| sv_more: "sv_reachable ser show de H h0 sv \<Longrightarrow> sv_reachable ser show de H h0 (snd (sv_step ser show de H e sv))"

fun sv_run ::
  "serialiser \<Rightarrow> (participant_id \<Rightarrow> string) \<Rightarrow> (string \<Rightarrow> sdp_message option) \<Rightarrow> 'h hooks \<Rightarrow> sv_event list \<Rightarrow> 'h server \<Rightarrow> 'h server" where
  "sv_run ser show de H [] sv = sv"
| "sv_run ser show de H (e # es) sv = sv_run ser show de H es (snd (sv_step ser show de H e sv))"

lemma sv_run_reachable:
  "sv_reachable ser show de H h0 sv \<Longrightarrow> sv_reachable ser show de H h0 (sv_run ser show de H es sv)"
  by (induction es arbitrary: sv) (simp_all add: sv_more)

section \<open>The contract of the hooks\<close>

text \<open>
  The engine hands its state to the hooks. What it needs of them is that they keep the representation
  invariant and the limits of the rooms, with or without empty rooms (\<open>tidy\<close>); then no interleaving of
  connections breaks either.
\<close>

locale signaling_hooks =
  fixes H :: "'h hooks"
    and tidy :: bool
  assumes on_message_inv:
      "state_inv st \<Longrightarrow> hk_on_message H closed sdp raw pid tx (h, st) = (handled, out, h', st') \<Longrightarrow> state_inv st'"
    and on_message_limits:
      "state_inv st \<Longrightarrow> within_limits tidy maxm maxh st \<Longrightarrow>
        hk_on_message H closed sdp raw pid tx (h, st) = (handled, out, h', st') \<Longrightarrow> within_limits tidy maxm maxh st'"
    and on_disconnect_inv:
      "state_inv st \<Longrightarrow> hk_on_disconnect H pid affected (h, st) = (out, h', st') \<Longrightarrow> state_inv st'"
    and on_disconnect_limits:
      "state_inv st \<Longrightarrow> within_limits tidy maxm maxh st \<Longrightarrow>
        hk_on_disconnect H pid affected (h, st) = (out, h', st') \<Longrightarrow> within_limits tidy maxm maxh st'"
begin

lemma conn_step_keeps:
  assumes inv: "state_inv st" and lim: "within_limits tidy (hk_max_room_members H) (hk_max_chat_history H) st"
    and step: "conn_step ser show H closed cn (h, st) = (out, cn', h', st')"
  shows "state_inv st' \<and> within_limits tidy (hk_max_room_members H) (hk_max_chat_history H) st'"
proof (cases "cn_pc cn")
  case (Hooking sdp raw first)
  then show ?thesis
    using step inv lim on_message_inv on_message_limits
    by (auto simp: conn_step_def Let_def split: option.splits prod.splits)
next
  case (Dispatching sdp raw first)
  then show ?thesis
  proof (cases "cn_pid cn")
    case (Some pid)
    have "st' = snd (dispatch ser show closed sdp raw pid (cn_tx cn) (hk_max_chat_history H) (hk_max_room_members H) st)"
      using step Dispatching Some by (simp add: conn_step_def Let_def split: prod.splits)
    then show ?thesis
      using inv lim by (simp add: state_inv_dispatch limits_dispatch)
  qed (use step Dispatching inv lim in \<open>simp add: conn_step_def\<close>)
next
  case Disconnecting
  then show ?thesis
  proof (cases "cn_pid cn")
    case (Some pid)
    have "st' = snd (state_disconnect pid st)"
      using step Disconnecting Some by (simp add: conn_step_def Let_def split: prod.splits)
    then show ?thesis
      using inv lim by (simp add: state_inv_disconnect limits_disconnect)
  qed (use step Disconnecting inv lim in \<open>simp add: conn_step_def\<close>)
next
  case (NotifyingHooks affected)
  then show ?thesis
    using step inv lim on_disconnect_inv on_disconnect_limits
    by (auto simp: conn_step_def Let_def split: option.splits prod.splits)
next
  case (StatusUpdates rids affected)
  then show ?thesis
    using step inv lim by (auto simp: conn_step_def split: list.splits)
next
  case (Registering p rid name msg)
  then show ?thesis
    using step inv lim by (auto simp: conn_step_def Let_def state_inv_gen)
next
  case Cleanup
  then show ?thesis
    using step inv lim by (auto simp: conn_step_def split: option.splits)
next
  case (CheckingCapacity p rid name msg)
  then show ?thesis
    using step inv lim by (auto simp: conn_step_def split: prod.splits)
qed (use step inv lim in \<open>simp_all add: conn_step_def\<close>)

lemma sv_step_keeps:
  assumes "state_inv (sv_state sv)" "within_limits tidy (hk_max_room_members H) (hk_max_chat_history H) (sv_state sv)"
  shows "state_inv (sv_state (snd (sv_step ser show de H e sv))) \<and>
    within_limits tidy (hk_max_room_members H) (hk_max_chat_history H) (sv_state (snd (sv_step ser show de H e sv)))"
proof (cases e)
  case (Advance k closed)
  then show ?thesis
    using assms conn_step_keeps [OF assms] by (auto simp: put_conn_def split: prod.splits)
qed (use assms in \<open>auto simp: put_conn_def split: prod.splits\<close>)

lemma reachable_keeps:
  "sv_reachable ser show de H h0 sv \<Longrightarrow> state_inv (sv_state sv) \<and>
     within_limits tidy (hk_max_room_members H) (hk_max_chat_history H) (sv_state sv)"
proof (induction rule: sv_reachable.induct)
  case sv_init
  then show ?case
    by (simp add: server_new_def state_inv_new) (simp add: within_limits_def state_new_def)
next
  case (sv_more sv e)
  then show ?case
    using sv_step_keeps by blast
qed

lemma reachable_room:
  assumes "sv_reachable ser show de H h0 sv" "state_room (sv_state sv) rid = Some r"
  shows "room_limits tidy (hk_max_room_members H) (hk_max_chat_history H) r"
proof -
  have "state_inv (sv_state sv)" "within_limits tidy (hk_max_room_members H) (hk_max_chat_history H) (sv_state sv)"
    using reachable_keeps [OF assms(1)] by blast+
  then show ?thesis
    using assms(2) by (simp add: within_limits_iff state_room_def)
qed

end

text \<open>
  An invariant of the state the hooks keep for themselves: if each hook keeps it, so does every interleaving
  of connections.
\<close>

locale hook_invariant =
  fixes H :: "'h hooks" and Inv :: "'h \<Rightarrow> bool"
  assumes message_keeps: "Inv h \<Longrightarrow> hk_on_message H closed sdp raw pid tx (h, st) = (handled, out, h', st') \<Longrightarrow> Inv h'"
    and disconnect_keeps: "Inv h \<Longrightarrow> hk_on_disconnect H pid affected (h, st) = (out, h', st') \<Longrightarrow> Inv h'"
    and authenticate_keeps: "Inv h \<Longrightarrow> Inv (snd (hk_on_authenticate H pid rid tok h))"
    and rate_keeps: "Inv h \<Longrightarrow> Inv (snd (hk_on_rate_check H pid h))"
begin

lemma joined_keeps_hook: "Inv h \<Longrightarrow> Inv (snd (snd (joined_message H sdp msg pid cn h)))"
  using rate_keeps by (simp add: joined_message_def Let_def case_prod_unfold)

lemma first_join_keeps_hook: "Inv h \<Longrightarrow> Inv (snd (snd (first_join ser H p rid name tok msg cn h)))"
  using authenticate_keeps [of h p rid tok] by (auto simp: first_join_def split: outcome.split prod.split sum.split)

lemma recv_keeps_hook:
  assumes inv: "Inv h" and recv: "conn_recv ser de H received cn h = (out, cn', h')"
  shows "Inv h'"
proof (cases "\<exists>msg sdp. received = Some msg \<and> de msg = Some sdp")
  case False
  then show ?thesis
    using assms by (auto simp: conn_recv_def split: option.splits)
next
  case True
  then obtain msg sdp where m: "received = Some msg" "de msg = Some sdp"
    by blast
  show ?thesis
  proof (cases "cn_pid cn")
    case (Some pid)
    then show ?thesis
      using joined_keeps_hook [OF inv, of sdp msg pid cn] recv m by (simp add: conn_recv_def)
  next
    case None
    show ?thesis
    proof (cases sdp)
      case (Join p rid name tok)
      then show ?thesis
        using first_join_keeps_hook [OF inv, of ser p rid name tok msg cn] recv m None by (simp add: conn_recv_def)
    qed (use recv m None inv in \<open>simp_all add: conn_recv_def\<close>)
  qed
qed

lemma step_keeps_hook:
  assumes inv: "Inv h" and step: "conn_step ser show H closed cn (h, st) = (out, cn', h', st')"
  shows "Inv h'"
proof (cases "cn_pc cn")
  case (Hooking sdp raw first)
  then show ?thesis
    using step inv message_keeps by (auto simp: conn_step_def Let_def split: option.splits prod.splits)
next
  case (NotifyingHooks affected)
  then show ?thesis
    using step inv disconnect_keeps by (auto simp: conn_step_def Let_def split: option.splits prod.splits)
qed (use step inv in \<open>auto simp: conn_step_def Let_def split: option.splits prod.splits list.splits\<close>)

lemma sv_step_hook:
  assumes inv: "Inv (sv_hooks sv)"
  shows "Inv (sv_hooks (snd (sv_step ser show de H e sv)))"
  using inv recv_keeps_hook [OF inv] step_keeps_hook [OF inv]
  by (cases e) (auto simp: put_conn_def split: prod.splits)

lemma reachable_hook: "sv_reachable ser show de H h0 sv \<Longrightarrow> Inv h0 \<Longrightarrow> Inv (sv_hooks sv)"
  by (induction rule: sv_reachable.induct) (simp_all add: server_new_def sv_step_hook)

end

interpretation noop: signaling_hooks noop_hooks True
  by unfold_locales (simp_all add: noop_hooks_def noop_on_message_def noop_on_disconnect_def)

interpretation e2ee_noop: signaling_hooks "e2ee_noop_hooks timeout" True
  by unfold_locales (simp_all add: e2ee_noop_hooks_def noop_hooks_def noop_on_message_def noop_on_disconnect_def)

text \<open>
  C9: In every state a relay server reaches, whatever the clients send and however their connections
  interleave, each room has between one and 25 members and at most 1000 stored chat messages, and the
  reverse index covers every membership.
\<close>

theorem relay_server_invariant:
  assumes "sv_reachable ser show de noop_hooks h0 sv"
  shows "state_inv (sv_state sv) \<and>
    (\<forall>rid r. state_room (sv_state sv) rid = Some r \<longrightarrow>
       1 \<le> member_count r \<and> member_count r \<le> 25 \<and> length (rm_chat_history r) \<le> 1000)"
proof (intro conjI allI impI)
  show "state_inv (sv_state sv)"
    using noop.reachable_keeps [OF assms] by blast
  fix rid r
  assume "state_room (sv_state sv) rid = Some r"
  from noop.reachable_room [OF assms this]
  show "1 \<le> member_count r" "member_count r \<le> 25" "length (rm_chat_history r) \<le> 1000"
    by (auto simp: room_limits_def noop_hooks_def member_count_def hm_len_def Suc_le_eq)
qed

definition demo_join_events :: "sv_event list" where
  "demo_join_events = [Accept 7, Receive 0 (Some []), Advance 0 (\<lambda>_. False), Advance 0 (\<lambda>_. False),
     Advance 0 (\<lambda>_. False), Advance 0 (\<lambda>_. False)]"

definition demo_join_server :: "unit server" where
  "demo_join_server = sv_run (\<lambda>_. None) (\<lambda>_. []) (\<lambda>_. Some (Join (ParticipantId 1) ''a'' None None)) noop_hooks
     demo_join_events (server_new ())"

lemma demo_join_room:
  "state_room (sv_state demo_join_server) ''a'' =
     Some \<lparr>rm_members = [(ParticipantId 1, member_new (ParticipantId 1) 7)], rm_chat_history = []\<rparr>"
  by code_simp

lemma demo_join_reachable:
  "sv_reachable (\<lambda>_. None) (\<lambda>_. []) (\<lambda>_. Some (Join (ParticipantId 1) ''a'' None None)) noop_hooks () demo_join_server"
  unfolding demo_join_server_def by (rule sv_run_reachable [OF sv_init])

theorem relay_server_invariant_witness:
  "state_inv (sv_state demo_join_server) \<and>
   member_count \<lparr>rm_members = [(ParticipantId 1, member_new (ParticipantId 1) 7)], rm_chat_history = []\<rparr> \<le> 25"
  using relay_server_invariant [OF demo_join_reachable] demo_join_room by blast

section \<open>Before and after the first join\<close>

text \<open>
  A connection gets past its first \<open>Join\<close> only if the room identifier is valid, the display name could
  be sanitised, and \<open>on_authenticate\<close> accepted the participant, room and token of that very message; a
  rejection closes the connection with error 401. Anything else it sends before that is ignored.
\<close>

lemma first_join_gate:
  assumes "cn_pid cn = None" "cn_pc cn = Reading" "conn_recv ser de H (Some msg) cn h = (out, cn', h')"
  shows "cn_pid cn' = None \<and>
    (cn' = cn \<or>
     (\<exists>p rid name tok. de msg = Some (Join p rid name tok) \<and> \<not> invalid_room_id (hk_max_room_id_len H) rid \<and>
        (case sanitize_display_name (hk_max_display_name_len H) name of
           Panic \<Rightarrow> cn' = goto Crashed cn
         | Ret name' \<Rightarrow>
            (case hk_on_authenticate H p rid tok h of
               (Inr _, _) \<Rightarrow> cn' = goto (CheckingCapacity p rid name' msg) cn
             | (Inl reason, _) \<Rightarrow> cn' = goto Finished cn \<and> out = send_msg ser (cn_tx cn) (Error 401 reason)))))"
  using assms
  by (auto simp: conn_recv_def first_join_def goto_def
      split: option.splits sdp_message.splits if_splits outcome.splits sum.splits prod.splits)

theorem first_join_gate_witness:
  "\<exists>out cn' h'. conn_recv (\<lambda>_. None) (\<lambda>_. Some (Join (ParticipantId 1) ''a'' None None)) noop_hooks (Some ''m'') (conn_new 7 1) () = (out, cn', h') \<and>
     cn_pid cn' = None"
proof -
  obtain out cn' h' where r: "conn_recv (\<lambda>_. None) (\<lambda>_. Some (Join (ParticipantId 1) ''a'' None None)) noop_hooks (Some ''m'')
      (conn_new 7 1) () = (out, cn', h')"
    by (metis prod_cases3)
  then show ?thesis
    using first_join_gate [OF _ _ r] by (auto simp: conn_new_def)
qed

definition conn_inv :: "connection \<Rightarrow> bool" where
  "conn_inv cn = (case cn_pid cn of
     None \<Rightarrow> (case cn_pc cn of Reading \<Rightarrow> True | CheckingCapacity _ _ _ _ \<Rightarrow> True | Cleanup \<Rightarrow> True | Finished \<Rightarrow> True | Crashed \<Rightarrow> True | _ \<Rightarrow> False)
   | Some pid \<Rightarrow> (case cn_pc cn of CheckingCapacity _ _ _ _ \<Rightarrow> False | Registering p _ _ _ \<Rightarrow> p = pid | _ \<Rightarrow> True))"

lemma conn_inv_new: "conn_inv (conn_new tx g)"
  by (simp add: conn_inv_def conn_new_def)

lemma conn_inv_recv:
  "conn_inv cn \<Longrightarrow> cn_pc cn = Reading \<Longrightarrow> conn_recv ser de H received cn h = (out, cn', h') \<Longrightarrow> conn_inv cn'"
  by (auto simp: conn_inv_def conn_recv_def first_join_def joined_message_def goto_def Let_def
      split: option.splits sdp_message.splits if_splits outcome.splits sum.splits prod.splits)

lemma conn_inv_timeout: "conn_inv cn \<Longrightarrow> conn_timeout ser cn = (out, cn') \<Longrightarrow> conn_inv cn'"
  by (auto simp: conn_inv_def conn_timeout_def goto_def split: option.splits)

lemma conn_inv_step:
  assumes "conn_inv cn" "conn_step ser show H closed cn hs = (out, cn', hs')"
  shows "conn_inv cn'"
  using assms
  by (cases "cn_pc cn")
    (auto simp: conn_inv_def conn_step_def check_capacity_def after_dispatch_def goto_def Let_def
      split: option.splits if_splits list.splits prod.splits)

lemma reachable_conn_inv:
  "sv_reachable ser show de H h0 sv \<Longrightarrow> list_all conn_inv (sv_conns sv)"
proof (induction rule: sv_reachable.induct)
  case (sv_more sv e)
  then have all: "k < length (sv_conns sv) \<Longrightarrow> conn_inv (sv_conns sv ! k)" for k
    by (simp add: list_all_length)
  have upd: "conn_inv cn \<Longrightarrow> list_all conn_inv ((sv_conns sv)[k := cn])" for k cn
    using sv_more.IH by (auto simp: list_all_iff dest: set_update_subset_insert [THEN subsetD])
  show ?case
    using sv_more.IH
    by (cases e) (auto simp: put_conn_def conn_inv_new split: prod.splits
        intro!: upd intro: conn_inv_recv [OF all] conn_inv_timeout [OF all] conn_inv_step [OF all])
qed (simp add: server_new_def)

lemma unjoined_step:
  assumes "conn_inv cn" "cn_pid cn = None" "conn_step ser show H closed cn hs = (out, cn', hs')"
  shows "hs' = hs"
  using assms by (cases "cn_pc cn") (auto simp: conn_inv_def conn_step_def split: prod.splits)

text \<open>
  In every reachable server, a connection that has not passed its first join cannot change the
  signaling state: neither by what it sends nor by any later step it takes.
\<close>

lemma unjoined_connection_harmless:
  assumes "sv_reachable ser show de H h0 sv" "k < length (sv_conns sv)" "cn_pid (sv_conns sv ! k) = None"
  shows "sv_state (snd (sv_step ser show de H (Receive k received) sv)) = sv_state sv \<and>
    sv_state (snd (sv_step ser show de H (Advance k closed) sv)) = sv_state sv"
proof -
  have "conn_inv (sv_conns sv ! k)"
    using reachable_conn_inv [OF assms(1)] assms(2) by (simp add: list_all_length)
  then show ?thesis
    using assms(3) unjoined_step [of "sv_conns sv ! k" ser "show" H closed] by (auto simp: put_conn_def split: prod.splits)
qed

theorem unjoined_connection_harmless_witness:
  "sv_state (snd (sv_step (\<lambda>_. None) (\<lambda>_. []) (\<lambda>_. None) noop_hooks (Receive 0 None)
     (snd (sv_step (\<lambda>_. None) (\<lambda>_. []) (\<lambda>_. None) noop_hooks (Accept 7) (server_new ()))))) = state_new"
  using unjoined_connection_harmless [OF sv_more [OF sv_init], of 0 "\<lambda>_. None" "\<lambda>_. []" "\<lambda>_. None" noop_hooks "Accept 7" "()" None]
  by (simp add: server_new_def conn_new_def)

section \<open>Sanitised names\<close>

definition starts_char :: "string \<Rightarrow> bool" where
  "starts_char s = (s = [] \<or> \<not> is_cont (hd s))"

definition one_char :: "string \<Rightarrow> bool" where
  "one_char c = (c \<noteq> [] \<and> \<not> is_cont (hd c) \<and> list_all is_cont (tl c))"

lemma concat_utf8_chars: "concat (utf8_chars s) = s"
  by (induction s rule: utf8_chars.induct) simp_all

lemma starts_char_dropWhile: "starts_char (dropWhile is_cont s)"
  using hd_dropWhile [of is_cont s] by (auto simp: starts_char_def)

lemma one_char_utf8_chars: "starts_char s \<Longrightarrow> c \<in> set (utf8_chars s) \<Longrightarrow> one_char c"
proof (induction s rule: utf8_chars.induct)
  case (2 b bs)
  then have "c = b # takeWhile is_cont bs \<or> one_char c"
    using starts_char_dropWhile by auto
  moreover have "one_char (b # takeWhile is_cont bs)"
    using 2(2) by (auto simp: one_char_def starts_char_def list_all_iff dest: set_takeWhileD)
  ultimately show ?case
    by blast
qed simp

lemma starts_char_concat: "\<forall>c \<in> set cs. one_char c \<Longrightarrow> starts_char (concat cs)"
  by (cases cs) (auto simp: starts_char_def one_char_def hd_append)

lemma takeWhile_conts:
  "list_all is_cont xs \<Longrightarrow> starts_char ys \<Longrightarrow> takeWhile is_cont (xs @ ys) = xs \<and> dropWhile is_cont (xs @ ys) = ys"
proof (induction xs)
  case Nil
  then show ?case
    by (cases ys) (auto simp: starts_char_def)
qed simp

lemma utf8_chars_concat: "\<forall>c \<in> set cs. one_char c \<Longrightarrow> utf8_chars (concat cs) = cs"
proof (induction cs)
  case (Cons c cs)
  then obtain b bs where c: "c = b # bs" "list_all is_cont bs"
    by (cases c) (auto simp: one_char_def)
  then show ?case
    using Cons takeWhile_conts [OF c(2) starts_char_concat [of cs]] by simp
qed simp

lemma clean_name_chars:
  "starts_char s \<Longrightarrow> utf8_chars (clean_name s) = filter (\<lambda>c. \<not> is_control_char c) (utf8_chars s)"
  unfolding clean_name_def by (rule utf8_chars_concat) (auto dest: one_char_utf8_chars)

lemma boundary_prefix_chars:
  assumes "starts_char s" "is_char_boundary s i" "i \<le> length s"
  shows "\<exists>cs. utf8_chars s = utf8_chars (take i s) @ cs"
proof -
  have "starts_char (drop i s)"
    using assms by (cases "i = length s") (auto simp: is_char_boundary_def starts_char_def hd_drop_conv_nth hd_conv_nth)
  moreover have "starts_char (take i s)"
    using assms(1) by (cases i; cases s) (auto simp: starts_char_def)
  ultimately have "\<forall>c \<in> set (utf8_chars (take i s) @ utf8_chars (drop i s)). one_char c"
    by (auto dest: one_char_utf8_chars)
  from utf8_chars_concat [OF this] have "utf8_chars s = utf8_chars (take i s) @ utf8_chars (drop i s)"
    by (simp add: concat_utf8_chars)
  then show ?thesis
    by blast
qed

text \<open>
  A sanitised display name has at most \<open>max_display_name_len\<close> bytes and no control character, and it
  is a prefix of the name without its control characters. The task panics instead, exactly when the
  cleaned name is too long and the cut falls inside a multi-byte character.
\<close>

lemma sanitize_name_spec:
  assumes "starts_char name"
  shows "case sanitize_name n name of
      Ret s \<Rightarrow> length s \<le> n \<and> (\<forall>c \<in> set (utf8_chars s). \<not> is_control_char c) \<and> s = take n (clean_name name)
    | Panic \<Rightarrow> 0 < n \<and> n < length (clean_name name) \<and> is_cont (clean_name name ! n)"
proof (cases "length (clean_name name) \<le> n")
  case True
  then show ?thesis
    using clean_name_chars [OF assms] by (simp add: sanitize_name_def Let_def)
next
  case False
  let ?s = "clean_name name"
  have start: "starts_char ?s"
    unfolding clean_name_def by (rule starts_char_concat) (auto dest: one_char_utf8_chars [OF assms])
  show ?thesis
  proof (cases "is_char_boundary ?s n")
    case True
    then obtain cs where "utf8_chars ?s = utf8_chars (take n ?s) @ cs"
      using boundary_prefix_chars [OF start True] False by auto
    then have "c \<in> set (utf8_chars (take n ?s)) \<Longrightarrow> c \<in> set (utf8_chars ?s)" for c
      by simp
    then show ?thesis
      using True False clean_name_chars [OF assms] by (auto simp: sanitize_name_def str_prefix_def Let_def)
  next
    case no: False
    then show ?thesis
      using False by (auto simp: sanitize_name_def str_prefix_def Let_def is_char_boundary_def)
  qed
qed

theorem sanitize_name_spec_witness:
  "sanitize_name 1 [CHR 0xC3, CHR 0xA9] = Panic \<and> is_cont (clean_name [CHR 0xC3, CHR 0xA9] ! 1)"
proof -
  have p: "sanitize_name 1 [CHR 0xC3, CHR 0xA9] = Panic"
    by code_simp
  have "starts_char [CHR 0xC3, CHR 0xA9]"
    by code_simp
  from sanitize_name_spec [OF this, of 1] p show ?thesis
    by simp
qed

section \<open>Reconnection\<close>

definition cleanup_alone ::
  "serialiser \<Rightarrow> (participant_id \<Rightarrow> string) \<Rightarrow> 'h hooks \<Rightarrow> (chan \<Rightarrow> bool) \<Rightarrow> connection \<Rightarrow> 'h \<times> signaling_state \<Rightarrow>
    connection \<times> 'h \<times> signaling_state" where
  "cleanup_alone ser show H closed cn hs =
    (let (_, cn1, hs1) = conn_step ser show H closed (goto Cleanup cn) hs in
     snd (conn_step ser show H closed cn1 hs1))"


lemma connection_gen_set: "connection_gen i (set_connection_gen j g st) = (if i = j then Some g else connection_gen i st)"
  by (simp add: connection_gen_def set_connection_gen_def)

lemma conn_new_simps [simp]: "cn_gen (conn_new tx g) = g" "cn_tx (conn_new tx g) = tx" "cn_pid (conn_new tx g) = None"
  by (simp_all add: conn_new_def)


text \<open>
  The check of the generation and the removal take the lock separately. If the participant reconnects in
  between, the old connection removes the membership and the generation of the new one: in the run below
  the second connection of participant 1 is open and joined last, yet the state has no room at all.
\<close>

definition race_events :: "sv_event list" where
  "race_events = demo_join_events @ [Receive 0 None, Advance 0 (\<lambda>_. False)] @
     [Accept 8, Receive 1 (Some []), Advance 1 (\<lambda>_. False), Advance 1 (\<lambda>_. False), Advance 1 (\<lambda>_. False),
      Advance 1 (\<lambda>_. False), Advance 0 (\<lambda>_. False)]"

lemma stale_disconnect_race:
  "let sv = sv_run (\<lambda>_. None) (\<lambda>_. []) (\<lambda>_. Some (Join (ParticipantId 1) ''a'' None None)) noop_hooks race_events (server_new ()) in
   cn_pc (sv_conns sv ! 1) = Reading \<and> cn_pid (sv_conns sv ! 1) = Some (ParticipantId 1) \<and> cn_gen (sv_conns sv ! 1) = 2 \<and>
   st_rooms (sv_state sv) = [] \<and> connection_gen (ParticipantId 1) (sv_state sv) = None"
  by code_simp

section \<open>The end-to-end encryption deadline\<close>



end
