(* ===== verification/Str0m_Types.thy ===== *)
theory Str0m_Types
  imports Core_Types
begin

text \<open>
  The crate \<open>str0m\<close> is not under the repository. This theory names the data its documentation describes and the
  sources read: media identifiers and kinds, the header of a received packet, events and outputs of a session.
  What a session answers is an argument of the definitions that ask it.

  An \<open>Instant\<close> is a number of nanoseconds; a socket address is a number.
\<close>

type_synonym mid = string
type_synonym sockaddr = nat
type_synonym time = nat

datatype media_kind = Audio | Video

record ext_vals =
  ev_audio_level :: "int option"
  ev_other :: nat

datatype ice_state = IceNew | IceChecking | IceConnected | IceCompleted | IceDisconnected

record rtp_in =
  ri_version :: u8
  ri_has_padding :: bool
  ri_has_extension :: bool
  ri_pt :: u8
  ri_sequence_number :: u16
  ri_ssrc :: u32
  ri_seq_no :: nat
  ri_timestamp :: u32
  ri_marker :: bool
  ri_payload :: "u8 list"
  ri_ext :: ext_vals

datatype rtc_event =
    Connected
  | MediaAdded mid media_kind
  | RtpPacketEvent rtp_in
  | EgressBitrateEstimate nat
  | KeyframeRequestEvent
  | IceConnectionStateChange ice_state
  | RawPacket
  | OtherEvent

datatype rtc_output = Transmit "u8 list" sockaddr | EventOut rtc_event | TimeoutAt time | PollError

end
