(* ===== verification/Sfu_Sdp.thy ===== *)
theory Sfu_Sdp
  imports Signaling_Connection Str0m_Types
begin

text \<open>
  \<open>seameet-sfu/src/media.rs\<close>, the SDP helpers: media identifiers and payload types of an answer, and the
  direction patch applied to every offer. The string functions of the Rust standard library they use
  (\<open>lines\<close>, \<open>trim\<close>, \<open>split_whitespace\<close>, \<open>strip_prefix\<close>, \<open>parse::<u8>\<close>) are modelled on UTF-8 bytes.

  \<open>Mid\<close> belongs to the crate \<open>str0m\<close>: a mid is an opaque value, here a string, and its conversion from a
  string is the argument \<open>mid_of\<close>.
\<close>

section \<open>Strings\<close>

fun line_break :: "string \<Rightarrow> string list" where
  \<comment> \<open>\<open>split_inclusive('\n')\<close>\<close>
  "line_break [] = []"
| "line_break (c # cs) =
     (if c = CHR 0x0A then [c] # line_break cs
      else case line_break cs of [] \<Rightarrow> [[c]] | l # ls \<Rightarrow> (c # l) # ls)"

definition strip_line_end :: "string \<Rightarrow> string" where
  \<comment> \<open>drop a final \<open>\n\<close>, and a \<open>\r\<close> before it\<close>
  "strip_line_end l =
    (if l \<noteq> [] \<and> List.last l = CHR 0x0A
     then let l' = butlast l in if l' \<noteq> [] \<and> List.last l' = CHR 0x0D then butlast l' else l'
     else l)"

definition str_lines :: "string \<Rightarrow> string list" where
  "str_lines s = map strip_line_end (line_break s)"

definition is_whitespace_char :: "string \<Rightarrow> bool" where
  \<comment> \<open>\<open>char::is_whitespace\<close> on the bytes of one character\<close>
  "is_whitespace_char c = (case map of_char c :: nat list of
     [b] \<Rightarrow> (9 \<le> b \<and> b \<le> 13) \<or> b = 32
   | [a, b] \<Rightarrow> a = 194 \<and> (b = 133 \<or> b = 160)
   | [a, b, d] \<Rightarrow> (a = 225 \<and> b = 154 \<and> d = 128) \<or>
       (a = 226 \<and> b = 128 \<and> ((128 \<le> d \<and> d \<le> 138) \<or> d = 168 \<or> d = 169 \<or> d = 175)) \<or>
       (a = 226 \<and> b = 129 \<and> d = 159) \<or> (a = 227 \<and> b = 128 \<and> d = 128)
   | _ \<Rightarrow> False)"

definition str_trim :: "string \<Rightarrow> string" where
  "str_trim s = concat (rev (dropWhile is_whitespace_char (rev (dropWhile is_whitespace_char (utf8_chars s)))))"

fun split_words :: "string list \<Rightarrow> string \<Rightarrow> string list" where
  "split_words [] w = (if w = [] then [] else [w])"
| "split_words (c # cs) w =
     (if is_whitespace_char c then (if w = [] then split_words cs [] else w # split_words cs [])
      else split_words cs (w @ c))"

definition split_whitespace :: "string \<Rightarrow> string list" where
  "split_whitespace s = split_words (utf8_chars s) []"

definition str_nth :: "nat \<Rightarrow> string list \<Rightarrow> string option" where
  \<comment> \<open>\<open>Iterator::nth\<close>\<close>
  "str_nth n ws = (if n < length ws then Some (ws ! n) else None)"

definition starts_with :: "string \<Rightarrow> string \<Rightarrow> bool" where
  "starts_with p s = (take (length p) s = p)"

definition strip_prefix :: "string \<Rightarrow> string \<Rightarrow> string option" where
  "strip_prefix p s = (if starts_with p s then Some (drop (length p) s) else None)"

fun parse_digits :: "string \<Rightarrow> nat \<Rightarrow> nat option" where
  "parse_digits [] acc = Some acc"
| "parse_digits (c # cs) acc =
    (let d = of_char c :: nat in
     if 48 \<le> d \<and> d \<le> 57 \<and> acc * 10 + (d - 48) \<le> 255 then parse_digits cs (acc * 10 + (d - 48)) else None)"

definition parse_u8 :: "string \<Rightarrow> u8 option" where
  \<comment> \<open>\<open>str::parse::<u8>().ok()\<close>: an optional plus sign, then at least one digit, at most 255\<close>
  "parse_u8 s =
    (let ds = (case s of CHR ''+'' # rest \<Rightarrow> rest | _ \<Rightarrow> s) in
     if ds = [] then None else map_option of_nat (parse_digits ds 0))"

section \<open>Parsing and patching\<close>

fun parse_mids_loop :: "(string \<Rightarrow> mid) \<Rightarrow> string list \<Rightarrow> media_kind option \<Rightarrow> (mid \<times> media_kind) list" where
  "parse_mids_loop mid_of [] current_kind = []"
| "parse_mids_loop mid_of (l # ls) current_kind =
    (let line = str_trim l in
     if starts_with ''m=audio'' line then parse_mids_loop mid_of ls (Some Audio)
     else if starts_with ''m=video'' line then parse_mids_loop mid_of ls (Some Video)
     else case current_kind of
       Some kind \<Rightarrow>
        (case strip_prefix ''a=mid:'' line of
           Some mid_str \<Rightarrow> (mid_of (str_trim mid_str), kind) # parse_mids_loop mid_of ls None
         | None \<Rightarrow> parse_mids_loop mid_of ls current_kind)
     | None \<Rightarrow> parse_mids_loop mid_of ls current_kind)"

definition parse_mids_from_sdp :: "(string \<Rightarrow> mid) \<Rightarrow> string \<Rightarrow> (mid \<times> media_kind) list" where
  "parse_mids_from_sdp mid_of sdp = parse_mids_loop mid_of (str_lines sdp) None"

definition line_pt :: "string \<Rightarrow> u8 option" where
  "line_pt line = Option.bind (str_nth 3 (split_whitespace line)) parse_u8"

fun parse_pts_loop :: "string list \<Rightarrow> u8 option \<times> u8 option \<Rightarrow> u8 option \<times> u8 option" where
  "parse_pts_loop [] pts = pts"
| "parse_pts_loop (line # ls) (audio_pt, video_pt) =
    (if starts_with ''m=audio'' line \<and> audio_pt = None then parse_pts_loop ls (line_pt line, video_pt)
     else if starts_with ''m=video'' line \<and> video_pt = None then parse_pts_loop ls (audio_pt, line_pt line)
     else parse_pts_loop ls (audio_pt, video_pt))"

definition parse_pts_from_sdp :: "string \<Rightarrow> u8 option \<times> u8 option" where
  "parse_pts_from_sdp sdp = parse_pts_loop (str_lines sdp) (None, None)"

definition section_active :: "string \<Rightarrow> bool \<Rightarrow> bool" where
  "section_active line active =
    (if starts_with ''m='' line
     then (case str_nth 1 (split_whitespace line) of Some port \<Rightarrow> port \<noteq> ''0'' | None \<Rightarrow> True)
     else active)"

fun patch_lines :: "string list \<Rightarrow> bool \<Rightarrow> string list" where
  "patch_lines [] m_section_active = []"
| "patch_lines (line # ls) m_section_active =
    (let active = section_active line m_section_active in
     (if active \<and> line = ''a=recvonly'' then ''a=sendrecv'' else line) # patch_lines ls active)"

definition patch_sdp_directions :: "string \<Rightarrow> string" where
  "patch_sdp_directions sdp = concat (map (\<lambda>l. l @ [CHR 0x0D, CHR 0x0A]) (patch_lines (str_lines sdp) True))"

section \<open>Lines\<close>

lemma line_break_no_break: "CHR 0x0A \<notin> set l \<Longrightarrow> line_break (l @ CHR 0x0A # s) = (l @ [CHR 0x0A]) # line_break s"
  by (induction l) auto

lemma line_break_inner: "l \<in> set (line_break s) \<Longrightarrow> l \<noteq> [] \<and> CHR 0x0A \<notin> set (butlast l)"
proof (induction s arbitrary: l rule: line_break.induct)
  case (2 c cs)
  then show ?case
    by (auto split: if_splits list.splits)
qed simp

lemma str_lines_no_break: "l \<in> set (str_lines s) \<Longrightarrow> CHR 0x0A \<notin> set l"
proof -
  assume "l \<in> set (str_lines s)"
  then obtain l0 where l0: "l0 \<in> set (line_break s)" "l = strip_line_end l0"
    by (auto simp: str_lines_def)
  have "CHR 0x0A \<notin> set (butlast l0)" "l0 \<noteq> []"
    using line_break_inner [OF l0(1)] by auto
  moreover have "set l0 = insert (List.last l0) (set (butlast l0))"
    using \<open>l0 \<noteq> []\<close> by (metis append_butlast_last_id list.simps(15) rotate1.simps(2) set_rotate1)
  ultimately show ?thesis
    unfolding l0(2) strip_line_end_def by (auto simp: Let_def dest: in_set_butlastD)
qed

lemma str_lines_join:
  "\<forall>l \<in> set ls. CHR 0x0A \<notin> set l \<Longrightarrow> str_lines (concat (map (\<lambda>l. l @ [CHR 0x0D, CHR 0x0A]) ls)) = ls"
proof (induction ls)
  case (Cons l ls)
  then have "line_break ((l @ [CHR 0x0D]) @ CHR 0x0A # concat (map (\<lambda>l. l @ [CHR 0x0D, CHR 0x0A]) ls)) =
      ((l @ [CHR 0x0D]) @ [CHR 0x0A]) # line_break (concat (map (\<lambda>l. l @ [CHR 0x0D, CHR 0x0A]) ls))"
    by (intro line_break_no_break) auto
  moreover have "strip_line_end (l @ [CHR 0x0D, CHR 0x0A]) = l"
    by (simp add: strip_line_end_def butlast_append)
  ultimately show ?case
    using Cons by (simp add: str_lines_def)
qed (simp add: str_lines_def)

lemma patch_lines_no_break:
  "\<forall>l \<in> set ls. CHR 0x0A \<notin> set l \<Longrightarrow> \<forall>l \<in> set (patch_lines ls a). CHR 0x0A \<notin> set l"
  by (induction ls arbitrary: a) (auto simp: Let_def)

lemma str_lines_patch: "str_lines (patch_sdp_directions sdp) = patch_lines (str_lines sdp) True"
  unfolding patch_sdp_directions_def
  by (rule str_lines_join) (use patch_lines_no_break str_lines_no_break in blast)

section \<open>Properties of the patch\<close>

lemma direction_lines:
  "section_active ''a=recvonly'' a = a" "section_active ''a=sendrecv'' a = a"
  "starts_with ''m=audio'' ''a=recvonly'' = False" "starts_with ''m=audio'' ''a=sendrecv'' = False"
  "starts_with ''m=video'' ''a=recvonly'' = False" "starts_with ''m=video'' ''a=sendrecv'' = False"
  by (simp_all add: section_active_def starts_with_def)

lemma direction_trim:
  "str_trim ''a=recvonly'' = ''a=recvonly''" "str_trim ''a=sendrecv'' = ''a=sendrecv''"
  "strip_prefix ''a=mid:'' ''a=recvonly'' = None" "strip_prefix ''a=mid:'' ''a=sendrecv'' = None"
  by code_simp+

lemma patch_lines_idem: "patch_lines (patch_lines ls a) a = patch_lines ls a"
  by (induction ls arbitrary: a) (auto simp: Let_def direction_lines)

lemma patch_lines_mids: "parse_mids_loop mid_of (patch_lines ls a) k = parse_mids_loop mid_of ls k"
  by (induction ls arbitrary: a k)
    (auto simp: Let_def direction_lines direction_trim split: option.splits)

lemma patch_lines_pts: "parse_pts_loop (patch_lines ls a) pts = parse_pts_loop ls pts"
proof (induction ls arbitrary: a pts)
  case (Cons l ls)
  then show ?case
    by (cases pts) (auto simp: Let_def direction_lines)
qed simp

text \<open>
  Patching an offer is idempotent, keeps its number of lines, and changes neither the media identifiers
  nor the payload types that are read from it.
\<close>

lemma patch_sdp_correct:
  "patch_sdp_directions (patch_sdp_directions sdp) = patch_sdp_directions sdp \<and>
   length (str_lines (patch_sdp_directions sdp)) = length (str_lines sdp) \<and>
   parse_mids_from_sdp mid_of (patch_sdp_directions sdp) = parse_mids_from_sdp mid_of sdp \<and>
   parse_pts_from_sdp (patch_sdp_directions sdp) = parse_pts_from_sdp sdp"
proof -
  have "length (patch_lines ls a) = length ls" for ls a
    by (induction ls arbitrary: a) (simp_all add: Let_def)
  then show ?thesis
    by (simp add: parse_mids_from_sdp_def parse_pts_from_sdp_def str_lines_patch patch_lines_mids patch_lines_pts)
       (simp add: patch_sdp_directions_def [of "patch_sdp_directions sdp"] str_lines_patch patch_lines_idem,
        simp add: patch_sdp_directions_def)
qed

text \<open>The state of the section scan before each line.\<close>

definition active_before :: "string list \<Rightarrow> nat \<Rightarrow> bool" where
  "active_before ls i = fold section_active (take i ls) True"

lemma patch_lines_nth:
  "i < length ls \<Longrightarrow> patch_lines ls a ! i =
    (if section_active (ls ! i) (fold section_active (take i ls) a) \<and> ls ! i = ''a=recvonly'' then ''a=sendrecv'' else ls ! i)"
proof (induction ls arbitrary: a i)
  case (Cons l ls)
  then show ?case
    by (cases i) (auto simp: Let_def)
qed simp

text \<open>
  Line by line, the patch replaces \<open>a=recvonly\<close> by \<open>a=sendrecv\<close> exactly in the media sections whose
  port is not zero (and before the first section), and leaves every other line as it is.
\<close>

lemma patch_sdp_lines:
  assumes "i < length (str_lines sdp)"
  shows "str_lines (patch_sdp_directions sdp) ! i =
    (if str_lines sdp ! i = ''a=recvonly'' \<and> active_before (str_lines sdp) i then ''a=sendrecv'' else str_lines sdp ! i)"
  using patch_lines_nth [OF assms, of True]
  by (auto simp: str_lines_patch active_before_def direction_lines)

definition demo_offer :: string where
  "demo_offer = ''m=audio 9 x'' @ [CHR 0x0D, CHR 0x0A] @ ''a=recvonly''"

lemma demo_offer_lines: "str_lines demo_offer = [''m=audio 9 x'', ''a=recvonly'']"
  by code_simp

lemma demo_offer_active: "active_before [''m=audio 9 x'', ''a=recvonly''] 1"
  by code_simp

theorem patch_sdp_lines_witness:
  "str_lines (patch_sdp_directions demo_offer) ! 1 = ''a=sendrecv''"
  using patch_sdp_lines [of 1 demo_offer] demo_offer_active by (simp add: demo_offer_lines)

end
