(* ===== verification/Sfu_Slots.thy ===== *)
theory Sfu_Slots
  imports Sfu_Sdp
begin

text \<open>
  \<open>seameet-sfu/src/media.rs\<close>, the source slots: which media identifiers of a receiver's session carry which
  remote participant, when the session has too few of them, and the forwarding of one packet.

  The crate \<open>str0m\<close> is seen through what the code calls: \<open>has_tx mid\<close> tells whether \<open>stream_tx_by_mid\<close> finds a
  stream, and a call of \<open>write_rtp\<close> is a value \<open>WriteRtp\<close>. The \<open>u64\<close> counters are natural numbers. An
  \<open>Instant\<close> is a number of nanoseconds.
\<close>

section \<open>Data\<close>

record forwarded_media =
  fm_pt :: u8
  fm_seq_no :: nat
  fm_time :: u32
  fm_marker :: bool
  fm_payload :: "u8 list"
  fm_is_audio :: bool
  fm_is_screen :: bool
  fm_source_pid :: participant_id
  fm_wallclock :: nat
  fm_ext_vals :: ext_vals

record source_slot =
  sl_audio_mid :: mid
  sl_video_mid :: mid
  sl_screen_mid :: "mid option"
  sl_audio_tx_seq :: nat
  sl_video_tx_seq :: nat
  sl_screen_tx_seq :: nat
  sl_audio_pt :: u8
  sl_video_pt :: u8

type_synonym slots = "(participant_id, source_slot) hmap"
type_synonym mids = "(mid \<times> media_kind) list"

text \<open>The arguments \<open>own_audio_mid .. own_video_pt\<close> that the functions below pass around together.\<close>

record own_media =
  ow_audio :: "mid option"
  ow_video :: "mid option"
  ow_screen :: "mid option"
  ow_audio_pt :: u8
  ow_video_pt :: u8

record rtp_write =
  rw_mid :: mid
  rw_pt :: u8
  rw_seq :: nat
  rw_media :: forwarded_media
  rw_nackable :: bool

section \<open>Operations\<close>

definition slot_mids :: "source_slot \<Rightarrow> mid list" where
  "slot_mids s = [sl_audio_mid s, sl_video_mid s] @ (case sl_screen_mid s of Some sm \<Rightarrow> [sm] | None \<Rightarrow> [])"

definition used_mids :: "slots \<Rightarrow> mid list" where
  "used_mids slots = concat (map slot_mids (hm_values slots))"

definition needs_renegotiation :: "mids \<Rightarrow> nat \<Rightarrow> slots \<Rightarrow> nat \<Rightarrow> u32 option" where
  "needs_renegotiation all_mids own_count slots remote_peer_count =
    (if remote_peer_count = 0 then None
     else
       let used = used_mids slots;
           free_audio = length (filter (\<lambda>(mid, kind). kind = Audio \<and> mid \<notin> set used) all_mids) - min own_count 1;
           free_video = length (filter (\<lambda>(mid, kind). kind = Video \<and> mid \<notin> set used) all_mids) - (own_count - 1);
           slots_available = min free_audio free_video;
           peers_without_slot = remote_peer_count - hm_len slots in
       if peers_without_slot > slots_available then Some (of_nat (peers_without_slot - slots_available)) else None)"

definition free_audio_mid :: "mids \<Rightarrow> own_media \<Rightarrow> slots \<Rightarrow> mid option" where
  "free_audio_mid all_mids own slots =
     map_option fst (List.find (\<lambda>(mid, kind). kind = Audio \<and> Some mid \<noteq> ow_audio own \<and> mid \<notin> set (used_mids slots)) all_mids)"

definition free_video_mid :: "mids \<Rightarrow> own_media \<Rightarrow> slots \<Rightarrow> mid option" where
  "free_video_mid all_mids own slots =
     map_option fst (List.find (\<lambda>(mid, kind). kind = Video \<and> Some mid \<noteq> ow_video own \<and> Some mid \<noteq> ow_screen own \<and>
       mid \<notin> set (used_mids slots)) all_mids)"

definition get_or_create_slot ::
  "participant_id \<Rightarrow> slots \<Rightarrow> mids \<Rightarrow> own_media \<Rightarrow> (mid, nat) hmap \<Rightarrow> bool \<Rightarrow> source_slot option \<times> slots" where
  "get_or_create_slot source_pid slots all_mids own mid_seq_watermark media_is_screen =
    (case hm_get slots source_pid of
       Some slot \<Rightarrow>
         let slots' = (if media_is_screen \<and> sl_screen_mid slot = None
                       then case free_video_mid all_mids own slots of
                              Some s_mid \<Rightarrow> hm_modify source_pid (\<lambda>s. s\<lparr>sl_screen_mid := Some s_mid\<rparr>) slots
                            | None \<Rightarrow> slots
                       else slots) in
         (hm_get slots' source_pid, slots')
     | None \<Rightarrow>
        (case (free_audio_mid all_mids own slots, free_video_mid all_mids own slots) of
           (Some a_mid, Some v_mid) \<Rightarrow>
             let watermark = (\<lambda>m. case hm_get mid_seq_watermark m of Some n \<Rightarrow> n | None \<Rightarrow> 0);
                 slot = \<lparr>sl_audio_mid = a_mid, sl_video_mid = v_mid, sl_screen_mid = None,
                         sl_audio_tx_seq = watermark a_mid, sl_video_tx_seq = watermark v_mid, sl_screen_tx_seq = 0,
                         sl_audio_pt = ow_audio_pt own, sl_video_pt = ow_video_pt own\<rparr> in
             (Some slot, hm_insert source_pid slot slots)
         | _ \<Rightarrow> (None, slots)))"

definition bump_audio :: "source_slot \<Rightarrow> source_slot" where
  "bump_audio s = s\<lparr>sl_audio_tx_seq := sl_audio_tx_seq s + 1\<rparr>"

definition bump_video :: "source_slot \<Rightarrow> source_slot" where
  "bump_video s = s\<lparr>sl_video_tx_seq := sl_video_tx_seq s + 1\<rparr>"

definition bump_screen :: "source_slot \<Rightarrow> source_slot" where
  "bump_screen s = s\<lparr>sl_screen_tx_seq := sl_screen_tx_seq s + 1\<rparr>"

text \<open>The stream a packet goes to, its sequence number and payload type, and the counter that advances.\<close>

definition pick_stream ::
  "forwarded_media \<Rightarrow> source_slot \<Rightarrow> (mid \<times> nat \<times> u8 \<times> (source_slot \<Rightarrow> source_slot)) option" where
  "pick_stream media slot =
    (if fm_is_audio media then Some (sl_audio_mid slot, sl_audio_tx_seq slot, sl_audio_pt slot, bump_audio)
     else if fm_is_screen media
     then (case sl_screen_mid slot of
             Some screen_mid \<Rightarrow> Some (screen_mid, sl_screen_tx_seq slot, sl_video_pt slot, bump_screen)
           | None \<Rightarrow> None)
     else Some (sl_video_mid slot, sl_video_tx_seq slot, sl_video_pt slot, bump_video))"

definition write_forwarded_rtp ::
  "(mid \<Rightarrow> bool) \<Rightarrow> forwarded_media \<Rightarrow> slots \<Rightarrow> nat \<Rightarrow> mids \<Rightarrow> own_media \<Rightarrow> (mid, nat) hmap \<Rightarrow>
    rtp_write list \<times> slots \<times> nat" where
  "write_forwarded_rtp has_tx media slots0 rtp_tx_count all_mids own mid_seq_watermark =
    (case get_or_create_slot (fm_source_pid media) slots0 all_mids own mid_seq_watermark (fm_is_screen media) of
       (None, slots) \<Rightarrow> ([], slots, rtp_tx_count)
     | (Some slot, slots) \<Rightarrow>
        (case pick_stream media slot of
           None \<Rightarrow> ([], slots, rtp_tx_count)
         | Some (mid, current_seq, pt, bump) \<Rightarrow>
             let slots' = hm_modify (fm_source_pid media) bump slots in
             if \<not> has_tx mid then ([], slots', rtp_tx_count)
             else ([\<lparr>rw_mid = mid, rw_pt = pt, rw_seq = current_seq, rw_media = media,
                     rw_nackable = (\<not> fm_is_audio media)\<rparr>], slots', rtp_tx_count + 1)))"

section \<open>Slots never share a media line\<close>

definition slot_ok :: "mids \<Rightarrow> own_media \<Rightarrow> source_slot \<Rightarrow> bool" where
  "slot_ok all_mids own s \<longleftrightarrow> distinct (slot_mids s) \<and>
     (sl_audio_mid s, Audio) \<in> set all_mids \<and> ow_audio own \<noteq> Some (sl_audio_mid s) \<and>
     (\<forall>m \<in> set (tl (slot_mids s)). (m, Video) \<in> set all_mids \<and> ow_video own \<noteq> Some m \<and> ow_screen own \<noteq> Some m) \<and>
     sl_audio_pt s = ow_audio_pt own \<and> sl_video_pt s = ow_video_pt own"

definition slots_inv :: "mids \<Rightarrow> own_media \<Rightarrow> slots \<Rightarrow> bool" where
  "slots_inv all_mids own slots \<longleftrightarrow> hm_wf slots \<and> distinct (map fst all_mids) \<and>
     (\<forall>i s. hm_get slots i = Some s \<longrightarrow> slot_ok all_mids own s) \<and>
     (\<forall>i j s t. hm_get slots i = Some s \<longrightarrow> hm_get slots j = Some t \<longrightarrow> i \<noteq> j \<longrightarrow> set (slot_mids s) \<inter> set (slot_mids t) = {})"

lemma slots_inv_empty: "distinct (map fst all_mids) \<Longrightarrow> slots_inv all_mids own []"
  by (simp add: slots_inv_def)

lemma in_used_mids: "hm_wf slots \<Longrightarrow> m \<in> set (used_mids slots) \<longleftrightarrow> (\<exists>i s. hm_get slots i = Some s \<and> m \<in> set (slot_mids s))"
  by (force simp: used_mids_def hm_values_def hm_in_set_get [symmetric])

lemma free_audio_midD:
  assumes "free_audio_mid all_mids own slots = Some m"
  shows "(m, Audio) \<in> set all_mids" "ow_audio own \<noteq> Some m" "m \<notin> set (used_mids slots)"
  using assms by (auto simp: free_audio_mid_def find_Some_iff in_set_conv_nth)

lemma free_video_midD:
  assumes "free_video_mid all_mids own slots = Some m"
  shows "(m, Video) \<in> set all_mids" "ow_video own \<noteq> Some m" "ow_screen own \<noteq> Some m" "m \<notin> set (used_mids slots)"
  using assms by (auto simp: free_video_mid_def find_Some_iff in_set_conv_nth)

lemma mid_kind_unique: "distinct (map fst all_mids) \<Longrightarrow> (m, k) \<in> set all_mids \<Longrightarrow> (m, k') \<in> set all_mids \<Longrightarrow> k = k'"
  by (metis eq_key_imp_eq_value)

lemma slots_invD:
  assumes "slots_inv all_mids own slots"
  shows slots_inv_wf: "hm_wf slots" and slots_inv_mids: "distinct (map fst all_mids)"
    and slots_inv_ok: "hm_get slots i = Some s \<Longrightarrow> slot_ok all_mids own s"
    and slots_inv_disj: "hm_get slots i = Some s \<Longrightarrow> hm_get slots j = Some t \<Longrightarrow> i \<noteq> j \<Longrightarrow>
      set (slot_mids s) \<inter> set (slot_mids t) = {}"
  using assms by (simp_all add: slots_inv_def)

lemma slots_invI:
  assumes "hm_wf slots" "distinct (map fst all_mids)"
    and "\<And>i s. hm_get slots i = Some s \<Longrightarrow> slot_ok all_mids own s"
    and "\<And>i j s t m. hm_get slots i = Some s \<Longrightarrow> hm_get slots j = Some t \<Longrightarrow> i \<noteq> j \<Longrightarrow>
      m \<in> set (slot_mids s) \<Longrightarrow> m \<in> set (slot_mids t) \<Longrightarrow> False"
  shows "slots_inv all_mids own slots"
  using assms unfolding slots_inv_def by blast

lemma unused_mid:
  "slots_inv all_mids own slots \<Longrightarrow> m \<notin> set (used_mids slots) \<Longrightarrow> hm_get slots i = Some s \<Longrightarrow> m \<notin> set (slot_mids s)"
  using in_used_mids slots_inv_wf by blast

text \<open>Replacing one slot by one that satisfies its own part of the invariant and takes only unused mids.\<close>

lemma slots_inv_put:
  assumes inv: "slots_inv all_mids own slots" and ok: "slot_ok all_mids own s'"
    and new: "\<And>m. m \<in> set (slot_mids s') \<Longrightarrow>
      m \<notin> set (used_mids slots) \<or> (\<exists>s. hm_get slots p = Some s \<and> m \<in> set (slot_mids s))"
    and wf: "hm_wf slots'" and get: "hm_get slots' = (hm_get slots)(p \<mapsto> s')"
  shows "slots_inv all_mids own slots'"
proof (rule slots_invI)
  have other: "m \<notin> set (slot_mids t)" if "m \<in> set (slot_mids s')" "hm_get slots j = Some t" "j \<noteq> p" for m j t
    using new [OF that(1)] unused_mid [OF inv _ that(2)] slots_inv_disj [OF inv _ that(2)] that(3) by blast
  fix i j s t m
  assume "hm_get slots' i = Some s" "hm_get slots' j = Some t" "i \<noteq> j" "m \<in> set (slot_mids s)" "m \<in> set (slot_mids t)"
  then show False
    using other slots_inv_disj [OF inv, of i s j t] by (auto simp: get split: if_splits)
qed (use wf ok slots_invD [OF inv] in \<open>auto simp: get split: if_splits\<close>)

text \<open>A change of a slot that keeps its lines and payload types.\<close>

definition keeps_lines :: "(source_slot \<Rightarrow> source_slot) \<Rightarrow> bool" where
  "keeps_lines f \<longleftrightarrow> (\<forall>s. slot_mids (f s) = slot_mids s \<and> sl_audio_mid (f s) = sl_audio_mid s \<and>
     sl_audio_pt (f s) = sl_audio_pt s \<and> sl_video_pt (f s) = sl_video_pt s)"

lemma keeps_linesD:
  assumes "keeps_lines f"
  shows "slot_mids (f s) = slot_mids s" "sl_audio_mid (f s) = sl_audio_mid s"
    "sl_audio_pt (f s) = sl_audio_pt s" "sl_video_pt (f s) = sl_video_pt s"
  using assms by (simp_all add: keeps_lines_def)

lemma keeps_lines_bumps [simp]: "keeps_lines bump_audio" "keeps_lines bump_video" "keeps_lines bump_screen"
  by (simp_all add: keeps_lines_def bump_audio_def bump_video_def bump_screen_def slot_mids_def)

lemma slots_inv_bump:
  assumes inv: "slots_inv all_mids own slots" and keep: "keeps_lines f"
  shows "slots_inv all_mids own (hm_modify p f slots)"
proof (cases "hm_get slots p")
  case (Some s)
  have "slot_ok all_mids own (f s)"
    using slots_inv_ok [OF inv Some] by (simp add: slot_ok_def keeps_linesD [OF keep])
  moreover have "hm_get (hm_modify p f slots) = (hm_get slots)(p \<mapsto> f s)"
    using Some by (auto simp: fun_eq_iff)
  ultimately show ?thesis
    using Some keeps_linesD(1) [OF keep] slots_inv_wf [OF inv] by (intro slots_inv_put [OF inv]) auto
next
  case None
  then have "hm_modify p f slots = slots"
    by (force simp: hm_modify_def hm_get_None_iff hm_contains_def intro!: map_idI)
  then show ?thesis
    using inv by simp
qed

lemma slots_inv_get_or_create:
  assumes inv: "slots_inv all_mids own slots"
  shows "slots_inv all_mids own (snd (get_or_create_slot p slots all_mids own wm scr))"
proof (cases "hm_get slots p")
  case None
  show ?thesis
  proof (cases "free_audio_mid all_mids own slots = None \<or> free_video_mid all_mids own slots = None")
    case False
    then obtain a v where av: "free_audio_mid all_mids own slots = Some a" "free_video_mid all_mids own slots = Some v"
      by auto
    have "a \<noteq> v"
      using mid_kind_unique [OF slots_inv_mids [OF inv]] free_audio_midD(1) [OF av(1)] free_video_midD(1) [OF av(2)] by blast
    then show ?thesis
      using None av free_audio_midD [OF av(1)] free_video_midD [OF av(2)] slots_inv_wf [OF inv]
      by (intro slots_inv_put [OF inv]) (auto simp: get_or_create_slot_def slot_ok_def slot_mids_def Let_def)
  qed (use None inv in \<open>auto simp: get_or_create_slot_def split: option.splits\<close>)
next
  case (Some slot)
  show ?thesis
  proof (cases "scr \<and> sl_screen_mid slot = None \<and> free_video_mid all_mids own slots \<noteq> None")
    case True
    then obtain v where v: "free_video_mid all_mids own slots = Some v"
      by auto
    have ok: "slot_ok all_mids own slot"
      using slots_inv_ok [OF inv Some] .
    have "slot_ok all_mids own (slot\<lparr>sl_screen_mid := Some v\<rparr>)"
      using ok True free_video_midD [OF v] unused_mid [OF inv free_video_midD(4) [OF v] Some]
      by (auto simp: slot_ok_def slot_mids_def)
    moreover have "hm_get (hm_modify p (\<lambda>s. s\<lparr>sl_screen_mid := Some v\<rparr>) slots) = (hm_get slots)(p \<mapsto> slot\<lparr>sl_screen_mid := Some v\<rparr>)"
      using Some by (auto simp: fun_eq_iff)
    ultimately have "slots_inv all_mids own (hm_modify p (\<lambda>s. s\<lparr>sl_screen_mid := Some v\<rparr>) slots)"
      using Some True free_video_midD [OF v] slots_inv_wf [OF inv]
      by (intro slots_inv_put [OF inv]) (auto simp: slot_mids_def)
    then show ?thesis
      using Some True v by (simp add: get_or_create_slot_def Let_def)
  qed (use Some inv in \<open>auto simp: get_or_create_slot_def Let_def split: option.splits\<close>)
qed

lemma get_or_create_fst: "fst (get_or_create_slot p slots all_mids own wm scr) = hm_get (snd (get_or_create_slot p slots all_mids own wm scr)) p"
  by (auto simp: get_or_create_slot_def Let_def split: option.splits)

lemma pick_stream_bump:
  "pick_stream media slot = Some (m, n, pt, bump) \<Longrightarrow> keeps_lines bump"
  by (auto simp: pick_stream_def split: if_splits option.splits)

lemma slots_inv_write:
  assumes "slots_inv all_mids own slots"
  shows "slots_inv all_mids own (fst (snd (write_forwarded_rtp has_tx media slots n all_mids own wm)))"
  using slots_inv_get_or_create [OF assms, of "fm_source_pid media" wm "fm_is_screen media"]
  by (auto simp: write_forwarded_rtp_def Let_def intro!: slots_inv_bump dest: pick_stream_bump
      split: prod.splits option.splits)

lemma write_uses_slot:
  assumes "write_forwarded_rtp has_tx media slots n all_mids own wm = (writes, slots', n')" "w \<in> set writes"
  shows "\<exists>s. hm_get slots' (fm_source_pid media) = Some s \<and> rw_media w = media \<and>
    (if fm_is_audio media then rw_mid w = sl_audio_mid s else rw_mid w \<in> set (tl (slot_mids s)))"
  using assms get_or_create_fst [of "fm_source_pid media" slots all_mids own wm "fm_is_screen media"]
  by (auto simp: write_forwarded_rtp_def Let_def pick_stream_def bump_audio_def bump_video_def bump_screen_def slot_mids_def
      split: prod.splits option.splits if_splits)

text \<open>
  Forwarding a packet keeps the slots separate: every slot has its own audio, video and screen lines of
  the session, of the right kind, no two slots share one, and none is a line the receiver itself sends on.
  A written packet goes to a line of the slot of its source, of the packet's kind.
\<close>

lemma write_keeps_slots_separate:
  assumes "slots_inv all_mids own slots"
    and "write_forwarded_rtp has_tx media slots n all_mids own wm = (writes, slots', n')"
  shows "slots_inv all_mids own slots' \<and>
    (\<forall>w \<in> set writes. \<exists>s. hm_get slots' (fm_source_pid media) = Some s \<and> rw_mid w \<in> set (slot_mids s) \<and>
       (rw_mid w, if fm_is_audio media then Audio else Video) \<in> set all_mids \<and>
       (if fm_is_audio media then ow_audio own \<noteq> Some (rw_mid w)
        else ow_video own \<noteq> Some (rw_mid w) \<and> ow_screen own \<noteq> Some (rw_mid w)))"
proof (intro conjI ballI)
  show inv: "slots_inv all_mids own slots'"
    using slots_inv_write [OF assms(1), of has_tx media n wm] assms(2) by simp
  fix w
  assume "w \<in> set writes"
  from write_uses_slot [OF assms(2) this] obtain s where s: "hm_get slots' (fm_source_pid media) = Some s"
      "if fm_is_audio media then rw_mid w = sl_audio_mid s else rw_mid w \<in> set (tl (slot_mids s))"
    by blast
  moreover have "slot_ok all_mids own s"
    using slots_inv_ok [OF inv s(1)] .
  moreover have "sl_audio_mid s \<in> set (slot_mids s)" "set (tl (slot_mids s)) \<subseteq> set (slot_mids s)"
    by (auto simp: slot_mids_def)
  ultimately show "\<exists>s. hm_get slots' (fm_source_pid media) = Some s \<and> rw_mid w \<in> set (slot_mids s) \<and>
       (rw_mid w, if fm_is_audio media then Audio else Video) \<in> set all_mids \<and>
       (if fm_is_audio media then ow_audio own \<noteq> Some (rw_mid w)
        else ow_video own \<noteq> Some (rw_mid w) \<and> ow_screen own \<noteq> Some (rw_mid w))"
    by (intro exI [of _ s]) (auto simp: slot_ok_def split: if_splits)
qed

definition demo_mids :: mids where
  "demo_mids = [(''0'', Audio), (''1'', Video), (''2'', Audio), (''3'', Video), (''4'', Video)]"

definition demo_own :: own_media where
  "demo_own = \<lparr>ow_audio = Some ''0'', ow_video = Some ''1'', ow_screen = None, ow_audio_pt = 111, ow_video_pt = 96\<rparr>"

definition demo_packet :: "bool \<Rightarrow> bool \<Rightarrow> forwarded_media" where
  "demo_packet audio screen = \<lparr>fm_pt = 111, fm_seq_no = 9, fm_time = 0, fm_marker = False, fm_payload = [1],
     fm_is_audio = audio, fm_is_screen = screen, fm_source_pid = ParticipantId 5, fm_wallclock = 0,
     fm_ext_vals = \<lparr>ev_audio_level = None, ev_other = 0\<rparr>\<rparr>"

lemma demo_mids_distinct: "distinct (map fst demo_mids)"
  by code_simp

theorem write_keeps_slots_separate_witness:
  "case write_forwarded_rtp (\<lambda>_. True) (demo_packet True False) [] 0 demo_mids demo_own [] of
     (writes, slots', n') \<Rightarrow> map rw_mid writes = [''2''] \<and> slots_inv demo_mids demo_own slots'"
proof -
  have "map rw_mid (fst (write_forwarded_rtp (\<lambda>_. True) (demo_packet True False) [] 0 demo_mids demo_own [])) = [''2'']"
    by code_simp
  then show ?thesis
    using write_keeps_slots_separate [OF slots_inv_empty [OF demo_mids_distinct], of "\<lambda>_. True" "demo_packet True False" 0 demo_own "[]"]
    by (auto split: prod.splits)
qed

section \<open>Enough media lines\<close>

definition own_count :: "own_media \<Rightarrow> nat" where
  \<comment> \<open>\<open>let own_count = 2 + if own_screen_mid.is_some() { 1 } else { 0 };\<close>\<close>
  "own_count own = 2 + (if ow_screen own \<noteq> None then 1 else 0)"

text \<open>The receiver's own lines are part of the session, of the right kind, and carry nobody else.\<close>

definition own_ok :: "mids \<Rightarrow> own_media \<Rightarrow> slots \<Rightarrow> bool" where
  "own_ok all_mids own slots \<longleftrightarrow>
     (case ow_audio own of Some a \<Rightarrow> (a, Audio) \<in> set all_mids \<and> a \<notin> set (used_mids slots) | None \<Rightarrow> False) \<and>
     (case ow_video own of Some v \<Rightarrow> (v, Video) \<in> set all_mids \<and> v \<notin> set (used_mids slots) \<and> ow_screen own \<noteq> Some v | None \<Rightarrow> False) \<and>
     (case ow_screen own of Some s \<Rightarrow> (s, Video) \<in> set all_mids \<and> s \<notin> set (used_mids slots) | None \<Rightarrow> True)"

definition spare_audio :: "mids \<Rightarrow> own_media \<Rightarrow> slots \<Rightarrow> mids" where
  "spare_audio all_mids own slots =
     filter (\<lambda>(mid, kind). kind = Audio \<and> Some mid \<noteq> ow_audio own \<and> mid \<notin> set (used_mids slots)) all_mids"

definition spare_video :: "mids \<Rightarrow> own_media \<Rightarrow> slots \<Rightarrow> mids" where
  "spare_video all_mids own slots =
     filter (\<lambda>(mid, kind). kind = Video \<and> Some mid \<noteq> ow_video own \<and> Some mid \<noteq> ow_screen own \<and> mid \<notin> set (used_mids slots)) all_mids"

lemma length_filter_except:
  assumes "distinct xs" "x \<in> set xs" "P x"
  shows "length (filter P xs) = Suc (length (filter (\<lambda>y. P y \<and> y \<noteq> x) xs))"
proof -
  have "filter (\<lambda>y. P y \<and> y \<noteq> x) xs = remove1 x (filter P xs)"
    using assms(1) by (auto simp: distinct_remove1_removeAll removeAll_filter_not_eq filter_filter intro!: filter_cong)
  moreover have "length (filter P xs) > 0"
    using assms by (auto simp: filter_empty_conv)
  ultimately show ?thesis
    using assms by (simp add: length_remove1)
qed

lemma spare_audio_count:
  assumes "distinct (map fst all_mids)" "own_ok all_mids own slots"
  shows "length (filter (\<lambda>(mid, kind). kind = Audio \<and> mid \<notin> set (used_mids slots)) all_mids) =
    Suc (length (spare_audio all_mids own slots))"
proof -
  obtain a where a: "ow_audio own = Some a" "(a, Audio) \<in> set all_mids" "a \<notin> set (used_mids slots)"
    using assms(2) by (auto simp: own_ok_def split: option.splits)
  have "spare_audio all_mids own slots =
      filter (\<lambda>y. (case y of (mid, kind) \<Rightarrow> kind = Audio \<and> mid \<notin> set (used_mids slots)) \<and> y \<noteq> (a, Audio)) all_mids"
    using a(1) by (auto simp: spare_audio_def intro!: filter_cong)
  then show ?thesis
    using length_filter_except [of all_mids "(a, Audio)" "\<lambda>(mid, kind). kind = Audio \<and> mid \<notin> set (used_mids slots)"] a assms(1)
    by (simp add: distinct_map)
qed

lemma spare_video_count:
  assumes "distinct (map fst all_mids)" "own_ok all_mids own slots"
  shows "length (filter (\<lambda>(mid, kind). kind = Video \<and> mid \<notin> set (used_mids slots)) all_mids) =
    length (spare_video all_mids own slots) + (own_count own - 1)"
proof -
  let ?P = "\<lambda>(mid, kind). kind = Video \<and> mid \<notin> set (used_mids slots)"
  obtain v where v: "ow_video own = Some v" "(v, Video) \<in> set all_mids" "v \<notin> set (used_mids slots)" "ow_screen own \<noteq> Some v"
    using assms(2) by (auto simp: own_ok_def split: option.splits)
  let ?Q = "\<lambda>y. ?P y \<and> y \<noteq> (v, Video)"
  have one: "length (filter ?P all_mids) = Suc (length (filter ?Q all_mids))"
    using length_filter_except [of all_mids "(v, Video)" ?P] v assms(1) by (simp add: distinct_map)
  show ?thesis
  proof (cases "ow_screen own")
    case None
    then have "spare_video all_mids own slots = filter ?Q all_mids"
      using v(1) by (auto simp: spare_video_def intro!: filter_cong)
    then show ?thesis
      using one None by (simp add: own_count_def)
  next
    case (Some s)
    then have s: "(s, Video) \<in> set all_mids" "s \<notin> set (used_mids slots)" "s \<noteq> v"
      using assms(2) v by (auto simp: own_ok_def split: option.splits)
    have "spare_video all_mids own slots = filter (\<lambda>y. ?Q y \<and> y \<noteq> (s, Video)) all_mids"
      using v(1) Some by (auto simp: spare_video_def intro!: filter_cong)
    then show ?thesis
      using one Some length_filter_except [of all_mids "(s, Video)" ?Q] s assms(1)
      by (simp add: own_count_def distinct_map)
  qed
qed

lemma needs_renegotiation_iff:
  assumes "distinct (map fst all_mids)" "own_ok all_mids own slots"
  shows "needs_renegotiation all_mids (own_count own) slots n =
    (let missing = n - hm_len slots; spare = min (length (spare_audio all_mids own slots)) (length (spare_video all_mids own slots)) in
     if missing > spare then Some (of_nat (missing - spare)) else None)"
  using spare_audio_count [OF assms] spare_video_count [OF assms]
  by (auto simp: needs_renegotiation_def Let_def own_count_def split: if_splits)

lemma free_audio_mid_None: "free_audio_mid all_mids own slots = None \<longleftrightarrow> spare_audio all_mids own slots = []"
  by (auto simp: free_audio_mid_def spare_audio_def find_None_iff filter_empty_conv)

lemma free_video_mid_None: "free_video_mid all_mids own slots = None \<longleftrightarrow> spare_video all_mids own slots = []"
  by (auto simp: free_video_mid_def spare_video_def find_None_iff filter_empty_conv)

lemma create_slot:
  fixes wm :: "(mid, nat) hmap" and scr :: bool
  assumes inv: "slots_inv all_mids own slots" and none: "hm_get slots p = None"
    and av: "free_audio_mid all_mids own slots = Some a" "free_video_mid all_mids own slots = Some v"
  defines "slots' \<equiv> snd (get_or_create_slot p slots all_mids own wm scr)"
  shows "hm_get slots' = (hm_get slots)(p \<mapsto> the (hm_get slots' p))" "hm_get slots' p \<noteq> None"
    "hm_len slots' = Suc (hm_len slots)" "set (used_mids slots') = insert a (insert v (set (used_mids slots)))"
proof -
  obtain slot where slot: "slots' = hm_insert p slot slots" "slot_mids slot = [a, v]"
    using none av by (auto simp: slots'_def get_or_create_slot_def slot_mids_def Let_def)
  have wf: "hm_wf slots"
    using slots_inv_wf [OF inv] .
  show "hm_get slots' = (hm_get slots)(p \<mapsto> the (hm_get slots' p))" "hm_get slots' p \<noteq> None"
    by (simp_all add: slot(1))
  show "hm_len slots' = Suc (hm_len slots)"
    using none hm.len_ins [OF wf, of p slot] by (simp add: slot(1) domIff)
  show "set (used_mids slots') = insert a (insert v (set (used_mids slots)))"
    using none slot wf by (auto simp: in_used_mids split: if_splits) (metis option.distinct(1))+
qed

lemma create_slot_spare:
  fixes wm :: "(mid, nat) hmap" and scr :: bool
  assumes inv: "slots_inv all_mids own slots" and none: "hm_get slots p = None"
    and av: "free_audio_mid all_mids own slots = Some a" "free_video_mid all_mids own slots = Some v"
  defines "slots' \<equiv> snd (get_or_create_slot p slots all_mids own wm scr)"
  shows "length (spare_audio all_mids own slots) = Suc (length (spare_audio all_mids own slots'))"
    "length (spare_video all_mids own slots) = Suc (length (spare_video all_mids own slots'))"
proof -
  have dist: "distinct (map fst all_mids)"
    using slots_inv_mids [OF inv] .
  have used: "set (used_mids slots') = insert a (insert v (set (used_mids slots)))"
    unfolding slots'_def by (rule create_slot(4) [OF inv none av])
  have kinds: "(a, Audio) \<in> set all_mids" "(v, Video) \<in> set all_mids" "(a, Video) \<notin> set all_mids" "(v, Audio) \<notin> set all_mids"
    using free_audio_midD(1) [OF av(1)] free_video_midD(1) [OF av(2)] mid_kind_unique [OF dist] by blast+
  have "spare_audio all_mids own slots' = filter (\<lambda>y. (case y of (mid, kind) \<Rightarrow> kind = Audio \<and> Some mid \<noteq> ow_audio own \<and>
      mid \<notin> set (used_mids slots)) \<and> y \<noteq> (a, Audio)) all_mids"
    unfolding spare_audio_def used using kinds by (intro filter_cong) auto
  then show "length (spare_audio all_mids own slots) = Suc (length (spare_audio all_mids own slots'))"
    unfolding spare_audio_def [of all_mids own slots]
    using length_filter_except [of all_mids "(a, Audio)"] dist free_audio_midD [OF av(1)] by (simp add: distinct_map)
  have "spare_video all_mids own slots' = filter (\<lambda>y. (case y of (mid, kind) \<Rightarrow> kind = Video \<and> Some mid \<noteq> ow_video own \<and>
      Some mid \<noteq> ow_screen own \<and> mid \<notin> set (used_mids slots)) \<and> y \<noteq> (v, Video)) all_mids"
    unfolding spare_video_def used using kinds by (intro filter_cong) auto
  then show "length (spare_video all_mids own slots) = Suc (length (spare_video all_mids own slots'))"
    unfolding spare_video_def [of all_mids own slots]
    using length_filter_except [of all_mids "(v, Video)"] dist free_video_midD [OF av(2)] by (simp add: distinct_map)
qed

lemma create_slot_own:
  assumes "slots_inv all_mids own slots" "own_ok all_mids own slots" "hm_get slots p = None"
    "free_audio_mid all_mids own slots = Some a" "free_video_mid all_mids own slots = Some v"
  shows "own_ok all_mids own (snd (get_or_create_slot p slots all_mids own wm scr))"
proof -
  have "(x, Audio) \<in> set all_mids \<Longrightarrow> x \<noteq> v" "(x, Video) \<in> set all_mids \<Longrightarrow> x \<noteq> a" for x
    using mid_kind_unique [OF slots_inv_mids [OF assms(1)]] free_audio_midD(1) [OF assms(4)] free_video_midD(1) [OF assms(5)]
    by blast+
  then show ?thesis
    using assms(2) free_audio_midD(2) [OF assms(4)] free_video_midD(2,3) [OF assms(5)]
    unfolding own_ok_def create_slot(4) [OF assms(1,3-5)] by (auto split: option.splits)
qed

definition create_slots :: "participant_id list \<Rightarrow> mids \<Rightarrow> own_media \<Rightarrow> (mid, nat) hmap \<Rightarrow> slots \<Rightarrow> slots" where
  "create_slots ps all_mids own wm slots =
     fold (\<lambda>p slots. snd (get_or_create_slot p slots all_mids own wm False)) ps slots"

lemma create_slots_complete:
  assumes "slots_inv all_mids own slots" "own_ok all_mids own slots" "distinct ps"
    and "\<forall>p \<in> set ps. hm_get slots p = None"
    and "length ps \<le> min (length (spare_audio all_mids own slots)) (length (spare_video all_mids own slots))"
  shows "(\<forall>p \<in> set ps. hm_get (create_slots ps all_mids own wm slots) p \<noteq> None) \<and>
    (\<forall>p. hm_get slots p \<noteq> None \<longrightarrow> hm_get (create_slots ps all_mids own wm slots) p \<noteq> None)"
  using assms
proof (induction ps arbitrary: slots)
  case (Cons p ps)
  define slots' where "slots' = snd (get_or_create_slot p slots all_mids own wm False)"
  have none: "hm_get slots p = None"
    using Cons.prems by simp
  obtain a v where av: "free_audio_mid all_mids own slots = Some a" "free_video_mid all_mids own slots = Some v"
    using Cons.prems(5) free_audio_mid_None [of all_mids own slots] free_video_mid_None [of all_mids own slots] by fastforce
  note new = create_slot [OF Cons.prems(1) none av, where wm = wm and scr = False, folded slots'_def]
  have others: "hm_get slots' q = hm_get slots q" if "q \<noteq> p" for q
    by (subst new(1)) (simp add: that)
  have "(\<forall>p \<in> set ps. hm_get (create_slots ps all_mids own wm slots') p \<noteq> None) \<and>
      (\<forall>p. hm_get slots' p \<noteq> None \<longrightarrow> hm_get (create_slots ps all_mids own wm slots') p \<noteq> None)"
  proof (rule Cons.IH)
    show "slots_inv all_mids own slots'"
      unfolding slots'_def by (rule slots_inv_get_or_create [OF Cons.prems(1)])
    show "own_ok all_mids own slots'"
      unfolding slots'_def by (rule create_slot_own [OF Cons.prems(1,2) none av])
    show "length ps \<le> min (length (spare_audio all_mids own slots')) (length (spare_video all_mids own slots'))"
      using Cons.prems(5) create_slot_spare [OF Cons.prems(1) none av, where wm = wm and scr = False] by (simp add: slots'_def)
    show "\<forall>q \<in> set ps. hm_get slots' q = None"
    proof
      fix q assume "q \<in> set ps"
      moreover from this have "q \<noteq> p"
        using Cons.prems(3) by auto
      ultimately show "hm_get slots' q = None"
        using others Cons.prems(4) by simp
    qed
  qed (use Cons.prems(3) in simp)
  moreover have "create_slots (p # ps) all_mids own wm slots = create_slots ps all_mids own wm slots'"
    by (simp add: create_slots_def slots'_def)
  ultimately show ?case
    using new(2) others by (metis list.set_intros(1) set_ConsD)
qed (simp add: create_slots_def)

text \<open>
  C33: When \<open>needs_renegotiation\<close> asks for nothing, the session has room for everybody: each of the remote
  peers that has no slot yet, up to the announced number, gets one as soon as its media arrives, and no
  slot is lost.
\<close>

theorem no_renegotiation_enough_slots:
  assumes "slots_inv all_mids own slots" "own_ok all_mids own slots"
    and "needs_renegotiation all_mids (own_count own) slots n = None"
    and "distinct ps" "\<forall>p \<in> set ps. hm_get slots p = None" "hm_len slots + length ps \<le> n"
  shows "\<forall>p. p \<in> set ps \<or> hm_get slots p \<noteq> None \<longrightarrow> hm_get (create_slots ps all_mids own wm slots) p \<noteq> None"
proof -
  have "n - hm_len slots \<le> min (length (spare_audio all_mids own slots)) (length (spare_video all_mids own slots))"
    using assms(3) needs_renegotiation_iff [OF slots_inv_mids [OF assms(1)] assms(2), of n]
    unfolding Let_def by (simp only: not_less split: if_splits) simp
  then have "length ps \<le> min (length (spare_audio all_mids own slots)) (length (spare_video all_mids own slots))"
    using assms(6) by linarith
  then show ?thesis
    using create_slots_complete [OF assms(1,2,4,5)] by blast
qed

lemma demo_own_ok: "own_ok demo_mids demo_own []"
  by code_simp

theorem no_renegotiation_enough_slots_witness:
  "hm_get (create_slots [ParticipantId 5] demo_mids demo_own [] []) (ParticipantId 5) \<noteq> None"
proof -
  have "needs_renegotiation demo_mids (own_count demo_own) [] 1 = None"
    by code_simp
  then show ?thesis
    using no_renegotiation_enough_slots [OF slots_inv_empty [OF demo_mids_distinct] demo_own_ok, of 1 "[ParticipantId 5]" "[]"]
    by (simp add: hm_len_def)
qed

text \<open>
  The number of slots asked for is enough: once the session has gained that many audio and video
  lines, no further renegotiation is needed for the same number of peers.
\<close>

lemma renegotiation_deficit_enough:
  assumes "slots_inv all_mids own slots" "own_ok all_mids own slots" "n < 2 ^ 32"
    and "needs_renegotiation all_mids (own_count own) slots n = Some d"
    and "length audio = unat d" "length video = unat d"
    and "distinct (map fst all_mids @ audio @ video)" "set (audio @ video) \<inter> set (used_mids slots) = {}"
  shows "needs_renegotiation (all_mids @ map (\<lambda>m. (m, Audio)) audio @ map (\<lambda>m. (m, Video)) video) (own_count own) slots n = None"
proof -
  let ?all = "all_mids @ map (\<lambda>m. (m, Audio)) audio @ map (\<lambda>m. (m, Video)) video"
  have own: "own_ok ?all own slots"
    using assms(2) by (auto simp: own_ok_def split: option.splits)
  have dist: "distinct (map fst ?all)"
    using assms(7) by (simp add: o_def)
  have notown: "m \<in> set (audio @ video) \<Longrightarrow> ow_audio own \<noteq> Some m \<and> ow_video own \<noteq> Some m \<and> ow_screen own \<noteq> Some m" for m
    using assms(2,7) by (force simp: own_ok_def split: option.splits)
  have "spare_audio ?all own slots = spare_audio all_mids own slots @ map (\<lambda>m. (m, Audio)) audio"
    using notown assms(8) by (fastforce simp: spare_audio_def filter_empty_conv intro!: filter_True)
  moreover have "spare_video ?all own slots = spare_video all_mids own slots @ map (\<lambda>m. (m, Video)) video"
    using notown assms(8) by (fastforce simp: spare_video_def filter_empty_conv intro!: filter_True)
  moreover have "unat d = n - hm_len slots - min (length (spare_audio all_mids own slots)) (length (spare_video all_mids own slots))"
  proof -
    define k where "k = n - hm_len slots - min (length (spare_audio all_mids own slots)) (length (spare_video all_mids own slots))"
    have "d = of_nat k"
      using assms(4) needs_renegotiation_iff [OF slots_inv_mids [OF assms(1)] assms(2), of n]
      unfolding Let_def k_def [symmetric] by (simp split: if_splits)
    moreover have "k < 2 ^ 32"
      using assms(3) by (simp add: k_def)
    ultimately show ?thesis
      unfolding k_def [symmetric] by (simp add: unsigned_of_nat take_bit_nat_eq_self)
  qed
  ultimately show ?thesis
    using assms(5,6) by (auto simp: needs_renegotiation_iff [OF dist own] Let_def min_def split: if_splits)
qed

theorem renegotiation_deficit_enough_witness:
  "needs_renegotiation (demo_mids @ map (\<lambda>m. (m, Audio)) [''5''] @ map (\<lambda>m. (m, Video)) [''6'']) (own_count demo_own) [] 2 = None"
proof -
  have "needs_renegotiation demo_mids (own_count demo_own) [] 2 = Some 1"
    by code_simp
  moreover have "distinct (map fst demo_mids @ [''5''] @ [''6''])"
    by code_simp
  ultimately show ?thesis
    using renegotiation_deficit_enough [OF slots_inv_empty [OF demo_mids_distinct] demo_own_ok, of 2 1 "[''5'']" "[''6'']"]
    by (simp add: used_mids_def hm_values_def)
qed

end
