(* ===== verification/Sfu_Media.thy ===== *)
theory Sfu_Media
  imports Complex_Main Sfu_Slots
begin

text \<open>
  \<open>seameet-sfu/src/media.rs\<close>, the media task of one participant: its local variables, one definition per
  command and per periodic duty, the draining of the outputs of \<open>str0m\<close>, and the loop that composes them.

  The session object \<open>Rtc\<close> of \<open>str0m\<close> is not under the repository. A handler gets what the code asks of it
  (\<open>rtc_view\<close>, the outputs that \<open>poll_output\<close> delivers one after the other) and returns the calls it makes as
  \<open>effect\<close> values, in order, together with the sends on channels. The map of peers is shared between tasks: a
  handler gets the map it reads. \<open>Instant::now()\<close> is the argument \<open>now\<close>, in nanoseconds. The in-flight
  counters are \<open>usize\<close> atomics, 64-bit words, by counter name.

  Audio levels are \<open>f32\<close>: rational numbers, with every operation rounded by the argument \<open>rnd\<close>.
\<close>

section \<open>Data\<close>

type_synonym counters = "nat \<Rightarrow> 64 word"

datatype peer_cmd =
    UdpPacket "u8 list" sockaddr
  | IceCandidateCmd string
  | Media forwarded_media
  | RequestKeyframeCmd
  | RenegotiationOffer string nat
  | ScreenShareActive bool
  | SetMuted bool
  | PeerMuteChanged participant_id bool
  | PeerCountChanged nat
  | PeerLeftCmd participant_id
  | SourceScreenStopped participant_id

record sfu_peer =
  sp_cmd_tx :: chan
  sp_ws_tx :: chan
  sp_gen :: nat
  sp_audio_inflight :: nat
  sp_video_inflight :: nat

type_synonym peers = "(participant_id, sfu_peer) hmap"
type_synonym route_table = "(sockaddr, participant_id) hmap"

datatype effect =
    RtcTimeout time
  | RtcReceive time sockaddr "u8 list"
  | RtcAddCandidate string
  | RtcPli mid
  | RtcWrite rtp_write
  | SendUdp "u8 list" sockaddr
  | SendCmd chan peer_cmd
  | SendWs chan string
  | Reply nat string
  | InsertRoute sockaddr participant_id

record rtc_view =
  rv_rx :: "mid \<Rightarrow> u32 option"
  rv_tx :: "mid \<Rightarrow> bool"
  rv_accept :: "string \<Rightarrow> string option"
  rv_receive_ok :: "sockaddr \<Rightarrow> u8 list \<Rightarrow> bool"
  rv_candidate_ok :: "string \<Rightarrow> bool"
  rv_alive :: bool

record media_task =
  mt_pid :: participant_id
  mt_ws_tx :: chan
  mt_room_id :: string
  mt_gen :: nat
  mt_audio_inflight :: nat
  mt_video_inflight :: nat
  mt_own :: own_media
  mt_screen_share_active :: bool
  mt_screen_share_pending :: bool
  mt_muted :: bool
  mt_muted_peers :: "participant_id list"
  mt_media_started :: bool
  mt_ice_connected :: bool
  mt_connected_at :: "time option"
  mt_post_connect_pli_count :: nat
  mt_route_registered :: bool
  mt_source_slots :: slots
  mt_last_pli :: time
  mt_last_bwe_notify :: time
  mt_last_remote_peer_count :: nat
  mt_audio_levels :: "(participant_id, rat) hmap"
  mt_last_speaker_broadcast :: time
  mt_current_active_speaker :: "participant_id option"
  mt_all_mids :: mids
  mt_rtp_rx_count :: nat
  mt_rtp_tx_count :: nat
  mt_pending_media :: "(participant_id, forwarded_media list) hmap"
  mt_source_keyframe_pending :: "(participant_id, time) hmap"
  mt_mid_seq_watermark :: "(mid, nat) hmap"

definition AUDIO_INFLIGHT_CAP :: "64 word" where "AUDIO_INFLIGHT_CAP = 128"
definition VIDEO_INFLIGHT_CAP :: "64 word" where "VIDEO_INFLIGHT_CAP = 512"
definition MEDIA_BUFFER_CAP :: nat where "MEDIA_BUFFER_CAP = 500"
definition millis :: "nat \<Rightarrow> time" where "millis n = n * 1000000"
definition PENDING_MEDIA_MAX_AGE :: time where "PENDING_MEDIA_MAX_AGE = millis 1000"

section \<open>Helpers\<close>

definition try_reserve_media_slot :: "nat \<Rightarrow> 64 word \<Rightarrow> counters \<Rightarrow> bool \<times> counters" where
  "try_reserve_media_slot c cap cs = (if cs c \<ge> cap then (False, cs) else (True, cs(c := cs c + 1)))"

definition is_pending_media_stale :: "time \<Rightarrow> time \<Rightarrow> bool" where
  "is_pending_media_stale wallclock now = (now - wallclock > PENDING_MEDIA_MAX_AGE)"

definition udp_route :: "u8 list \<Rightarrow> sockaddr \<Rightarrow> route_table \<Rightarrow> peers \<Rightarrow> effect list" where
  \<comment> \<open>the body of the loop of \<open>udp_reader\<close> for one datagram\<close>
  "udp_route data source routes peers =
    (case hm_get routes source of
       Some pid \<Rightarrow>
        (case hm_get peers pid of
           Some peer \<Rightarrow> [SendCmd (sp_cmd_tx peer) (UdpPacket data source)]
         | None \<Rightarrow> [])
     | None \<Rightarrow> map (\<lambda>peer. SendCmd (sp_cmd_tx peer) (UdpPacket data source)) (hm_values peers))"

definition request_keyframe :: "rtc_view \<Rightarrow> mid option \<Rightarrow> effect list" where
  \<comment> \<open>\<open>if let Some(mid) = .. { if let Some(rx) = api.stream_rx_by_mid(mid, None) { rx.request_keyframe(Pli) } }\<close>\<close>
  "request_keyframe v m = (case m of Some mid \<Rightarrow> (if rv_rx v mid \<noteq> None then [RtcPli mid] else []) | None \<Rightarrow> [])"

definition to_others :: "participant_id \<Rightarrow> peers \<Rightarrow> peer_cmd \<Rightarrow> effect list" where
  \<comment> \<open>\<open>for (id, peer) in p.iter() { if *id != pid { let _ = peer.cmd_tx.send(cmd); } }\<close>\<close>
  "to_others pid peers cmd =
     concat (map (\<lambda>(i, peer). if i \<noteq> pid then [SendCmd (sp_cmd_tx peer) cmd] else []) peers)"

definition to_peer :: "participant_id \<Rightarrow> peers \<Rightarrow> peer_cmd \<Rightarrow> effect list" where
  "to_peer i peers cmd = (case hm_get peers i of Some peer \<Rightarrow> [SendCmd (sp_cmd_tx peer) cmd] | None \<Rightarrow> [])"

definition send_ws_msg :: "serialiser \<Rightarrow> chan \<Rightarrow> sdp_message \<Rightarrow> effect list" where
  "send_ws_msg ser tx m = (case ser m of Some json \<Rightarrow> [SendWs tx json] | None \<Rightarrow> [])"

section \<open>Start of the task\<close>

definition task_new ::
  "participant_id \<Rightarrow> chan \<Rightarrow> string \<Rightarrow> nat \<Rightarrow> nat \<Rightarrow> nat \<Rightarrow> u8 \<Rightarrow> u8 \<Rightarrow> time \<Rightarrow> media_task" where
  "task_new pid ws_tx room_id my_gen audio_inflight video_inflight own_audio_pt own_video_pt now =
    \<lparr>mt_pid = pid, mt_ws_tx = ws_tx, mt_room_id = room_id, mt_gen = my_gen, mt_audio_inflight = audio_inflight,
     mt_video_inflight = video_inflight,
     mt_own = \<lparr>ow_audio = None, ow_video = None, ow_screen = None, ow_audio_pt = own_audio_pt, ow_video_pt = own_video_pt\<rparr>,
     mt_screen_share_active = False, mt_screen_share_pending = False, mt_muted = False, mt_muted_peers = [],
     mt_media_started = False, mt_ice_connected = False, mt_connected_at = None, mt_post_connect_pli_count = 0,
     mt_route_registered = False, mt_source_slots = [], mt_last_pli = now, mt_last_bwe_notify = now,
     mt_last_remote_peer_count = 0, mt_audio_levels = [], mt_last_speaker_broadcast = now,
     mt_current_active_speaker = None, mt_all_mids = [], mt_rtp_rx_count = 0, mt_rtp_tx_count = 0,
     mt_pending_media = [], mt_source_keyframe_pending = [], mt_mid_seq_watermark = []\<rparr>"

definition assign_own :: "mid \<Rightarrow> media_kind \<Rightarrow> own_media \<Rightarrow> own_media" where
  "assign_own mid kind own =
    (case kind of
       Audio \<Rightarrow> if ow_audio own = None then own\<lparr>ow_audio := Some mid\<rparr> else own
     | Video \<Rightarrow> if ow_video own = None then own\<lparr>ow_video := Some mid\<rparr> else own)"

definition add_mid :: "mid \<times> media_kind \<Rightarrow> media_task \<Rightarrow> media_task" where
  "add_mid e t = t\<lparr>mt_all_mids := mt_all_mids t @ [e], mt_own := assign_own (fst e) (snd e) (mt_own t)\<rparr>"

definition process_initial_mids :: "mids \<Rightarrow> media_task \<Rightarrow> media_task" where
  "process_initial_mids initial_mids t = fold add_mid initial_mids t"

definition process_new_media :: "mids \<Rightarrow> media_task \<Rightarrow> media_task" where
  "process_new_media new_media t =
     fold (\<lambda>e t. if fst e \<in> set (map fst (mt_all_mids t)) then t else add_mid e t) new_media t"

definition start_media :: "rtc_view \<Rightarrow> peers \<Rightarrow> media_task \<Rightarrow> effect list \<times> media_task" where
  "start_media v peers t =
    (if \<not> mt_media_started t \<and> ow_audio (mt_own t) \<noteq> None \<and> ow_video (mt_own t) \<noteq> None
     then (request_keyframe v (ow_video (mt_own t)) @ to_others (mt_pid t) peers RequestKeyframeCmd,
           t\<lparr>mt_media_started := True\<rparr>)
     else ([], t))"

definition PLI_BURST_DELAYS_MS :: "nat list" where
  "PLI_BURST_DELAYS_MS = [0, 200, 500, 1000, 2000]"

definition pli_burst :: "rtc_view \<Rightarrow> peers \<Rightarrow> time \<Rightarrow> media_task \<Rightarrow> effect list \<times> media_task" where
  "pli_burst v peers now t0 =
    (if mt_ice_connected t0 \<and> mt_media_started t0
     then let since = (case mt_connected_at t0 of Some since \<Rightarrow> since | None \<Rightarrow> now);
              t = t0\<lparr>mt_connected_at := Some since\<rparr>;
              elapsed_ms = (now - since) div 1000000;
              idx = mt_post_connect_pli_count t in
          if idx < length PLI_BURST_DELAYS_MS \<and> elapsed_ms \<ge> PLI_BURST_DELAYS_MS ! idx
          then (request_keyframe v (ow_video (mt_own t)) @ to_others (mt_pid t) peers RequestKeyframeCmd,
                t\<lparr>mt_post_connect_pli_count := idx + 1\<rparr>)
          else ([], t)
     else ([], t0))"

section \<open>Commands\<close>

definition on_udp_packet :: "rtc_view \<Rightarrow> time \<Rightarrow> u8 list \<Rightarrow> sockaddr \<Rightarrow> media_task \<Rightarrow> effect list \<times> media_task" where
  "on_udp_packet v now data source t =
    (if rv_receive_ok v source data
     then if mt_ice_connected t \<and> \<not> mt_route_registered t
          then ([RtcReceive now source data, InsertRoute source (mt_pid t)], t\<lparr>mt_route_registered := True\<rparr>)
          else ([RtcReceive now source data], t)
     else ([], t))"

definition on_ice_candidate :: "rtc_view \<Rightarrow> string \<Rightarrow> media_task \<Rightarrow> effect list \<times> media_task" where
  "on_ice_candidate v c t = (if rv_candidate_ok v c then [RtcAddCandidate c] else [], t)"

definition release_media_slot :: "media_task \<Rightarrow> forwarded_media \<Rightarrow> counters \<Rightarrow> counters" where
  "release_media_slot t m cs =
    (let c = (if fm_is_audio m then mt_audio_inflight t else mt_video_inflight t) in cs(c := cs c - 1))"

definition slot_screen_mid :: "participant_id \<Rightarrow> slots \<Rightarrow> mid option" where
  \<comment> \<open>\<open>source_slots.get(&pid).and_then(|s| s.screen_mid)\<close>\<close>
  "slot_screen_mid i slots = Option.bind (hm_get slots i) sl_screen_mid"

definition buffer_media :: "forwarded_media \<Rightarrow> media_task \<Rightarrow> media_task" where
  "buffer_media m t =
    (let buf = (case hm_get (mt_pending_media t) (fm_source_pid m) of Some b \<Rightarrow> b | None \<Rightarrow> []);
         buf' = (if length buf < MEDIA_BUFFER_CAP then buf @ [m] else buf) in
     t\<lparr>mt_pending_media := hm_insert (fm_source_pid m) buf' (mt_pending_media t)\<rparr>)"

definition write_media :: "rtc_view \<Rightarrow> forwarded_media \<Rightarrow> media_task \<Rightarrow> effect list \<times> media_task" where
  \<comment> \<open>the call of \<open>write_forwarded_rtp\<close> with the task's variables\<close>
  "write_media v m t =
    (let (writes, slots, n) = write_forwarded_rtp (rv_tx v) m (mt_source_slots t) (mt_rtp_tx_count t)
           (mt_all_mids t) (mt_own t) (mt_mid_seq_watermark t) in
     (map RtcWrite writes, t\<lparr>mt_source_slots := slots, mt_rtp_tx_count := n\<rparr>))"

definition after_write ::
  "serialiser \<Rightarrow> (mid \<Rightarrow> string) \<Rightarrow> peers \<Rightarrow> time \<Rightarrow> participant_id \<Rightarrow> bool \<Rightarrow> bool \<Rightarrow> effect list \<times> media_task \<Rightarrow>
    effect list \<times> media_task" where
  \<comment> \<open>the keyframe request and the routing notice for a source that is new or has gained a screen line\<close>
  "after_write ser mid_show peers now src had_slot had_screen_mid w =
    (case w of (out, t) \<Rightarrow>
      let created_new = (\<not> had_slot \<and> hm_contains (mt_source_slots t) src);
          screen_mid = slot_screen_mid src (mt_source_slots t);
          gained_screen_mid = (\<not> had_screen_mid \<and> screen_mid \<noteq> None) in
      if created_new \<or> gained_screen_mid
      then (out @ to_peer src peers RequestKeyframeCmd @
              (if gained_screen_mid
               then (case screen_mid of
                       Some s_mid \<Rightarrow> send_ws_msg ser (mt_ws_tx t) (ScreenShareRouted src (mid_show s_mid) (mt_room_id t))
                     | None \<Rightarrow> [])
               else []),
            t\<lparr>mt_source_keyframe_pending := hm_insert src now (mt_source_keyframe_pending t)\<rparr>)
      else (out, t))"

definition slot_for_media :: "forwarded_media \<Rightarrow> media_task \<Rightarrow> bool \<times> slots" where
  \<comment> \<open>whether the source has a slot or can get one, and the slots afterwards\<close>
  "slot_for_media m t =
    (if hm_contains (mt_source_slots t) (fm_source_pid m) then (True, mt_source_slots t)
     else case get_or_create_slot (fm_source_pid m) (mt_source_slots t) (mt_all_mids t) (mt_own t)
                 (mt_mid_seq_watermark t) (fm_is_screen m) of
            (created, slots) \<Rightarrow> (created \<noteq> None, slots))"

definition on_media ::
  "serialiser \<Rightarrow> (mid \<Rightarrow> string) \<Rightarrow> rtc_view \<Rightarrow> peers \<Rightarrow> time \<Rightarrow> forwarded_media \<Rightarrow> media_task \<Rightarrow> effect list \<times> media_task" where
  "on_media ser mid_show v peers now m t0 =
    (if fm_is_audio m \<and> fm_source_pid m \<in> set (mt_muted_peers t0) then ([], t0)
     else
       let had_slot = hm_contains (mt_source_slots t0) (fm_source_pid m);
           had_screen_mid = (slot_screen_mid (fm_source_pid m) (mt_source_slots t0) \<noteq> None);
           (has_slot, slots) = slot_for_media m t0;
           t = t0\<lparr>mt_source_slots := slots\<rparr> in
       if \<not> has_slot then ([], buffer_media m t)
       else after_write ser mid_show peers now (fm_source_pid m) had_slot had_screen_mid (write_media v m t))"

definition on_request_keyframe :: "rtc_view \<Rightarrow> media_task \<Rightarrow> effect list \<times> media_task" where
  "on_request_keyframe v t = (request_keyframe v (ow_video (mt_own t)) @ request_keyframe v (ow_screen (mt_own t)), t)"

fun transmits :: "rtc_output list \<Rightarrow> effect list" where
  \<comment> \<open>\<open>loop { match rtc.poll_output() { Transmit(t) => send, Event(_) => {}, Timeout(_) | Err(_) => break } }\<close>\<close>
  "transmits [] = []"
| "transmits (Transmit contents dest # outs) = SendUdp contents dest # transmits outs"
| "transmits (EventOut _ # outs) = transmits outs"
| "transmits (TimeoutAt _ # outs) = []"
| "transmits (PollError # outs) = []"

definition add_sdp_mid :: "mid \<times> media_kind \<Rightarrow> mids \<times> mids \<Rightarrow> mids \<times> mids" where
  "add_sdp_mid e st =
    (case st of (all_mids, new_mids) \<Rightarrow>
      if fst e \<in> set (map fst all_mids) then (all_mids, new_mids) else (all_mids @ [e], new_mids @ [e]))"

definition handle_renegotiation ::
  "(string \<Rightarrow> mid) \<Rightarrow> rtc_view \<Rightarrow> rtc_output list \<Rightarrow> string \<Rightarrow> nat \<Rightarrow> mids \<Rightarrow> effect list \<times> mids \<times> mids" where
  \<comment> \<open>the calls made, the new \<open>all_mids\<close>, and the newly discovered mids that are returned\<close>
  "handle_renegotiation mid_of v outs sdp reply_tx all_mids =
    (case rv_accept v (patch_sdp_directions sdp) of
       None \<Rightarrow> ([Reply reply_tx []], all_mids, [])
     | Some answer_sdp \<Rightarrow>
        (let (all_mids', new_mids) = fold add_sdp_mid (parse_mids_from_sdp mid_of answer_sdp) (all_mids, []) in
         (transmits outs @ [Reply reply_tx answer_sdp], all_mids', new_mids)))"

definition assign_renegotiated :: "mid \<times> media_kind \<Rightarrow> media_task \<Rightarrow> media_task" where
  "assign_renegotiated e t =
    (case e of (mid, kind) \<Rightarrow>
      (case kind of
         Audio \<Rightarrow> if ow_audio (mt_own t) = None then t\<lparr>mt_own := (mt_own t)\<lparr>ow_audio := Some mid\<rparr>\<rparr> else t
       | Video \<Rightarrow>
          if ow_video (mt_own t) = None then t\<lparr>mt_own := (mt_own t)\<lparr>ow_video := Some mid\<rparr>\<rparr>
          else if (mt_screen_share_pending t \<or> mt_screen_share_active t) \<and> ow_screen (mt_own t) = None
          then t\<lparr>mt_own := (mt_own t)\<lparr>ow_screen := Some mid\<rparr>, mt_screen_share_pending := False\<rparr>
          else t))"

fun flush_buffer :: "rtc_view \<Rightarrow> time \<Rightarrow> forwarded_media list \<Rightarrow> media_task \<Rightarrow> effect list \<times> media_task" where
  "flush_buffer v flush_now [] t = ([], t)"
| "flush_buffer v flush_now (m # ms) t =
    (if is_pending_media_stale (fm_wallclock m) flush_now then flush_buffer v flush_now ms t
     else let (out, t1) = write_media v m t; (out', t2) = flush_buffer v flush_now ms t1 in (out @ out', t2))"

fun flush_sources :: "rtc_view \<Rightarrow> peers \<Rightarrow> time \<Rightarrow> participant_id list \<Rightarrow> media_task \<Rightarrow> effect list \<times> media_task" where
  "flush_sources v peers flush_now [] t = ([], t)"
| "flush_sources v peers flush_now (src # srcs) t =
    (case hm_get (mt_pending_media t) src of
       None \<Rightarrow> flush_sources v peers flush_now srcs t
     | Some buffered \<Rightarrow>
        (let (out, t1) = flush_buffer v flush_now buffered (t\<lparr>mt_pending_media := hm_remove src (mt_pending_media t)\<rparr>);
             kf = (if hm_contains (mt_source_slots t1) src then to_peer src peers RequestKeyframeCmd else []);
             (out', t2) = flush_sources v peers flush_now srcs t1 in
         (out @ kf @ out', t2)))"

definition on_renegotiation_offer ::
  "(string \<Rightarrow> mid) \<Rightarrow> rtc_view \<Rightarrow> rtc_output list \<Rightarrow> peers \<Rightarrow> time \<Rightarrow> string \<Rightarrow> nat \<Rightarrow> media_task \<Rightarrow> effect list \<times> media_task" where
  "on_renegotiation_offer mid_of v outs peers now sdp reply_tx t0 =
    (let (out, all_mids', new_mids) = handle_renegotiation mid_of v outs sdp reply_tx (mt_all_mids t0);
         t1 = fold assign_renegotiated new_mids (t0\<lparr>mt_all_mids := all_mids'\<rparr>);
         (out', t2) = flush_sources v peers now (hm_keys (mt_pending_media t1)) t1 in
     (out @ out' @ request_keyframe v (ow_video (mt_own t2)) @ to_others (mt_pid t2) peers RequestKeyframeCmd, t2))"

definition on_screen_share_active :: "bool \<Rightarrow> media_task \<Rightarrow> media_task" where
  "on_screen_share_active active t0 =
    (let t = t0\<lparr>mt_screen_share_active := active\<rparr> in
     if active then (if ow_screen (mt_own t) = None then t\<lparr>mt_screen_share_pending := True\<rparr> else t)
     else t\<lparr>mt_own := (mt_own t)\<lparr>ow_screen := None\<rparr>, mt_screen_share_pending := False\<rparr>)"

definition on_set_muted :: "bool \<Rightarrow> media_task \<Rightarrow> media_task" where
  "on_set_muted is_muted t = t\<lparr>mt_muted := is_muted\<rparr>"

definition on_peer_mute_changed :: "participant_id \<Rightarrow> bool \<Rightarrow> media_task \<Rightarrow> media_task" where
  "on_peer_mute_changed peer_pid is_muted t =
     t\<lparr>mt_muted_peers := (if is_muted then List.insert peer_pid (mt_muted_peers t) else removeAll peer_pid (mt_muted_peers t))\<rparr>"

definition save_watermarks :: "source_slot \<Rightarrow> (mid, nat) hmap \<Rightarrow> (mid, nat) hmap" where
  "save_watermarks slot wm =
    (let wm1 = hm_insert (sl_video_mid slot) (sl_video_tx_seq slot) (hm_insert (sl_audio_mid slot) (sl_audio_tx_seq slot) wm) in
     case sl_screen_mid slot of Some sm \<Rightarrow> hm_insert sm (sl_screen_tx_seq slot) wm1 | None \<Rightarrow> wm1)"

definition on_peer_left :: "participant_id \<Rightarrow> media_task \<Rightarrow> media_task" where
  "on_peer_left left_pid t0 =
    (let t = (case hm_get (mt_source_slots t0) left_pid of
                Some slot \<Rightarrow> t0\<lparr>mt_source_slots := hm_remove left_pid (mt_source_slots t0),
                                mt_mid_seq_watermark := save_watermarks slot (mt_mid_seq_watermark t0)\<rparr>
              | None \<Rightarrow> t0) in
     t\<lparr>mt_pending_media := hm_remove left_pid (mt_pending_media t),
       mt_muted_peers := removeAll left_pid (mt_muted_peers t),
       mt_source_keyframe_pending := hm_remove left_pid (mt_source_keyframe_pending t),
       mt_audio_levels := hm_remove left_pid (mt_audio_levels t)\<rparr>)"

definition on_source_screen_stopped :: "participant_id \<Rightarrow> media_task \<Rightarrow> media_task" where
  "on_source_screen_stopped source_pid t =
     t\<lparr>mt_source_slots := hm_modify source_pid (\<lambda>s. s\<lparr>sl_screen_mid := None\<rparr>) (mt_source_slots t)\<rparr>"

definition on_peer_count_changed :: "serialiser \<Rightarrow> rtc_view \<Rightarrow> nat \<Rightarrow> media_task \<Rightarrow> effect list \<times> media_task" where
  "on_peer_count_changed ser v remote_peer_count t =
    (let ask = (case needs_renegotiation (mt_all_mids t) (own_count (mt_own t)) (mt_source_slots t) remote_peer_count of
                  Some deficit \<Rightarrow> send_ws_msg ser (mt_ws_tx t) (RequestRenegotiation (mt_room_id t) deficit)
                | None \<Rightarrow> []);
         pli = (if remote_peer_count > mt_last_remote_peer_count t \<and> mt_media_started t
                then request_keyframe v (ow_video (mt_own t)) @ request_keyframe v (ow_screen (mt_own t)) else []) in
     (ask @ pli, t\<lparr>mt_last_remote_peer_count := remote_peer_count\<rparr>))"

section \<open>Periodic duties\<close>

definition safety_pli :: "rtc_view \<Rightarrow> time \<Rightarrow> media_task \<Rightarrow> effect list \<times> media_task" where
  "safety_pli v now t =
    (if mt_media_started t \<and> now - mt_last_pli t \<ge> millis 30000
     then (request_keyframe v (ow_video (mt_own t)) @ request_keyframe v (ow_screen (mt_own t)), t\<lparr>mt_last_pli := now\<rparr>)
     else ([], t))"

definition loudest :: "(participant_id, rat) hmap \<Rightarrow> (participant_id \<times> rat) option" where
  \<comment> \<open>\<open>filter(level > 10.0).max_by(partial_cmp)\<close>: the last of the greatest\<close>
  "loudest levels = fold (\<lambda>e best. case best of None \<Rightarrow> Some e | Some b \<Rightarrow> if snd e \<ge> snd b then Some e else Some b)
     (filter (\<lambda>e. snd e > 10) levels) None"

definition level_u8 :: "rat \<Rightarrow> u8" where
  \<comment> \<open>\<open>(*level as u8).min(127)\<close>; the cast truncates and saturates\<close>
  "level_u8 l = of_nat (min 127 (min 255 (nat \<lfloor>l\<rfloor>)))"

definition broadcast_speaker :: "serialiser \<Rightarrow> peers \<Rightarrow> media_task \<Rightarrow> effect list \<times> media_task" where
  "broadcast_speaker ser peers t =
    (case loudest (mt_audio_levels t) of
       Some (speaker_pid, level) \<Rightarrow>
         if mt_current_active_speaker t \<noteq> Some speaker_pid
         then ((case ser (ActiveSpeaker (mt_room_id t) speaker_pid (level_u8 level)) of
                  Some json \<Rightarrow> map (\<lambda>peer. SendWs (sp_ws_tx peer) json) (hm_values peers)
                | None \<Rightarrow> []),
               t\<lparr>mt_current_active_speaker := Some speaker_pid\<rparr>)
         else ([], t)
     | None \<Rightarrow> ([], t))"

definition active_speaker :: "(rat \<Rightarrow> rat) \<Rightarrow> serialiser \<Rightarrow> peers \<Rightarrow> time \<Rightarrow> media_task \<Rightarrow> effect list \<times> media_task" where
  "active_speaker rnd ser peers now t0 =
    (if mt_media_started t0 \<and> now - mt_last_speaker_broadcast t0 \<ge> millis 500
     then let (out, t) = broadcast_speaker ser peers (t0\<lparr>mt_last_speaker_broadcast := now\<rparr>) in
          (out, t\<lparr>mt_audio_levels := map (\<lambda>(i, level). (i, rnd (level * rnd (85 / 100)))) (mt_audio_levels t)\<rparr>)
     else ([], t0))"

definition keyframe_retries :: "peers \<Rightarrow> time \<Rightarrow> media_task \<Rightarrow> effect list \<times> media_task" where
  "keyframe_retries peers now t =
    (let young = filter (\<lambda>(_, since). now - since < millis 3000) (mt_source_keyframe_pending t) in
     (concat (map (\<lambda>(src, _). to_peer src peers RequestKeyframeCmd) young), t\<lparr>mt_source_keyframe_pending := young\<rparr>))"

definition on_tick :: "(rat \<Rightarrow> rat) \<Rightarrow> serialiser \<Rightarrow> rtc_view \<Rightarrow> peers \<Rightarrow> time \<Rightarrow> media_task \<Rightarrow> effect list \<times> media_task" where
  \<comment> \<open>the timer branch of the \<open>select!\<close>\<close>
  "on_tick rnd ser v peers now t0 =
    (let (out1, t1) = safety_pli v now t0;
         (out2, t2) = active_speaker rnd ser peers now t1;
         (out3, t3) = keyframe_retries peers now t2 in
     (RtcTimeout now # out1 @ out2 @ out3, t3))"

section \<open>Draining the outputs\<close>

definition update_level :: "(rat \<Rightarrow> rat) \<Rightarrow> participant_id \<Rightarrow> int \<Rightarrow> (participant_id, rat) hmap \<Rightarrow> (participant_id, rat) hmap" where
  "update_level rnd pid level levels =
    (let linear = of_int (max 0 (127 - level));
         entry = (case hm_get levels pid of Some l \<Rightarrow> l | None \<Rightarrow> 0) in
     hm_insert pid (rnd (rnd (rnd (3 / 10) * linear) + rnd (rnd (7 / 10) * entry))) levels)"

fun forward_to_peers :: "participant_id \<Rightarrow> forwarded_media \<Rightarrow> peers \<Rightarrow> counters \<Rightarrow> effect list \<times> counters" where
  "forward_to_peers pid m [] cs = ([], cs)"
| "forward_to_peers pid m ((i, peer) # ps) cs =
    (if i \<noteq> pid
     then let (counter, cap) = (if fm_is_audio m then (sp_audio_inflight peer, AUDIO_INFLIGHT_CAP)
                                else (sp_video_inflight peer, VIDEO_INFLIGHT_CAP));
              (reserved, cs1) = try_reserve_media_slot counter cap cs;
              (out, cs2) = forward_to_peers pid m ps cs1 in
          (if reserved then SendCmd (sp_cmd_tx peer) (Media m) # out else out, cs2)
     else forward_to_peers pid m ps cs)"

definition on_rtp_packet ::
  "(rat \<Rightarrow> rat) \<Rightarrow> u32 option \<Rightarrow> peers \<Rightarrow> time \<Rightarrow> rtp_in \<Rightarrow> media_task \<Rightarrow> counters \<Rightarrow> effect list \<times> media_task \<times> counters" where
  "on_rtp_packet rnd screen_ssrc peers now pkt t0 cs =
    (let t = t0\<lparr>mt_rtp_rx_count := mt_rtp_rx_count t0 + 1\<rparr>;
         is_audio = (ri_pt pkt = ow_audio_pt (mt_own t)) in
     if is_audio \<and> mt_muted t then ([], t, cs)
     else
       let is_screen = (\<not> is_audio \<and> screen_ssrc = Some (ri_ssrc pkt));
           t1 = (if is_audio
                 then (case ev_audio_level (ri_ext pkt) of
                         Some level \<Rightarrow> t\<lparr>mt_audio_levels := update_level rnd (mt_pid t) level (mt_audio_levels t)\<rparr>
                       | None \<Rightarrow> t)
                 else t);
           m = \<lparr>fm_pt = ri_pt pkt, fm_seq_no = ri_seq_no pkt, fm_time = ri_timestamp pkt, fm_marker = ri_marker pkt,
                fm_payload = ri_payload pkt, fm_is_audio = is_audio, fm_is_screen = is_screen, fm_source_pid = mt_pid t,
                fm_wallclock = now, fm_ext_vals = ri_ext pkt\<rparr>;
           (out, cs') = forward_to_peers (mt_pid t) m peers cs in
       (out, t1, cs'))"

definition on_rtc_event ::
  "(rat \<Rightarrow> rat) \<Rightarrow> (nat \<Rightarrow> string) \<Rightarrow> u32 option \<Rightarrow> peers \<Rightarrow> time \<Rightarrow> rtc_event \<Rightarrow> media_task \<Rightarrow> counters \<Rightarrow> mids \<Rightarrow>
    effect list \<times> media_task \<times> counters \<times> mids" where
  "on_rtc_event rnd bwe_json screen_ssrc peers now ev t cs new_media =
    (case ev of
       Connected \<Rightarrow> ([], t\<lparr>mt_ice_connected := True\<rparr>, cs, new_media)
     | MediaAdded mid kind \<Rightarrow> ([], t, cs, new_media @ [(mid, kind)])
     | RtpPacketEvent pkt \<Rightarrow>
        (case on_rtp_packet rnd screen_ssrc peers now pkt t cs of (out, t', cs') \<Rightarrow> (out, t', cs', new_media))
     | EgressBitrateEstimate bitrate_bps \<Rightarrow>
        (if now - mt_last_bwe_notify t \<ge> millis 2000
         then ([SendWs (mt_ws_tx t) (bwe_json bitrate_bps)], t\<lparr>mt_last_bwe_notify := now\<rparr>, cs, new_media)
         else ([], t, cs, new_media))
     | KeyframeRequestEvent \<Rightarrow> (to_others (mt_pid t) peers RequestKeyframeCmd, t, cs, new_media)
     | IceConnectionStateChange state \<Rightarrow>
        ([], if state = IceChecking \<or> state = IceNew then t\<lparr>mt_ice_connected := False\<rparr> else t, cs, new_media)
     | RawPacket \<Rightarrow> ([], t\<lparr>mt_rtp_rx_count := mt_rtp_rx_count t + 1\<rparr>, cs, new_media)
     | OtherEvent \<Rightarrow> ([], t, cs, new_media))"

fun drain_loop ::
  "(rat \<Rightarrow> rat) \<Rightarrow> (nat \<Rightarrow> string) \<Rightarrow> u32 option \<Rightarrow> peers \<Rightarrow> time \<Rightarrow> rtc_output list \<Rightarrow> media_task \<Rightarrow> counters \<Rightarrow> mids \<Rightarrow>
    effect list \<times> media_task \<times> counters \<times> mids \<times> time option" where
  \<comment> \<open>the outputs end with the first timeout or error; an unfinished list stands for one that ends in an error\<close>
  "drain_loop rnd bwe_json screen_ssrc peers now [] t cs new_media = ([], t, cs, new_media, None)"
| "drain_loop rnd bwe_json screen_ssrc peers now (Transmit contents dest # outs) t cs new_media =
    (case drain_loop rnd bwe_json screen_ssrc peers now outs t cs new_media of
       (out, r) \<Rightarrow> (SendUdp contents dest # out, r))"
| "drain_loop rnd bwe_json screen_ssrc peers now (EventOut ev # outs) t cs new_media =
    (case on_rtc_event rnd bwe_json screen_ssrc peers now ev t cs new_media of
       (out1, t1, cs1, new_media1) \<Rightarrow>
        (case drain_loop rnd bwe_json screen_ssrc peers now outs t1 cs1 new_media1 of (out2, r) \<Rightarrow> (out1 @ out2, r)))"
| "drain_loop rnd bwe_json screen_ssrc peers now (TimeoutAt at_time # outs) t cs new_media = ([], t, cs, new_media, Some at_time)"
| "drain_loop rnd bwe_json screen_ssrc peers now (PollError # outs) t cs new_media = ([], t, cs, new_media, None)"

definition drain_outputs ::
  "(rat \<Rightarrow> rat) \<Rightarrow> (nat \<Rightarrow> string) \<Rightarrow> rtc_view \<Rightarrow> peers \<Rightarrow> time \<Rightarrow> rtc_output list \<Rightarrow> media_task \<Rightarrow> counters \<Rightarrow>
    effect list \<times> media_task \<times> counters \<times> mids \<times> time option" where
  "drain_outputs rnd bwe_json v peers now outs t cs =
    (let screen_ssrc = Option.bind (ow_screen (mt_own t)) (rv_rx v) in
     drain_loop rnd bwe_json screen_ssrc peers now outs t cs [])"

section \<open>The loop\<close>

text \<open>What one iteration of the loop meets: the session, the peers, the clock, the outputs of the session
(those of a renegotiation apart), and what the \<open>select!\<close> yields, a command, the end of the command channel,
or the timer.\<close>

datatype media_input = Cmd peer_cmd | CmdClosed | Tick

record media_round =
  rd_view :: rtc_view
  rd_peers :: peers
  rd_now :: time
  rd_outs :: "rtc_output list"
  rd_reneg_outs :: "rtc_output list"
  rd_input :: media_input

record media_env =
  en_rnd :: "rat \<Rightarrow> rat"
  en_bwe_json :: "nat \<Rightarrow> string"
  en_ser :: serialiser
  en_mid_show :: "mid \<Rightarrow> string"
  en_mid_of :: "string \<Rightarrow> mid"

definition before_select ::
  "media_env \<Rightarrow> media_round \<Rightarrow> media_task \<Rightarrow> counters \<Rightarrow> effect list \<times> media_task \<times> counters" where
  "before_select env rd t0 cs0 =
    (case drain_outputs (en_rnd env) (en_bwe_json env) (rd_view rd) (rd_peers rd) (rd_now rd) (rd_outs rd) t0 cs0 of
       (out1, t1, cs1, new_media, _) \<Rightarrow>
         let t2 = process_new_media new_media t1;
             (out3, t3) = start_media (rd_view rd) (rd_peers rd) t2;
             (out4, t4) = pli_burst (rd_view rd) (rd_peers rd) (rd_now rd) t3 in
         (RtcTimeout (rd_now rd) # out1 @ out3 @ out4, t4, cs1))"

definition on_cmd :: "media_env \<Rightarrow> media_round \<Rightarrow> peer_cmd \<Rightarrow> media_task \<Rightarrow> counters \<Rightarrow> effect list \<times> media_task \<times> counters" where
  "on_cmd env rd cmd t cs =
    (case cmd of
       UdpPacket data source \<Rightarrow> (case on_udp_packet (rd_view rd) (rd_now rd) data source t of (out, t') \<Rightarrow> (out, t', cs))
     | IceCandidateCmd c \<Rightarrow> (case on_ice_candidate (rd_view rd) c t of (out, t') \<Rightarrow> (out, t', cs))
     | Media m \<Rightarrow>
        (case on_media (en_ser env) (en_mid_show env) (rd_view rd) (rd_peers rd) (rd_now rd) m t of
           (out, t') \<Rightarrow> (out, t', release_media_slot t m cs))
     | RequestKeyframeCmd \<Rightarrow> (case on_request_keyframe (rd_view rd) t of (out, t') \<Rightarrow> (out, t', cs))
     | RenegotiationOffer sdp reply_tx \<Rightarrow>
        (case on_renegotiation_offer (en_mid_of env) (rd_view rd) (rd_reneg_outs rd) (rd_peers rd) (rd_now rd) sdp reply_tx t of
           (out, t') \<Rightarrow> (out, t', cs))
     | ScreenShareActive active \<Rightarrow> ([], on_screen_share_active active t, cs)
     | SetMuted is_muted \<Rightarrow> ([], on_set_muted is_muted t, cs)
     | PeerMuteChanged peer_pid is_muted \<Rightarrow> ([], on_peer_mute_changed peer_pid is_muted t, cs)
     | PeerLeftCmd left_pid \<Rightarrow> ([], on_peer_left left_pid t, cs)
     | SourceScreenStopped source_pid \<Rightarrow> ([], on_source_screen_stopped source_pid t, cs)
     | PeerCountChanged n \<Rightarrow> (case on_peer_count_changed (en_ser env) (rd_view rd) n t of (out, t') \<Rightarrow> (out, t', cs)))"

definition media_round_step ::
  "media_env \<Rightarrow> media_round \<Rightarrow> media_task \<Rightarrow> counters \<Rightarrow> bool \<times> effect list \<times> media_task \<times> counters" where
  \<comment> \<open>one iteration; the flag is whether the loop goes on\<close>
  "media_round_step env rd t0 cs0 =
    (let (out1, t1, cs1) = before_select env rd t0 cs0 in
     if \<not> rv_alive (rd_view rd) then (False, out1, t1, cs1)
     else case rd_input rd of
       Cmd cmd \<Rightarrow> (case on_cmd env rd cmd t1 cs1 of (out2, t2, cs2) \<Rightarrow> (True, out1 @ out2, t2, cs2))
     | CmdClosed \<Rightarrow> (False, out1, t1, cs1)
     | Tick \<Rightarrow> (case on_tick (en_rnd env) (en_ser env) (rd_view rd) (rd_peers rd) (rd_now rd) t1 of
                 (out2, t2) \<Rightarrow> (True, out1 @ out2, t2, cs1)))"

fun media_loop :: "media_env \<Rightarrow> media_round list \<Rightarrow> media_task \<Rightarrow> counters \<Rightarrow> effect list \<times> media_task \<times> counters" where
  "media_loop env [] t cs = ([], t, cs)"
| "media_loop env (rd # rds) t cs =
    (case media_round_step env rd t cs of
       (goes_on, out, t', cs') \<Rightarrow>
         if goes_on then (case media_loop env rds t' cs' of (out', r) \<Rightarrow> (out @ out', r)) else (out, t', cs'))"

definition task_exit :: "participant_id \<Rightarrow> nat \<Rightarrow> peers \<Rightarrow> peers" where
  "task_exit pid my_gen peers =
    (case hm_get peers pid of
       Some peer \<Rightarrow> if sp_gen peer = my_gen then hm_remove pid peers else peers
     | None \<Rightarrow> peers)"

end
