(* ===== verification/Sfu_Server.thy ===== *)
theory Sfu_Server
  imports Sfu_Media
begin

text \<open>
  \<open>seameet-sfu/src/lib.rs\<close>: the server's state, its two signaling hooks, one definition per message, and the
  interpretation of the engine's contract on them.

  The peers of a room live behind an \<open>Arc\<close> that media tasks keep after the room is gone, so a room holds the
  address of a map in the store \<open>su_peer_maps\<close>. Commands to media tasks and spawned tasks are logged in
  order. What is not under the repository is an argument (\<open>sfu_env\<close>): the serialiser, \<open>answer\<close> (building an
  \<open>Rtc\<close> and accepting a first offer), \<open>reply\<close> (what the participant's media task answers to a renegotiation),
  \<open>mid_of\<close> and the clock.
\<close>

section \<open>State\<close>

record peer_session =
  se_has_media_task :: bool
  se_current_room_id :: "string option"

record sfu_server =
  su_rooms :: "(string, nat) hmap"
  su_peer_maps :: "(nat, peers) hmap"
  su_next_map :: nat
  su_all_peers :: peers
  su_routes :: route_table
  su_sessions :: "(participant_id, peer_session) hmap"
  su_next_peer_gen :: nat
  su_fresh :: nat
  su_cmds :: "(chan \<times> peer_cmd) list"
  su_tasks :: "(nat \<times> media_task) list"

record sfu_env =
  ev_ser :: serialiser
  ev_answer :: "string \<Rightarrow> string option"
  ev_reply :: "participant_id \<Rightarrow> string \<Rightarrow> string option"
  ev_mid_of :: "string \<Rightarrow> mid"
  ev_now :: time

definition sfu_new :: sfu_server where
  "sfu_new = \<lparr>su_rooms = [], su_peer_maps = [], su_next_map = 0, su_all_peers = [], su_routes = [], su_sessions = [],
     su_next_peer_gen = 1, su_fresh = 0, su_cmds = [], su_tasks = []\<rparr>"

definition peers_at :: "nat \<Rightarrow> sfu_server \<Rightarrow> peers" where
  "peers_at a su = (case hm_get (su_peer_maps su) a of Some p \<Rightarrow> p | None \<Rightarrow> [])"

definition put_peers :: "nat \<Rightarrow> peers \<Rightarrow> sfu_server \<Rightarrow> sfu_server" where
  "put_peers a p su = su\<lparr>su_peer_maps := hm_insert a p (su_peer_maps su)\<rparr>"

definition room_peers_for :: "participant_id \<Rightarrow> sfu_server \<Rightarrow> nat option" where
  "room_peers_for pid su =
    (case hm_get (su_sessions su) pid of
       Some s \<Rightarrow> (case se_current_room_id s of Some room_id \<Rightarrow> hm_get (su_rooms su) room_id | None \<Rightarrow> None)
     | None \<Rightarrow> None)"

definition room_peers :: "participant_id \<Rightarrow> sfu_server \<Rightarrow> peers" where
  \<comment> \<open>the peers an \<open>if let Some(room_peers) = self.room_peers_for(&pid)\<close> iterates over\<close>
  "room_peers pid su = (case room_peers_for pid su of Some a \<Rightarrow> peers_at a su | None \<Rightarrow> [])"

definition send_cmds :: "(chan \<times> peer_cmd) list \<Rightarrow> sfu_server \<Rightarrow> sfu_server" where
  "send_cmds cs su = su\<lparr>su_cmds := su_cmds su @ cs\<rparr>"

definition cmd_to :: "participant_id \<Rightarrow> peer_cmd \<Rightarrow> peers \<Rightarrow> (chan \<times> peer_cmd) list" where
  "cmd_to i cmd p = (case hm_get p i of Some peer \<Rightarrow> [(sp_cmd_tx peer, cmd)] | None \<Rightarrow> [])"

definition cmd_except :: "participant_id \<Rightarrow> peer_cmd \<Rightarrow> peers \<Rightarrow> (chan \<times> peer_cmd) list" where
  "cmd_except i cmd p = map (\<lambda>e. (sp_cmd_tx (snd e), cmd)) (filter (\<lambda>e. fst e \<noteq> i) p)"

definition ws_except :: "serialiser \<Rightarrow> participant_id \<Rightarrow> sdp_message \<Rightarrow> peers \<Rightarrow> outbox" where
  "ws_except ser i msg p =
    (case ser msg of Some json \<Rightarrow> map (\<lambda>e. (sp_ws_tx (snd e), json)) (filter (\<lambda>e. fst e \<noteq> i) p) | None \<Rightarrow> [])"

section \<open>Offers\<close>

definition renegotiate_offer :: "sfu_env \<Rightarrow> string \<Rightarrow> participant_id \<Rightarrow> chan \<Rightarrow> nat \<Rightarrow> sfu_server \<Rightarrow> outbox \<times> sfu_server" where
  "renegotiate_offer env sdp pid self_tx a su =
    (case hm_get (peers_at a su) pid of
       Some peer \<Rightarrow>
         ((case ev_reply env pid sdp of
             Some answer_sdp \<Rightarrow> if answer_sdp \<noteq> [] then send_msg (ev_ser env) self_tx (Answer pid pid ''sfu'' answer_sdp) else []
           | None \<Rightarrow> []),
          (send_cmds [(sp_cmd_tx peer, RenegotiationOffer sdp (su_fresh su))] su)\<lparr>su_fresh := su_fresh su + 1\<rparr>)
     | None \<Rightarrow> ([], su))"

definition new_peer :: "chan \<Rightarrow> sfu_server \<Rightarrow> sfu_peer" where
  "new_peer self_tx su =
     \<lparr>sp_cmd_tx = su_fresh su, sp_ws_tx = self_tx, sp_gen = su_next_peer_gen su, sp_audio_inflight = su_fresh su,
      sp_video_inflight = su_fresh su + 1\<rparr>"

definition install_peer :: "participant_id \<Rightarrow> sfu_peer \<Rightarrow> nat \<Rightarrow> sfu_server \<Rightarrow> sfu_server" where
  "install_peer pid peer a su =
    (let su1 = put_peers a (hm_insert pid peer (peers_at a su)) su in
     su1\<lparr>su_next_peer_gen := su_next_peer_gen su + 1, su_fresh := su_fresh su + 2,
         su_all_peers := hm_insert pid peer (su_all_peers su),
         su_sessions := hm_modify pid (\<lambda>s. s\<lparr>se_has_media_task := True\<rparr>) (su_sessions su)\<rparr>)"

definition spawn_media :: "sfu_env \<Rightarrow> participant_id \<Rightarrow> sfu_peer \<Rightarrow> nat \<Rightarrow> string \<Rightarrow> sfu_server \<Rightarrow> sfu_server" where
  "spawn_media env pid peer a answer_sdp su =
    (let (own_audio_pt, own_video_pt) = parse_pts_from_sdp answer_sdp;
         room_id = (case hm_get (su_sessions su) pid of
                      Some s \<Rightarrow> (case se_current_room_id s of Some rid \<Rightarrow> rid | None \<Rightarrow> []) | None \<Rightarrow> []);
         task = process_initial_mids (parse_mids_from_sdp (ev_mid_of env) answer_sdp)
                  (task_new pid (sp_ws_tx peer) room_id (sp_gen peer) (sp_audio_inflight peer) (sp_video_inflight peer)
                    (case own_audio_pt of Some n \<Rightarrow> n | None \<Rightarrow> 111) (case own_video_pt of Some n \<Rightarrow> n | None \<Rightarrow> 96) (ev_now env)) in
     su\<lparr>su_tasks := su_tasks su @ [(a, task)]\<rparr>)"

definition first_offer :: "sfu_env \<Rightarrow> string \<Rightarrow> participant_id \<Rightarrow> chan \<Rightarrow> nat \<Rightarrow> sfu_server \<Rightarrow> outbox \<times> sfu_server" where
  "first_offer env sdp pid self_tx a su =
    (case ev_answer env (patch_sdp_directions sdp) of
       None \<Rightarrow> ([], su)
     | Some answer_sdp \<Rightarrow>
         let peer = new_peer self_tx su in
         (send_msg (ev_ser env) self_tx (Answer pid pid ''sfu'' answer_sdp),
          spawn_media env pid peer a answer_sdp (install_peer pid peer a su)))"

definition on_offer :: "sfu_env \<Rightarrow> string \<Rightarrow> participant_id \<Rightarrow> chan \<Rightarrow> sfu_server \<Rightarrow> outbox \<times> sfu_server" where
  "on_offer env sdp pid self_tx su =
    (let has_media = (case hm_get (su_sessions su) pid of Some s \<Rightarrow> se_has_media_task s | None \<Rightarrow> False) in
     case room_peers_for pid su of
       None \<Rightarrow> ([], su)
     | Some a \<Rightarrow> if has_media then renegotiate_offer env sdp pid self_tx a su else first_offer env sdp pid self_tx a su)"

section \<open>Media state\<close>

definition set_and_broadcast :: "serialiser \<Rightarrow> string \<Rightarrow> (room \<Rightarrow> room) \<Rightarrow> signaling_state \<Rightarrow> outbox \<times> signaling_state" where
  \<comment> \<open>\<open>if let Some(room) = st.room_mut(room_id) { room.set_..(..) } broadcast_room_status(&st, room_id);\<close>\<close>
  "set_and_broadcast ser rid f st = (let st' = update_room rid f st in (broadcast_room_status ser rid st', st'))"

definition on_screen_share ::
  "sfu_env \<Rightarrow> bool \<Rightarrow> participant_id \<Rightarrow> string \<Rightarrow> u32 \<Rightarrow> participant_id \<Rightarrow> sfu_server \<times> signaling_state \<Rightarrow>
    outbox \<times> sfu_server \<times> signaling_state" where
  "on_screen_share env started from_pid room_id track_id pid hs =
    (case hs of (su, st) \<Rightarrow>
      let p = room_peers pid su;
          msg = (if started then ScreenShareStarted from_pid room_id track_id else ScreenShareStopped from_pid room_id track_id);
          stopped = (if started \<or> ev_ser env msg = None then [] else cmd_except pid (SourceScreenStopped from_pid) p);
          (status, st') = set_and_broadcast (ev_ser env) room_id (set_screen_sharing pid started) st in
      (ws_except (ev_ser env) pid msg p @ status,
       send_cmds (cmd_to from_pid (ScreenShareActive started) p @ stopped) su, st'))"

definition on_mute_audio ::
  "sfu_env \<Rightarrow> bool \<Rightarrow> participant_id \<Rightarrow> string \<Rightarrow> participant_id \<Rightarrow> sfu_server \<times> signaling_state \<Rightarrow>
    outbox \<times> sfu_server \<times> signaling_state" where
  "on_mute_audio env muted from_pid room_id pid hs =
    (case hs of (su, st) \<Rightarrow>
      let p = room_peers pid su;
          (status, st') = set_and_broadcast (ev_ser env) room_id (set_audio_muted pid muted) st in
      (status, send_cmds (cmd_to from_pid (SetMuted muted) p @ cmd_except from_pid (PeerMuteChanged from_pid muted) p) su, st'))"

definition on_mute_video ::
  "sfu_env \<Rightarrow> bool \<Rightarrow> string \<Rightarrow> participant_id \<Rightarrow> sfu_server \<times> signaling_state \<Rightarrow> outbox \<times> sfu_server \<times> signaling_state" where
  "on_mute_video env muted room_id pid hs =
    (case hs of (su, st) \<Rightarrow>
      (case set_and_broadcast (ev_ser env) room_id (set_video_muted pid muted) st of (out, st') \<Rightarrow> (out, su, st')))"

definition on_video_config_changed ::
  "sfu_env \<Rightarrow> participant_id \<Rightarrow> string \<Rightarrow> u32 \<Rightarrow> u32 \<Rightarrow> u32 \<Rightarrow> participant_id \<Rightarrow> sfu_server \<Rightarrow> outbox" where
  "on_video_config_changed env from_pid room_id width height fps pid su =
    ws_except (ev_ser env) pid (VideoConfigChanged from_pid room_id width height fps) (room_peers pid su)"

section \<open>Commands to one task\<close>

definition forward_ice_candidate :: "string \<Rightarrow> participant_id \<Rightarrow> sfu_server \<Rightarrow> sfu_server" where
  "forward_ice_candidate candidate pid su = send_cmds (cmd_to pid (IceCandidateCmd candidate) (su_all_peers su)) su"

definition forward_keyframe_request :: "participant_id \<Rightarrow> participant_id \<Rightarrow> sfu_server \<Rightarrow> sfu_server" where
  "forward_keyframe_request target pid su = send_cmds (cmd_to target RequestKeyframeCmd (room_peers pid su)) su"

lemmas sfu_small_handlers [simp] =
  on_mute_video_def on_video_config_changed_def forward_ice_candidate_def forward_keyframe_request_def

section \<open>Joining\<close>

definition notify_pruned :: "string \<Rightarrow> participant_id list \<Rightarrow> sfu_server \<Rightarrow> sfu_server" where
  "notify_pruned room_id pruned su =
    (case hm_get (su_rooms su) room_id of
       Some a \<Rightarrow> send_cmds (concat (map (\<lambda>stale. cmd_except stale (PeerLeftCmd stale) (peers_at a su)) pruned)) su
     | None \<Rightarrow> su)"

definition notify_rejoin :: "string \<Rightarrow> participant_id list \<Rightarrow> participant_id \<Rightarrow> sfu_server \<Rightarrow> sfu_server" where
  "notify_rejoin room_id pruned pid su =
    (if pid \<in> set pruned then su
     else case hm_get (su_rooms su) room_id of
       Some a \<Rightarrow> if hm_contains (peers_at a su) pid then send_cmds (cmd_except pid (PeerLeftCmd pid) (peers_at a su)) su else su
     | None \<Rightarrow> su)"

definition ensure_room :: "string \<Rightarrow> sfu_server \<Rightarrow> sfu_server" where
  \<comment> \<open>\<open>r.entry(room_id.clone()).or_insert_with(RoomState::new)\<close>\<close>
  "ensure_room room_id su =
    (case hm_get (su_rooms su) room_id of
       Some _ \<Rightarrow> su
     | None \<Rightarrow> su\<lparr>su_rooms := hm_insert room_id (su_next_map su) (su_rooms su),
                 su_peer_maps := hm_insert (su_next_map su) [] (su_peer_maps su), su_next_map := su_next_map su + 1\<rparr>)"

definition notify_count :: "string \<Rightarrow> sfu_server \<Rightarrow> sfu_server" where
  "notify_count room_id su =
    (case hm_get (su_rooms su) room_id of
       Some a \<Rightarrow> send_cmds (map (\<lambda>e. (sp_cmd_tx (snd e), PeerCountChanged (hm_len (peers_at a su)))) (peers_at a su)) su
     | None \<Rightarrow> su)"

definition on_join :: "(chan \<Rightarrow> bool) \<Rightarrow> string \<Rightarrow> participant_id \<Rightarrow> sfu_server \<times> signaling_state \<Rightarrow> sfu_server \<times> signaling_state" where
  "on_join is_closed room_id pid hs =
    (case hs of (su, st) \<Rightarrow>
      let pruned = (case state_room st room_id of Some r \<Rightarrow> fst (prune_stale is_closed r) | None \<Rightarrow> []);
          st' = update_room room_id (\<lambda>r. snd (prune_stale is_closed r)) st;
          su1 = (if pruned \<noteq> [] then notify_pruned room_id pruned su else su);
          su2 = ensure_room room_id (notify_rejoin room_id pruned pid su1);
          su3 = su2\<lparr>su_sessions := hm_insert pid \<lparr>se_has_media_task = False, se_current_room_id = Some room_id\<rparr> (su_sessions su2)\<rparr> in
      (notify_count room_id su3, st'))"

section \<open>The hooks\<close>

definition sfu_on_message ::
  "sfu_env \<Rightarrow> (chan \<Rightarrow> bool) \<Rightarrow> sdp_message \<Rightarrow> string \<Rightarrow> participant_id \<Rightarrow> chan \<Rightarrow> sfu_server \<times> signaling_state \<Rightarrow>
    bool \<times> outbox \<times> sfu_server \<times> signaling_state" where
  "sfu_on_message env is_closed sdp raw pid self_tx hs =
    (case hs of (su, st) \<Rightarrow>
      (case sdp of
         Offer _ _ _ offer_sdp \<Rightarrow> (case on_offer env offer_sdp pid self_tx su of (out, su') \<Rightarrow> (True, out, su', st))
       | IceCandidate _ _ _ candidate _ _ \<Rightarrow>
          (True, [], forward_ice_candidate candidate pid su, st)
       | RequestKeyframe _ target _ \<Rightarrow> (True, [], forward_keyframe_request target pid su, st)
       | ScreenShareStarted from_pid room_id track_id \<Rightarrow> (True, on_screen_share env True from_pid room_id track_id pid (su, st))
       | ScreenShareStopped from_pid room_id track_id \<Rightarrow> (True, on_screen_share env False from_pid room_id track_id pid (su, st))
       | MuteAudio from_pid room_id \<Rightarrow> (True, on_mute_audio env True from_pid room_id pid (su, st))
       | UnmuteAudio from_pid room_id \<Rightarrow> (True, on_mute_audio env False from_pid room_id pid (su, st))
       | MuteVideo _ room_id \<Rightarrow> (True, on_mute_video env True room_id pid (su, st))
       | UnmuteVideo _ room_id \<Rightarrow> (True, on_mute_video env False room_id pid (su, st))
       | VideoConfigChanged from_pid room_id width height fps \<Rightarrow>
          (True, on_video_config_changed env from_pid room_id width height fps pid su, su, st)
       | Join _ room_id _ _ \<Rightarrow> (case on_join is_closed room_id pid (su, st) of (su', st') \<Rightarrow> (False, [], su', st'))
       | _ \<Rightarrow> (False, [], su, st)))"

definition leave_room ::
  "serialiser \<Rightarrow> participant_id \<Rightarrow> string \<times> bool \<Rightarrow> outbox \<times> sfu_server \<Rightarrow> outbox \<times> sfu_server" where
  \<comment> \<open>one iteration of the loop of \<open>on_disconnect\<close>\<close>
  "leave_room ser pid affected os =
    (case (affected, os) of ((room_id, room_empty), (out, su)) \<Rightarrow>
      let (out1, su1) =
           (case hm_get (su_rooms su) room_id of
              Some a \<Rightarrow>
                let p = peers_at a su; msg = ScreenShareStopped pid room_id 0;
                    left = (if ser msg = None then [] else cmd_except pid (PeerLeftCmd pid) p) in
                (out @ ws_except ser pid msg p, put_peers a (hm_remove pid p) (send_cmds left su))
            | None \<Rightarrow> (out, su)) in
      (out1, if room_empty then su1\<lparr>su_rooms := hm_remove room_id (su_rooms su1)\<rparr> else su1))"

definition sfu_on_disconnect ::
  "sfu_env \<Rightarrow> participant_id \<Rightarrow> (string \<times> bool) list \<Rightarrow> sfu_server \<times> signaling_state \<Rightarrow> outbox \<times> sfu_server \<times> signaling_state" where
  "sfu_on_disconnect env pid affected_rooms hs =
    (case hs of (su0, st) \<Rightarrow>
      let su = su0\<lparr>su_routes := filter (\<lambda>e. snd e \<noteq> pid) (su_routes su0), su_all_peers := hm_remove pid (su_all_peers su0)\<rparr>;
          (out, su1) = fold (leave_room (ev_ser env) pid) affected_rooms ([], su) in
      (out, su1\<lparr>su_sessions := hm_remove pid (su_sessions su1)\<rparr>, st))"

definition sfu_hooks :: "sfu_env \<Rightarrow> sfu_server hooks" where
  "sfu_hooks env = noop_hooks\<lparr>hk_on_message := sfu_on_message env, hk_on_disconnect := sfu_on_disconnect env\<rparr>"

section \<open>The contract of the hooks\<close>

text \<open>The hooks touch the signaling state only by media flags and by pruning closed members.\<close>

lemma state_inv_set_and_broadcast:
  "state_inv st \<Longrightarrow> (\<And>c r. room_inv c rid r \<Longrightarrow> room_inv c rid (f r)) \<Longrightarrow> state_inv (snd (set_and_broadcast ser rid f st))"
  by (simp add: set_and_broadcast_def Let_def state_inv_update_room)

lemma sfu_state_changes:
  assumes "sfu_on_message env is_closed sdp raw pid tx (su, st) = (handled, out, su', st')"
  shows "st' = st \<or> (\<exists>rid i f. st' = update_room rid (update_media i f) st) \<or>
    (\<exists>rid. st' = update_room rid (\<lambda>r. snd (prune_stale is_closed r)) st)"
  using assms
  by (cases sdp)
    (auto simp: sfu_on_message_def on_screen_share_def on_mute_audio_def set_and_broadcast_def on_join_def media_setters
      Let_def split: prod.splits)

lemma sfu_disconnect_state: "sfu_on_disconnect env pid affected (su, st) = (out, su', st') \<Longrightarrow> st' = st"
  by (auto simp: sfu_on_disconnect_def Let_def split: prod.splits)

lemma room_limits_prune:
  "hm_wf (rm_members r) \<Longrightarrow> room_limits False maxm maxh r \<Longrightarrow> room_limits False maxm maxh (snd (prune_stale is_closed r))"
  using prune_stale_count [of r is_closed] by (auto simp: room_limits_def)

lemma limits_prune:
  assumes "state_inv st" "within_limits False maxm maxh st"
  shows "within_limits False maxm maxh (update_room rid (\<lambda>r. snd (prune_stale is_closed r)) st)"
proof -
  have "room_limits False maxm maxh r" if "hm_get (st_rooms (update_room rid (\<lambda>r. snd (prune_stale is_closed r)) st)) rid' = Some r" for rid' r
    using that assms by (auto simp: update_room_get within_limits_iff room_limits_prune state_inv_room split: if_splits)
  then show ?thesis
    by (simp add: within_limits_iff state_inv_prune assms(1))
qed

lemma sfu_message_keeps:
  assumes "state_inv st" "sfu_on_message env is_closed sdp raw pid tx (su, st) = (handled, out, su', st')"
  shows "state_inv st'" and "within_limits False maxm maxh st \<Longrightarrow> within_limits False maxm maxh st'"
proof -
  consider "st' = st" | rid i f where "st' = update_room rid (update_media i f) st"
    | rid where "st' = update_room rid (\<lambda>r. snd (prune_stale is_closed r)) st"
    using sfu_state_changes [OF assms(2)] by blast
  then have "state_inv st' \<and> (within_limits False maxm maxh st \<longrightarrow> within_limits False maxm maxh st')"
  proof cases
    case 2
    then show ?thesis
      using assms(1) by (auto intro!: state_inv_update_room limits_update_room simp: room_inv_media room_limits_media)
  next
    case 3
    then show ?thesis
      using assms(1) by (simp add: state_inv_prune limits_prune)
  qed (use assms(1) in simp)
  then show "state_inv st'" and "within_limits False maxm maxh st \<Longrightarrow> within_limits False maxm maxh st'"
    by blast+
qed

interpretation sfu: signaling_hooks "sfu_hooks env" False
proof (unfold_locales, goal_cases)
  case (1 st is_closed sdp raw pid tx h handled out h' st')
  then show ?case
    using sfu_message_keeps(1) [OF 1(1)] by (simp add: sfu_hooks_def)
next
  case (2 st maxm maxh is_closed sdp raw pid tx h handled out h' st')
  then show ?case
    using sfu_message_keeps(2) [OF 2(1)] by (simp add: sfu_hooks_def)
next
  case (3 st pid affected h out h' st')
  then show ?case
    by (auto simp: sfu_hooks_def dest: sfu_disconnect_state)
next
  case (4 st maxm maxh pid affected h out h' st')
  then show ?case
    by (auto simp: sfu_hooks_def dest: sfu_disconnect_state)
qed

end
