(* ===== verification/Sfu_Flow.thy ===== *)
theory Sfu_Flow
  imports Sfu_Media
begin

text \<open>
  Flow control and routing of the media tasks: the in-flight counters under concurrency, what a muted
  participant still sends, where a datagram goes, the announcements of the active speaker, the buffer of
  packets that wait for a renegotiation, and the removal of a finished task.
\<close>

section \<open>In-flight packets\<close>

text \<open>
  \<open>try_reserve_media_slot\<close> is a load and a later \<open>fetch_add\<close>, so tasks interleave between the two. A state
  counts the packets in flight and the tasks that have passed the check and not yet added; \<open>n\<close> tasks send to
  the same peer, and its own task releases a packet at a time.
\<close>

record inflight_state =
  if_count :: nat
  if_passed :: nat

definition reserve_load :: "nat \<Rightarrow> inflight_state \<Rightarrow> inflight_state option" where
  "reserve_load cap s = (if if_count s \<ge> cap then None else Some (s\<lparr>if_passed := if_passed s + 1\<rparr>))"

definition reserve_add :: "inflight_state \<Rightarrow> inflight_state" where
  "reserve_add s = s\<lparr>if_count := if_count s + 1, if_passed := if_passed s - 1\<rparr>"

definition release_one :: "inflight_state \<Rightarrow> inflight_state" where
  "release_one s = s\<lparr>if_count := if_count s - 1\<rparr>"

inductive inflight_reach :: "nat \<Rightarrow> nat \<Rightarrow> inflight_state \<Rightarrow> bool" for cap n where
  inflight_start: "inflight_reach cap n \<lparr>if_count = 0, if_passed = 0\<rparr>"
| inflight_load: "inflight_reach cap n s \<Longrightarrow> if_passed s < n \<Longrightarrow> reserve_load cap s = Some s' \<Longrightarrow> inflight_reach cap n s'"
| inflight_add: "inflight_reach cap n s \<Longrightarrow> 0 < if_passed s \<Longrightarrow> inflight_reach cap n (reserve_add s)"
| inflight_release: "inflight_reach cap n s \<Longrightarrow> 0 < if_count s \<Longrightarrow> inflight_reach cap n (release_one s)"

text \<open>One task that runs the two operations without interruption is the sequential definition.\<close>

lemma reserve_sequential:
  assumes "unat (cs c) < 2 ^ 64 - 1" "if_count s = unat (cs c)"
  shows "fst (try_reserve_media_slot c cap cs) \<longleftrightarrow> reserve_load (unat cap) s \<noteq> None"
    and "reserve_load (unat cap) s = Some s' \<Longrightarrow> unat (snd (try_reserve_media_slot c cap cs) c) = if_count (reserve_add s')"
proof -
  show "fst (try_reserve_media_slot c cap cs) \<longleftrightarrow> reserve_load (unat cap) s \<noteq> None"
    using assms(2) by (simp add: try_reserve_media_slot_def reserve_load_def word_le_nat_alt)
  assume "reserve_load (unat cap) s = Some s'"
  then have "s' = s\<lparr>if_passed := if_passed s + 1\<rparr>" "\<not> cap \<le> cs c"
    using assms(2) by (auto simp: reserve_load_def word_le_nat_alt split: if_splits)
  then show "unat (snd (try_reserve_media_slot c cap cs) c) = if_count (reserve_add s')"
    using assms by (simp add: try_reserve_media_slot_def reserve_add_def unat_word_ariths)
qed

lemma inflight_sum: "inflight_reach cap n s \<Longrightarrow> if_count s + if_passed s \<le> cap + (n - 1) \<and> if_passed s \<le> n"
proof (induction rule: inflight_reach.induct)
  case (inflight_load s s')
  then show ?case
    by (auto simp: reserve_load_def split: if_splits)
qed (auto simp: reserve_add_def release_one_def)

text \<open>
  C35: However the tasks interleave, at most \<open>cap + n - 1\<close> packets are in flight to a peer when \<open>n\<close> tasks send
  to it: the cap itself for a single sender, and one more for each further sender.
\<close>

theorem inflight_bound:
  assumes "inflight_reach cap n s"
  shows "if_count s \<le> cap + (n - 1)"
  using inflight_sum [OF assms] by linarith

theorem inflight_bound_witness: "if_count (reserve_add \<lparr>if_count = 0, if_passed = 1\<rparr>) \<le> 128 + (2 - 1)"
proof (rule inflight_bound)
  have "inflight_reach 128 2 \<lparr>if_count = 0, if_passed = 1\<rparr>"
    by (rule inflight_load [OF inflight_start]) (simp_all add: reserve_load_def)
  then show "inflight_reach 128 2 (reserve_add \<lparr>if_count = 0, if_passed = 1\<rparr>)"
    by (rule inflight_add) simp
qed

text \<open>The bound is attained: two senders may both pass the check at 127 and bring the count to 129.\<close>

lemma inflight_overshoot: "inflight_reach (Suc c) 2 \<lparr>if_count = c, if_passed = 0\<rparr> \<Longrightarrow> inflight_reach (Suc c) 2 \<lparr>if_count = c + 2, if_passed = 0\<rparr>"
proof -
  assume "inflight_reach (Suc c) 2 \<lparr>if_count = c, if_passed = 0\<rparr>"
  then have "inflight_reach (Suc c) 2 \<lparr>if_count = c, if_passed = 1\<rparr>"
    by (rule inflight_load) (simp_all add: reserve_load_def)
  then have "inflight_reach (Suc c) 2 \<lparr>if_count = c, if_passed = 2\<rparr>"
    by (rule inflight_load) (simp_all add: reserve_load_def)
  then have "inflight_reach (Suc c) 2 (reserve_add \<lparr>if_count = c, if_passed = 2\<rparr>)"
    by (rule inflight_add) simp
  then have "inflight_reach (Suc c) 2 (reserve_add (reserve_add \<lparr>if_count = c, if_passed = 2\<rparr>))"
    by (rule inflight_add) (simp add: reserve_add_def)
  then show ?thesis
    by (simp add: reserve_add_def)
qed

section \<open>Muting\<close>

definition sends_audio :: "effect \<Rightarrow> bool" where
  "sends_audio e = (case e of SendCmd _ (Media m) \<Rightarrow> fm_is_audio m | _ \<Rightarrow> False)"

lemma forward_no_audio: "\<not> fm_is_audio m \<Longrightarrow> e \<in> set (fst (forward_to_peers pid m ps cs)) \<Longrightarrow> \<not> sends_audio e"
proof (induction ps arbitrary: cs)
  case (Cons p ps)
  then show ?case
    by (cases p) (auto simp: Let_def case_prod_unfold sends_audio_def split: if_splits)
qed simp

lemma rtp_packet_muted:
  assumes "mt_muted t" "on_rtp_packet rnd scr peers now pkt t cs = (out, t', cs')"
  shows "mt_muted t' \<and> (\<forall>e \<in> set out. \<not> sends_audio e)"
proof (cases "ri_pt pkt = ow_audio_pt (mt_own t)")
  case True
  then show ?thesis
    using assms by (auto simp: on_rtp_packet_def Let_def)
next
  case False
  let ?m = "\<lparr>fm_pt = ri_pt pkt, fm_seq_no = ri_seq_no pkt, fm_time = ri_timestamp pkt, fm_marker = ri_marker pkt,
      fm_payload = ri_payload pkt, fm_is_audio = False, fm_is_screen = (scr = Some (ri_ssrc pkt)),
      fm_source_pid = mt_pid t, fm_wallclock = now, fm_ext_vals = ri_ext pkt\<rparr>"
  have "out = fst (forward_to_peers (mt_pid t) ?m peers cs)" "mt_muted t'"
    using assms False by (auto simp: on_rtp_packet_def Let_def split: prod.splits)
  then show ?thesis
    using forward_no_audio [of ?m] by auto
qed

lemma to_others_no_audio: "e \<in> set (to_others pid peers RequestKeyframeCmd) \<Longrightarrow> \<not> sends_audio e"
  by (auto simp: to_others_def sends_audio_def split: if_splits)

lemma rtc_event_muted:
  assumes "mt_muted t" "on_rtc_event rnd bwe scr peers now ev t cs nm = (out, t', cs', nm')"
  shows "mt_muted t' \<and> (\<forall>e \<in> set out. \<not> sends_audio e)"
proof (cases ev)
  case (RtpPacketEvent pkt)
  then show ?thesis
    using assms rtp_packet_muted [OF assms(1)] by (auto simp: on_rtc_event_def split: prod.splits)
qed (use assms to_others_no_audio in \<open>auto simp: on_rtc_event_def sends_audio_def split: if_splits\<close>)

lemma drain_loop_muted:
  "drain_loop rnd bwe scr peers now outs t cs nm = (out, t', cs', nm', r) \<Longrightarrow> mt_muted t \<Longrightarrow>
     mt_muted t' \<and> (\<forall>e \<in> set out. \<not> sends_audio e)"
proof (induction rnd bwe scr peers now outs t cs nm arbitrary: out rule: drain_loop.induct)
  case (3 rnd bwe scr peers now ev outs t cs nm)
  obtain out1 t1 cs1 nm1 where e: "on_rtc_event rnd bwe scr peers now ev t cs nm = (out1, t1, cs1, nm1)"
    by (metis prod_cases4)
  obtain out2 where d: "drain_loop rnd bwe scr peers now outs t1 cs1 nm1 = (out2, t', cs', nm', r)" "out = out1 @ out2"
    using "3.prems"(1) e by (auto split: prod.splits)
  note m = rtc_event_muted [OF "3.prems"(2) e]
  show ?case
    using "3.IH" [OF e [symmetric] refl refl d(1)] m d(2) by auto
qed (auto simp: sends_audio_def split: prod.splits)


definition flow_view :: rtc_view where
  "flow_view = \<lparr>rv_rx = (\<lambda>_. None), rv_tx = (\<lambda>_. True), rv_accept = (\<lambda>_. None), rv_receive_ok = (\<lambda>_ _. True),
     rv_candidate_ok = (\<lambda>_. True), rv_alive = True\<rparr>"

definition flow_task :: media_task where
  "flow_task = (task_new (ParticipantId 1) 0 [] 1 0 1 111 96 0)\<lparr>mt_muted := True\<rparr>"

definition flow_packet :: rtp_in where
  "flow_packet = \<lparr>ri_version = 2, ri_has_padding = False, ri_has_extension = False, ri_pt = 111, ri_sequence_number = 0,
     ri_ssrc = 7, ri_seq_no = 0, ri_timestamp = 0, ri_marker = False, ri_payload = [1],
     ri_ext = \<lparr>ev_audio_level = Some 3, ev_other = 0\<rparr>\<rparr>"

definition flow_peers :: peers where
  "flow_peers = [(ParticipantId 2, \<lparr>sp_cmd_tx = 20, sp_ws_tx = 21, sp_gen = 1, sp_audio_inflight = 2, sp_video_inflight = 3\<rparr>)]"


section \<open>Datagrams\<close>

text \<open>
  A datagram from an address with a registered route reaches at most one task; from an unknown address it is
  offered to every task exactly once.
\<close>

lemma udp_route_count:
  "hm_get routes source = Some pid \<Longrightarrow> udp_route data source routes peers = to_peer pid peers (UdpPacket data source)"
  "hm_get routes source = None \<Longrightarrow> length (udp_route data source routes peers) = hm_len peers"
  by (auto simp: udp_route_def to_peer_def hm_len_def hm_values_def split: option.split)

section \<open>The end of a task\<close>

text \<open>
  A media task that ends removes its own entry from the peers of the room and never the entry of a
  newer task of the same participant, nor anybody else's.
\<close>

lemma task_exit_get [hmap_simps]:
  "hm_get (task_exit pid my_gen peers) i =
    (if i = pid \<and> map_option sp_gen (hm_get peers pid) = Some my_gen then None else hm_get peers i)"
  by (auto simp: task_exit_def split: option.splits)

lemma hm_wf_task_exit [simp]: "hm_wf peers \<Longrightarrow> hm_wf (task_exit pid my_gen peers)"
  by (simp add: task_exit_def split: option.splits)

section \<open>The active speaker\<close>

text \<open>A task records the level of its own participant only.\<close>

definition own_level_only :: "media_task \<Rightarrow> bool" where
  "own_level_only t \<longleftrightarrow> set (hm_keys (mt_audio_levels t)) \<subseteq> {mt_pid t}"

lemma own_level_update: "set (hm_keys levels) \<subseteq> {pid} \<Longrightarrow> set (hm_keys (update_level rnd pid l levels)) \<subseteq> {pid}"
  using hm_dom [of levels] hm_dom [of "update_level rnd pid l levels"] by (auto simp: update_level_def Let_def)

lemma loudest_in: "loudest levels = Some e \<Longrightarrow> e \<in> set levels"
proof -
  have "fold (\<lambda>e best. case best of None \<Rightarrow> Some e | Some b \<Rightarrow> if snd e \<ge> snd b then Some e else Some b) xs best = Some e \<Longrightarrow>
      e \<in> set xs \<or> best = Some e" for xs best and e :: "participant_id \<times> rat"
    by (induction xs arbitrary: best) (auto split: option.splits if_splits)
  then show "loudest levels = Some e \<Longrightarrow> e \<in> set levels"
    unfolding loudest_def by fastforce
qed

text \<open>
  Since the speaker a task announces can only be its own participant, and the announcement is made only when
  the speaker changes, a task announces at most once in its life: after that the periodic duty is silent.
\<close>

lemma speaker_announced_once:
  assumes "own_level_only t" "mt_current_active_speaker t = Some (mt_pid t)"
  shows "fst (active_speaker rnd ser peers now t) = []"
    and "own_level_only (snd (active_speaker rnd ser peers now t))"
    and "mt_current_active_speaker (snd (active_speaker rnd ser peers now t)) = Some (mt_pid t)"
proof -
  have l: "i = mt_pid t" if "loudest (mt_audio_levels t) = Some (i, level)" for i level
    using assms(1) loudest_in [OF that] by (force simp: own_level_only_def hm_keys_def)
  have b: "broadcast_speaker ser peers (t\<lparr>mt_last_speaker_broadcast := now\<rparr>) = ([], t\<lparr>mt_last_speaker_broadcast := now\<rparr>)"
    using l assms(2) by (auto simp: broadcast_speaker_def split: option.splits)
  have k: "hm_keys (map (\<lambda>(i, level). (i, g level)) xs) = hm_keys xs" for g and xs :: "(participant_id \<times> rat) list"
    by (auto simp: hm_keys_def)
  show "fst (active_speaker rnd ser peers now t) = []"
    using b by (simp add: active_speaker_def)
  show "own_level_only (snd (active_speaker rnd ser peers now t))"
    using b assms(1) by (simp add: active_speaker_def own_level_only_def k)
  show "mt_current_active_speaker (snd (active_speaker rnd ser peers now t)) = Some (mt_pid t)"
    using b assms(2) by (simp add: active_speaker_def)
qed

section \<open>Waiting packets\<close>

definition pending_ok :: "media_task \<Rightarrow> bool" where
  "pending_ok t \<longleftrightarrow> (\<forall>src buf. hm_get (mt_pending_media t) src = Some buf \<longrightarrow> length buf \<le> MEDIA_BUFFER_CAP)"

lemma pending_ok_buffer: "pending_ok t \<Longrightarrow> pending_ok (buffer_media m t)"
  unfolding pending_ok_def
  by (auto simp: buffer_media_def Let_def split: option.splits if_splits) (simp add: le_antisym not_less)

lemma pending_ok_cong: "mt_pending_media t' = mt_pending_media t \<Longrightarrow> pending_ok t' = pending_ok t"
  by (simp add: pending_ok_def)

lemma pending_write: "mt_pending_media (snd (write_media v m t)) = mt_pending_media t"
  by (simp add: write_media_def Let_def case_prod_unfold)

lemma pending_after_write: "mt_pending_media (snd (after_write ser ms peers now src had scr w)) = mt_pending_media (snd w)"
  by (simp add: after_write_def Let_def case_prod_unfold)

lemma pending_ok_on_media: "pending_ok t \<Longrightarrow> pending_ok (snd (on_media ser ms v peers now m t))"
proof -
  assume ok: "pending_ok t"
  then have ok1: "pending_ok (t\<lparr>mt_source_slots := slots\<rparr>)" for slots
    by (simp add: pending_ok_def)
  show ?thesis
    using ok pending_ok_buffer [OF ok1]
    by (auto simp: on_media_def Let_def case_prod_unfold pending_ok_def pending_after_write pending_write)
qed

lemma pending_flush_buffer: "mt_pending_media (snd (flush_buffer v now ms t)) = mt_pending_media t"
  by (induction ms arbitrary: t) (simp_all add: Let_def case_prod_unfold pending_write)

lemma pending_ok_flush: "pending_ok t \<Longrightarrow> pending_ok (snd (flush_sources v peers now srcs t))"
proof (induction srcs arbitrary: t)
  case (Cons src srcs)
  have "pending_ok (t\<lparr>mt_pending_media := hm_remove src (mt_pending_media t)\<rparr>)"
    using Cons.prems by (auto simp: pending_ok_def)
  then have "pending_ok (snd (flush_buffer v now buf (t\<lparr>mt_pending_media := hm_remove src (mt_pending_media t)\<rparr>)))" for buf
    using pending_ok_cong [OF pending_flush_buffer] by blast
  then show ?case
    using Cons by (simp add: Let_def case_prod_unfold split: option.split)
qed simp

lemma pending_renegotiated: "mt_pending_media (fold assign_renegotiated ms t) = mt_pending_media t"
  by (induction ms arbitrary: t) (auto simp: assign_renegotiated_def split: prod.splits media_kind.splits)

lemma pending_ok_renegotiation:
  "pending_ok t \<Longrightarrow> pending_ok (snd (on_renegotiation_offer mid_of v outs peers now sdp reply t))"
  using pending_ok_flush pending_ok_cong [of "fold assign_renegotiated ms (t\<lparr>mt_all_mids := all\<rparr>)" t for ms all]
  by (auto simp: on_renegotiation_offer_def Let_def case_prod_unfold pending_renegotiated)

lemma pending_ok_cmd:
  assumes "pending_ok t" "on_cmd env rd cmd t cs = (out, t', cs')"
  shows "pending_ok t'"
proof (cases cmd)
  case (Media m)
  then show ?thesis
    using assms pending_ok_on_media [OF assms(1), of "en_ser env" "en_mid_show env" "rd_view rd" "rd_peers rd" "rd_now rd" m]
    by (auto simp: on_cmd_def split: prod.splits)
next
  case (RenegotiationOffer sdp reply)
  then show ?thesis
    using assms pending_ok_renegotiation [OF assms(1), of "en_mid_of env" "rd_view rd" "rd_reneg_outs rd" "rd_peers rd" "rd_now rd" sdp reply]
    by (auto simp: on_cmd_def split: prod.splits)
next
  case (PeerLeftCmd p)
  then show ?thesis
    using assms by (auto simp: on_cmd_def on_peer_left_def pending_ok_def Let_def split: option.splits if_splits)
qed (use assms in \<open>auto simp: on_cmd_def on_udp_packet_def on_ice_candidate_def on_request_keyframe_def on_screen_share_active_def
    on_set_muted_def on_peer_mute_changed_def on_source_screen_stopped_def on_peer_count_changed_def Let_def pending_ok_def
    split: if_splits\<close>)

lemma pending_rtc_event:
  assumes "on_rtc_event rnd bwe scr peers now ev t cs nm = (out, t', cs', nm')"
  shows "mt_pending_media t' = mt_pending_media t"
proof (cases ev)
  case (RtpPacketEvent pkt)
  then show ?thesis
    using assms by (auto simp: on_rtc_event_def on_rtp_packet_def Let_def split: prod.splits if_splits option.splits)
qed (use assms in \<open>auto simp: on_rtc_event_def split: if_splits\<close>)

lemma pending_drain_loop:
  "drain_loop rnd bwe scr peers now outs t cs nm = (out, t', cs', nm', r) \<Longrightarrow> mt_pending_media t' = mt_pending_media t"
proof (induction rnd bwe scr peers now outs t cs nm arbitrary: out rule: drain_loop.induct)
  case (3 rnd bwe scr peers now ev outs t cs nm)
  obtain out1 t1 cs1 nm1 where e: "on_rtc_event rnd bwe scr peers now ev t cs nm = (out1, t1, cs1, nm1)"
    by (metis prod_cases4)
  obtain out2 where d: "drain_loop rnd bwe scr peers now outs t1 cs1 nm1 = (out2, t', cs', nm', r)"
    using "3.prems" e by (auto split: prod.splits)
  show ?case
    using "3.IH" [OF e [symmetric] refl refl d] pending_rtc_event [OF e] by simp
qed (auto split: prod.splits)

lemma pending_new_media: "mt_pending_media (process_new_media ms t) = mt_pending_media t"
  unfolding process_new_media_def by (induction ms arbitrary: t) (simp_all add: add_mid_def)

lemma pending_before_select:
  assumes "before_select env rd t cs = (out, t', cs')"
  shows "mt_pending_media t' = mt_pending_media t"
proof -
  obtain out1 t1 cs1 nm r where d: "drain_outputs (en_rnd env) (en_bwe_json env) (rd_view rd) (rd_peers rd) (rd_now rd) (rd_outs rd) t cs =
      (out1, t1, cs1, nm, r)"
    by (metis prod_cases5)
  have s: "mt_pending_media (snd (start_media v ps u)) = mt_pending_media u" for v ps u
    by (simp add: start_media_def)
  have b: "mt_pending_media (snd (pli_burst v ps now u)) = mt_pending_media u" for v ps now u
    by (simp add: pli_burst_def Let_def)
  have "mt_pending_media t1 = mt_pending_media t"
    using d pending_drain_loop by (metis drain_outputs_def)
  moreover have "t' = snd (pli_burst (rd_view rd) (rd_peers rd) (rd_now rd) (snd (start_media (rd_view rd) (rd_peers rd) (process_new_media nm t1))))"
    using assms d by (auto simp: before_select_def Let_def case_prod_unfold)
  ultimately show ?thesis
    by (simp add: s b pending_new_media)
qed

lemma pending_tick: "mt_pending_media (snd (on_tick rnd ser v peers now t)) = mt_pending_media t"
  by (auto simp: on_tick_def safety_pli_def active_speaker_def broadcast_speaker_def keyframe_retries_def Let_def
      case_prod_unfold split: option.splits)

lemma pending_ok_round:
  assumes "pending_ok t" "media_round_step env rd t cs = (goes_on, out, t', cs')"
  shows "pending_ok t'"
proof -
  obtain out1 t1 cs1 where b: "before_select env rd t cs = (out1, t1, cs1)"
    by (metis prod_cases3)
  have ok: "pending_ok t1"
    using assms(1) pending_ok_cong [OF pending_before_select [OF b]] by simp
  show ?thesis
  proof (cases "rd_input rd")
    case (Cmd cmd)
    then show ?thesis
      using assms(2) b ok pending_ok_cmd [OF ok, of env rd cmd cs1]
      by (auto simp: media_round_step_def Let_def split: prod.splits if_splits)
  next
    case Tick
    have "pending_ok (snd (on_tick (en_rnd env) (en_ser env) (rd_view rd) (rd_peers rd) (rd_now rd) t1))"
      using ok pending_ok_cong [OF pending_tick] by blast
    then show ?thesis
      using assms(2) b ok Tick by (auto simp: media_round_step_def Let_def split: prod.splits if_splits)
  next
    case CmdClosed
    then show ?thesis
      using assms(2) b ok by (auto simp: media_round_step_def Let_def split: if_splits)
  qed
qed

text \<open>
  C36: Over any run of a media task, the packets of a source that wait for a renegotiation never exceed
  \<open>MEDIA_BUFFER_CAP\<close>.
\<close>

theorem media_buffer_bounded:
  assumes "pending_ok t" "media_loop env rds t cs = (out, t', cs')" "hm_get (mt_pending_media t') src = Some buf"
  shows "length buf \<le> 500"
proof -
  have "pending_ok t'"
    using assms(1,2)
  proof (induction rds arbitrary: t cs out)
    case (Cons rd rds)
    obtain goes_on out1 t1 cs1 where r: "media_round_step env rd t cs = (goes_on, out1, t1, cs1)"
      by (metis prod_cases4)
    have "pending_ok t1"
      using pending_ok_round [OF Cons.prems(1) r] .
    then show ?case
      using Cons.IH [of t1 cs1] Cons.prems(2) r by (cases goes_on) (auto split: prod.splits)
  qed simp
  then show ?thesis
    using assms(3) by (simp add: pending_ok_def MEDIA_BUFFER_CAP_def)
qed

definition flow_media :: forwarded_media where
  "flow_media = \<lparr>fm_pt = 111, fm_seq_no = 9, fm_time = 0, fm_marker = False, fm_payload = [1], fm_is_audio = True,
     fm_is_screen = False, fm_source_pid = ParticipantId 5, fm_wallclock = 0, fm_ext_vals = \<lparr>ev_audio_level = None, ev_other = 0\<rparr>\<rparr>"

definition flow_env :: media_env where
  "flow_env = \<lparr>en_rnd = (\<lambda>x. x), en_bwe_json = (\<lambda>_. []), en_ser = (\<lambda>_. None), en_mid_show = (\<lambda>m. m), en_mid_of = (\<lambda>m. m)\<rparr>"

definition flow_round :: media_round where
  "flow_round = \<lparr>rd_view = flow_view, rd_peers = [], rd_now = 0, rd_outs = [], rd_reneg_outs = [], rd_input = Cmd (Media flow_media)\<rparr>"

lemma flow_buffered: "hm_get (mt_pending_media (fst (snd (media_loop flow_env [flow_round] flow_task (\<lambda>_. 0))))) (ParticipantId 5) = Some [flow_media]"
  by code_simp

theorem media_buffer_bounded_witness: "length [flow_media] \<le> 500"
proof -
  obtain out t cs where r: "media_loop flow_env [flow_round] flow_task (\<lambda>_. 0) = (out, t, cs)"
    by (metis prod_cases3)
  have "pending_ok flow_task"
    by (simp add: pending_ok_def flow_task_def task_new_def)
  from media_buffer_bounded [OF this r] show ?thesis
    using flow_buffered r by simp
qed

end
