(* ===== verification/Sfu_System.thy ===== *)
theory Sfu_System
  imports Sfu_Server Sfu_Flow
begin

text \<open>
  The media server at work: the hooks of \<open>seameet-sfu/src/lib.rs\<close> and the media tasks of \<open>media.rs\<close> on the
  same state. The tasks share the peers of their room and the route table with the hooks, so a round of a
  task is a step of the server: it reads the peers of its room, its sends and routes take effect, and a task
  whose loop ends removes its entry.

  The invariant \<open>sfu_inv\<close> ties the two together: no two rooms share a map of peers, every entry of a room
  belongs to a running task of that participant, and no two tasks have the same generation.
\<close>

section \<open>Rounds of the media tasks\<close>

fun apply_effect :: "effect \<Rightarrow> sfu_server \<Rightarrow> sfu_server" where
  "apply_effect (InsertRoute source pid) su = su\<lparr>su_routes := hm_insert source pid (su_routes su)\<rparr>"
| "apply_effect (SendCmd tx cmd) su = send_cmds [(tx, cmd)] su"
| "apply_effect _ su = su"

fun ws_effects :: "effect list \<Rightarrow> outbox" where
  "ws_effects [] = []"
| "ws_effects (SendWs tx json # es) = (tx, json) # ws_effects es"
| "ws_effects (_ # es) = ws_effects es"

definition end_task :: "nat \<Rightarrow> sfu_server \<Rightarrow> sfu_server" where
  "end_task i su =
    (case su_tasks su ! i of (a, t) \<Rightarrow>
       (put_peers a (task_exit (mt_pid t) (mt_gen t) (peers_at a su)) su)
         \<lparr>su_tasks := take i (su_tasks su) @ drop (Suc i) (su_tasks su)\<rparr>)"

definition task_round ::
  "media_env \<Rightarrow> media_round \<Rightarrow> nat \<Rightarrow> sfu_server \<times> counters \<Rightarrow> outbox \<times> sfu_server \<times> counters" where
  "task_round menv rd i sc =
    (case sc of (su, cs) \<Rightarrow>
      if i < length (su_tasks su)
      then case su_tasks su ! i of (a, t) \<Rightarrow>
        (case media_round_step menv (rd\<lparr>rd_peers := peers_at a su\<rparr>) t cs of
           (goes_on, out, t', cs') \<Rightarrow>
             let su1 = (fold apply_effect out su)\<lparr>su_tasks := (su_tasks su)[i := (a, t')]\<rparr> in
             (ws_effects out, if goes_on then su1 else end_task i su1, cs'))
      else ([], su, cs))"

section \<open>The invariant\<close>

definition rooms_ok :: "sfu_server \<Rightarrow> bool" where
  "rooms_ok su \<longleftrightarrow> hm_wf (su_rooms su) \<and> hm_wf (su_all_peers su) \<and>
     (\<forall>rid a. hm_get (su_rooms su) rid = Some a \<longrightarrow> a < su_next_map su) \<and>
     (\<forall>rid rid' a. hm_get (su_rooms su) rid = Some a \<longrightarrow> hm_get (su_rooms su) rid' = Some a \<longrightarrow> rid = rid') \<and>
     (\<forall>a p. hm_get (su_peer_maps su) a = Some p \<longrightarrow> a < su_next_map su \<and> hm_wf p)"

definition tasks_ok :: "sfu_server \<Rightarrow> bool" where
  "tasks_ok su \<longleftrightarrow> distinct (map (\<lambda>e. mt_gen (snd e)) (su_tasks su)) \<and>
     (\<forall>a t. (a, t) \<in> set (su_tasks su) \<longrightarrow> mt_gen t < su_next_peer_gen su \<and> a < su_next_map su) \<and>
     (\<forall>a pid peer. hm_get (peers_at a su) pid = Some peer \<longrightarrow>
        (\<exists>t. (a, t) \<in> set (su_tasks su) \<and> mt_pid t = pid \<and> mt_gen t = sp_gen peer))"

definition sfu_inv :: "sfu_server \<Rightarrow> bool" where
  "sfu_inv su \<longleftrightarrow> rooms_ok su \<and> tasks_ok su"

lemma sfu_inv_new: "sfu_inv sfu_new"
  by (simp add: sfu_inv_def rooms_ok_def tasks_ok_def sfu_new_def peers_at_def)

lemma peers_at_updates [simp]:
  "peers_at a (su\<lparr>su_cmds := cs\<rparr>) = peers_at a su" "peers_at a (su\<lparr>su_fresh := n\<rparr>) = peers_at a su"
  "peers_at a (su\<lparr>su_sessions := ss\<rparr>) = peers_at a su" "peers_at a (su\<lparr>su_routes := rs\<rparr>) = peers_at a su"
  "peers_at a (su\<lparr>su_all_peers := ps\<rparr>) = peers_at a su" "peers_at a (su\<lparr>su_tasks := ts\<rparr>) = peers_at a su"
  "peers_at a (su\<lparr>su_rooms := rms\<rparr>) = peers_at a su" "peers_at a (su\<lparr>su_next_peer_gen := g\<rparr>) = peers_at a su"
  "peers_at a (send_cmds cs su) = peers_at a su"
  by (simp_all add: peers_at_def send_cmds_def)

lemma peers_at_put [simp]: "peers_at b (put_peers a p su) = (if b = a then p else peers_at b su)"
  by (simp add: peers_at_def put_peers_def)

lemma sfu_inv_updates [simp]:
  "sfu_inv (su\<lparr>su_cmds := cs\<rparr>) = sfu_inv su" "sfu_inv (su\<lparr>su_fresh := n\<rparr>) = sfu_inv su"
  "sfu_inv (su\<lparr>su_sessions := ss\<rparr>) = sfu_inv su" "sfu_inv (su\<lparr>su_routes := rs\<rparr>) = sfu_inv su"
  "sfu_inv (send_cmds cs su) = sfu_inv su"
  by (simp_all add: sfu_inv_def rooms_ok_def tasks_ok_def send_cmds_def)

lemma sfu_inv_all_peers: "sfu_inv su \<Longrightarrow> hm_wf ps \<Longrightarrow> sfu_inv (su\<lparr>su_all_peers := ps\<rparr>)"
  by (simp add: sfu_inv_def rooms_ok_def tasks_ok_def)

lemma sfu_inv_wf: "sfu_inv su \<Longrightarrow> hm_wf (su_all_peers su)" "sfu_inv su \<Longrightarrow> hm_wf (peers_at a su)"
  by (auto simp: sfu_inv_def rooms_ok_def peers_at_def split: option.split)

lemma sfu_inv_room: "sfu_inv su \<Longrightarrow> hm_get (su_rooms su) rid = Some a \<Longrightarrow> a < su_next_map su"
  by (simp add: sfu_inv_def rooms_ok_def)

lemma rooms_ok_put: "rooms_ok su \<Longrightarrow> a < su_next_map su \<Longrightarrow> hm_wf p \<Longrightarrow> rooms_ok (put_peers a p su)"
  by (simp add: rooms_ok_def put_peers_def)

lemma put_peers_fields [simp]:
  "su_rooms (put_peers a p su) = su_rooms su" "su_next_map (put_peers a p su) = su_next_map su"
  "su_tasks (put_peers a p su) = su_tasks su" "su_next_peer_gen (put_peers a p su) = su_next_peer_gen su"
  "su_all_peers (put_peers a p su) = su_all_peers su" "su_sessions (put_peers a p su) = su_sessions su"
  "su_routes (put_peers a p su) = su_routes su" "su_cmds (put_peers a p su) = su_cmds su"
  by (simp_all add: put_peers_def)

lemma send_cmds_fields [simp]:
  "su_rooms (send_cmds cs su) = su_rooms su" "su_next_map (send_cmds cs su) = su_next_map su"
  "su_tasks (send_cmds cs su) = su_tasks su" "su_next_peer_gen (send_cmds cs su) = su_next_peer_gen su"
  "su_all_peers (send_cmds cs su) = su_all_peers su" "su_sessions (send_cmds cs su) = su_sessions su"
  "su_routes (send_cmds cs su) = su_routes su" "su_cmds (send_cmds cs su) = su_cmds su @ cs"
  "su_peer_maps (send_cmds cs su) = su_peer_maps su"
  by (simp_all add: send_cmds_def)

lemma sfu_inv_fewer_peers:
  assumes "sfu_inv su" "a < su_next_map su" "hm_wf p" "\<And>i peer. hm_get p i = Some peer \<Longrightarrow> hm_get (peers_at a su) i = Some peer"
  shows "sfu_inv (put_peers a p su)"
  using assms by (auto simp: sfu_inv_def rooms_ok_put tasks_ok_def)

lemma sfu_inv_drop_room: "sfu_inv su \<Longrightarrow> sfu_inv (su\<lparr>su_rooms := hm_remove rid (su_rooms su)\<rparr>)"
  by (auto simp: sfu_inv_def rooms_ok_def tasks_ok_def)

lemma sfu_inv_ensure_room: "sfu_inv su \<Longrightarrow> sfu_inv (ensure_room rid su)"
proof (cases "hm_get (su_rooms su) rid")
  case None
  assume inv: "sfu_inv su"
  have fresh: "hm_get (su_peer_maps su) (su_next_map su) = None"
    using inv by (cases "hm_get (su_peer_maps su) (su_next_map su)") (auto simp: sfu_inv_def rooms_ok_def)
  have "peers_at a (ensure_room rid su) = peers_at a su" for a
    using fresh None by (simp add: ensure_room_def peers_at_def)
  moreover have "rooms_ok (ensure_room rid su)"
    using inv None by (fastforce simp: sfu_inv_def rooms_ok_def ensure_room_def less_Suc_eq)
  ultimately show ?thesis
    using inv None by (auto simp: sfu_inv_def tasks_ok_def ensure_room_def less_Suc_eq)
qed (simp add: ensure_room_def)

section \<open>The hooks keep the invariant\<close>

lemma process_initial_identity [simp]:
  "mt_pid (process_initial_mids ms t) = mt_pid t" "mt_gen (process_initial_mids ms t) = mt_gen t"
  by (induction ms arbitrary: t) (simp_all add: process_initial_mids_def add_mid_def)

lemma spawn_media_shape:
  "\<exists>t. spawn_media env pid peer a ans su = su\<lparr>su_tasks := su_tasks su @ [(a, t)]\<rparr> \<and> mt_pid t = pid \<and> mt_gen t = sp_gen peer"
  by (auto simp: spawn_media_def task_new_def Let_def split: prod.split)

lemma install_peer_fields [simp]:
  "su_rooms (install_peer pid peer a su) = su_rooms su"
  "su_next_map (install_peer pid peer a su) = su_next_map su"
  "su_tasks (install_peer pid peer a su) = su_tasks su"
  "su_next_peer_gen (install_peer pid peer a su) = su_next_peer_gen su + 1"
  "su_all_peers (install_peer pid peer a su) = hm_insert pid peer (su_all_peers su)"
  "su_sessions (install_peer pid peer a su) = hm_modify pid (\<lambda>s. s\<lparr>se_has_media_task := True\<rparr>) (su_sessions su)"
  "su_cmds (install_peer pid peer a su) = su_cmds su"
  "peers_at b (install_peer pid peer a su) = (if b = a then hm_insert pid peer (peers_at a su) else peers_at b su)"
  by (simp_all add: install_peer_def Let_def)

lemma rooms_ok_install:
  assumes "rooms_ok su" "a < su_next_map su" "hm_wf (peers_at a su)"
  shows "rooms_ok (install_peer pid peer a su)"
proof -
  have "rooms_ok (put_peers a (hm_insert pid peer (peers_at a su)) su)"
    using assms by (simp add: rooms_ok_put)
  then show ?thesis
    by (simp add: install_peer_def Let_def rooms_ok_def)
qed

lemma sfu_inv_first_offer:
  assumes inv: "sfu_inv su" and a: "a < su_next_map su"
  shows "sfu_inv (snd (first_offer env sdp pid tx a su))"
proof (cases "ev_answer env (patch_sdp_directions sdp)")
  case None
  then show ?thesis
    using inv by (simp add: first_offer_def)
next
  case (Some ans)
  let ?peer = "new_peer tx su" and ?su1 = "install_peer pid (new_peer tx su) a su"
  obtain t where su': "snd (first_offer env sdp pid tx a su) = ?su1\<lparr>su_tasks := su_tasks ?su1 @ [(a, t)]\<rparr>"
    and t: "mt_pid t = pid" "mt_gen t = su_next_peer_gen su"
    using spawn_media_shape [of env pid ?peer a ans ?su1] Some by (auto simp: first_offer_def Let_def new_peer_def)
  have "rooms_ok ?su1"
    using inv a sfu_inv_wf(2) [OF inv] by (simp add: sfu_inv_def rooms_ok_install)
  then have "rooms_ok (?su1\<lparr>su_tasks := su_tasks ?su1 @ [(a, t)]\<rparr>)"
    by (simp add: rooms_ok_def)
  moreover have "tasks_ok (?su1\<lparr>su_tasks := su_tasks ?su1 @ [(a, t)]\<rparr>)"
    using inv t a by (fastforce simp: sfu_inv_def tasks_ok_def new_peer_def)
  ultimately show ?thesis
    by (simp add: su' sfu_inv_def)
qed

lemma room_peers_for_room: "room_peers_for pid su = Some a \<Longrightarrow> \<exists>rid. hm_get (su_rooms su) rid = Some a"
  by (auto simp: room_peers_for_def split: option.splits)

lemma sfu_inv_on_offer: "sfu_inv su \<Longrightarrow> sfu_inv (snd (on_offer env sdp pid tx su))"
  using sfu_inv_first_offer sfu_inv_room
  by (auto simp: on_offer_def renegotiate_offer_def Let_def split: option.split dest!: room_peers_for_room)

lemma sfu_inv_on_join: "sfu_inv su \<Longrightarrow> sfu_inv (fst (on_join is_closed rid pid (su, st)))"
  by (auto simp: on_join_def Let_def notify_pruned_def notify_rejoin_def notify_count_def sfu_inv_ensure_room split: option.split)

lemma sfu_inv_on_message:
  assumes "sfu_inv su" "sfu_on_message env is_closed sdp raw pid tx (su, st) = (handled, out, su', st')"
  shows "sfu_inv su'"
proof (cases sdp)
  case (Offer p q r s)
  then show ?thesis
    using assms sfu_inv_on_offer [OF assms(1), of env s pid tx] by (auto simp: sfu_on_message_def split: prod.splits)
next
  case (Join p rid n tok)
  then show ?thesis
    using assms sfu_inv_on_join [OF assms(1), of is_closed rid pid st] by (auto simp: sfu_on_message_def split: prod.splits)
qed (use assms in \<open>auto simp: sfu_on_message_def on_screen_share_def on_mute_audio_def Let_def split: prod.splits\<close>)

lemma sfu_inv_leave_room: "sfu_inv (snd os) \<Longrightarrow> sfu_inv (snd (leave_room ser pid affected os))"
proof -
  assume inv: "sfu_inv (snd os)"
  obtain rid e out su where [simp]: "affected = (rid, e)" "os = (out, su)"
    by (metis surj_pair)
  have "sfu_inv (put_peers a (hm_remove pid (peers_at a su)) (send_cmds cs su))" if "hm_get (su_rooms su) rid = Some a" for a cs
    using inv that sfu_inv_wf(2) sfu_inv_room by (intro sfu_inv_fewer_peers) (auto split: if_splits)
  then show ?thesis
    using inv sfu_inv_drop_room [of "put_peers _ _ (send_cmds _ su)" rid] sfu_inv_drop_room [OF inv, of rid]
    by (auto simp: leave_room_def Let_def split: option.split)
qed

lemma sfu_inv_on_disconnect:
  assumes "sfu_inv su" "sfu_on_disconnect env pid affected (su, st) = (out, su', st')"
  shows "sfu_inv su'"
proof -
  have fold: "sfu_inv (snd os) \<Longrightarrow> sfu_inv (snd (fold (leave_room (ev_ser env) pid) affected os))" for os
    by (induction affected arbitrary: os) (simp_all add: sfu_inv_leave_room)
  let ?su = "su\<lparr>su_routes := filter (\<lambda>e. snd e \<noteq> pid) (su_routes su), su_all_peers := hm_remove pid (su_all_peers su)\<rparr>"
  have "sfu_inv ?su"
    using sfu_inv_all_peers [of "su\<lparr>su_routes := filter (\<lambda>e. snd e \<noteq> pid) (su_routes su)\<rparr>"] assms(1) sfu_inv_wf(1) [OF assms(1)]
    by simp
  then show ?thesis
    using fold [of "([], ?su)"] assms(2) by (auto simp: sfu_on_disconnect_def Let_def split: prod.splits)
qed

interpretation sfu_state: hook_invariant "sfu_hooks env" sfu_inv
  by unfold_locales
    (auto simp: sfu_hooks_def noop_hooks_def on_authenticate_default_def on_rate_check_default_def
      dest: sfu_inv_on_message sfu_inv_on_disconnect)

section \<open>The media tasks keep the invariant\<close>

definition task_id :: "media_task \<Rightarrow> participant_id \<times> nat" where
  "task_id t = (mt_pid t, mt_gen t)"

named_theorems identity "handlers that leave the participant and the generation of a task alone"

lemma id_add_mid [identity]: "task_id (add_mid e t) = task_id t"
  by (simp add: add_mid_def task_id_def)

lemma id_new_media [identity]: "task_id (process_new_media ms t) = task_id t"
  by (induction ms arbitrary: t) (simp_all add: process_new_media_def id_add_mid)

lemma id_start_media [identity]: "task_id (snd (start_media v peers t)) = task_id t"
  by (simp add: start_media_def task_id_def)

lemma id_pli_burst [identity]: "task_id (snd (pli_burst v peers now t)) = task_id t"
  by (simp add: pli_burst_def task_id_def Let_def)

lemma id_write_media [identity]: "task_id (snd (write_media v m t)) = task_id t"
  by (simp add: write_media_def task_id_def Let_def split: prod.split)

lemma id_after_write [identity]: "task_id (snd (after_write ser ms peers now src had scr w)) = task_id (snd w)"
  by (simp add: after_write_def task_id_def Let_def split: prod.split)

lemma id_on_media [identity]: "task_id (snd (on_media ser ms v peers now m t)) = task_id t"
  by (auto simp: on_media_def buffer_media_def Let_def id_after_write id_write_media split: prod.split) (simp_all add: task_id_def)

lemma id_flush_buffer [identity]: "task_id (snd (flush_buffer v now ms t)) = task_id t"
proof (induction v now ms t rule: flush_buffer.induct)
  case (2 v now m ms t)
  then show ?case
    using id_write_media [of v m t] by (auto simp: Let_def split: prod.split)
qed simp

lemma id_flush_sources [identity]: "task_id (snd (flush_sources v peers now srcs t)) = task_id t"
proof (induction srcs arbitrary: t)
  case (Cons src srcs)
  show ?case
  proof (cases "hm_get (mt_pending_media t) src")
    case (Some b)
    let ?t0 = "t\<lparr>mt_pending_media := hm_remove src (mt_pending_media t)\<rparr>"
    have "task_id ?t0 = task_id t"
      by (simp add: task_id_def)
    then show ?thesis
      using Some id_flush_buffer [of v now b ?t0] by (simp add: Let_def case_prod_unfold Cons.IH)
  qed (simp add: Cons.IH)
qed simp

lemma id_assign_renegotiated [identity]: "task_id (fold assign_renegotiated ms t) = task_id t"
proof (induction ms arbitrary: t)
  case (Cons e ms)
  have "task_id (assign_renegotiated e t) = task_id t"
    by (simp add: assign_renegotiated_def task_id_def split: prod.split media_kind.split)
  then show ?case
    by (simp add: Cons.IH)
qed simp

lemma id_on_renegotiation_offer [identity]:
  "task_id (snd (on_renegotiation_offer mid_of v outs peers now sdp reply_tx t)) = task_id t"
proof -
  have "task_id (t\<lparr>mt_all_mids := ms\<rparr>) = task_id t" for ms
    by (simp add: task_id_def)
  then show ?thesis
    by (simp add: on_renegotiation_offer_def Let_def case_prod_unfold id_flush_sources id_assign_renegotiated)
qed

lemma id_on_cmd [identity]: "task_id (fst (snd (on_cmd menv rd cmd t cs))) = task_id t"
proof (cases cmd)
  case (Media m)
  then show ?thesis
    by (simp add: on_cmd_def case_prod_unfold id_on_media)
next
  case (RenegotiationOffer sdp r)
  then show ?thesis
    by (simp add: on_cmd_def case_prod_unfold id_on_renegotiation_offer)
qed (auto simp: on_cmd_def on_udp_packet_def on_ice_candidate_def on_request_keyframe_def on_screen_share_active_def
      on_set_muted_def on_peer_mute_changed_def on_peer_left_def on_source_screen_stopped_def on_peer_count_changed_def
      task_id_def Let_def split: option.split)

lemma id_rtc_event [identity]: "task_id (fst (snd (on_rtc_event rnd bj ss peers now ev t cs nm))) = task_id t"
  by (cases ev) (auto simp: on_rtc_event_def on_rtp_packet_def task_id_def Let_def split: prod.split option.split)

lemma id_drain_loop [identity]: "task_id (fst (snd (drain_loop rnd bj ss peers now outs t cs nm))) = task_id t"
proof (induction rnd bj ss peers now outs t cs nm rule: drain_loop.induct)
  case (3 rnd bj ss peers now ev outs t cs nm)
  then show ?case
    using id_rtc_event [of rnd bj ss peers now ev t cs nm] by (auto split: prod.split)
qed (auto split: prod.split)

lemma id_before_select [identity]: "task_id (fst (snd (before_select menv rd t cs))) = task_id t"
  using id_drain_loop
  by (simp add: before_select_def drain_outputs_def Let_def case_prod_unfold id_new_media id_start_media id_pli_burst)

lemma id_on_tick [identity]: "task_id (snd (on_tick rnd ser v peers now t)) = task_id t"
  by (auto simp: on_tick_def safety_pli_def active_speaker_def broadcast_speaker_def keyframe_retries_def task_id_def Let_def
      split: prod.split option.split)

lemma id_round: "task_id (fst (snd (snd (media_round_step menv rd t cs)))) = task_id t"
  by (auto simp: media_round_step_def Let_def case_prod_unfold id_before_select id_on_cmd id_on_tick split: media_input.split)

lemma apply_effects_inv:
  "sfu_inv (fold apply_effect es su) = sfu_inv su"
  "su_tasks (fold apply_effect es su) = su_tasks su"
  "peers_at a (fold apply_effect es su) = peers_at a su"
  "su_next_map (fold apply_effect es su) = su_next_map su"
proof (induction es arbitrary: su)
  case (Cons e es)
  {
    case 1
    show ?case using Cons(1) by (cases e) simp_all
  next
    case 2
    show ?case using Cons(2) by (cases e) simp_all
  next
    case 3
    show ?case using Cons(3) by (cases e) simp_all
  next
    case 4
    show ?case using Cons(4) by (cases e) simp_all
  }
qed simp_all

lemma mem_update: "(a, t) \<in> set (xs[i := (b, u)]) \<Longrightarrow> (a, t) = (b, u) \<or> (a, t) \<in> set xs"
  using set_update_subset_insert [of xs i "(b, u)"] by blast

lemma sfu_inv_task_update:
  assumes inv: "sfu_inv su" and i: "i < length (su_tasks su)" "su_tasks su ! i = (a, t)" and id: "task_id t' = task_id t"
  shows "sfu_inv (su\<lparr>su_tasks := (su_tasks su)[i := (a, t')]\<rparr>)"
proof -
  have at: "(a, t) \<in> set (su_tasks su)"
    using i nth_mem by metis
  have keep: "\<exists>u. (b, u) \<in> set ((su_tasks su)[i := (a, t')]) \<and> task_id u = task_id s" if "(b, s) \<in> set (su_tasks su)" for b s
  proof -
    from that obtain j where j: "j < length (su_tasks su)" "su_tasks su ! j = (b, s)"
      by (metis in_set_conv_nth)
    have "(su_tasks su)[i := (a, t')] ! j \<in> set ((su_tasks su)[i := (a, t')])"
      using j(1) by simp
    then show ?thesis
      using j i id by (cases "i = j") auto
  qed
  have gens: "map (\<lambda>e. mt_gen (snd e)) ((su_tasks su)[i := (a, t')]) = map (\<lambda>e. mt_gen (snd e)) (su_tasks su)"
    using i id by (simp add: map_update task_id_def list_update_same_conv)
  have "tasks_ok (su\<lparr>su_tasks := (su_tasks su)[i := (a, t')]\<rparr>)"
    unfolding tasks_ok_def
  proof (intro conjI allI impI)
    fix b s assume "(b, s) \<in> set (su_tasks (su\<lparr>su_tasks := (su_tasks su)[i := (a, t')]\<rparr>))"
    then show "mt_gen s < su_next_peer_gen (su\<lparr>su_tasks := (su_tasks su)[i := (a, t')]\<rparr>)"
      "b < su_next_map (su\<lparr>su_tasks := (su_tasks su)[i := (a, t')]\<rparr>)"
      using inv at id by (auto simp: sfu_inv_def tasks_ok_def task_id_def dest!: mem_update)
  next
    fix b pid peer assume "hm_get (peers_at b (su\<lparr>su_tasks := (su_tasks su)[i := (a, t')]\<rparr>)) pid = Some peer"
    then obtain s where "(b, s) \<in> set (su_tasks su)" "mt_pid s = pid" "mt_gen s = sp_gen peer"
      using inv unfolding sfu_inv_def tasks_ok_def peers_at_updates by metis
    then show "\<exists>u. (b, u) \<in> set (su_tasks (su\<lparr>su_tasks := (su_tasks su)[i := (a, t')]\<rparr>)) \<and> mt_pid u = pid \<and> mt_gen u = sp_gen peer"
      using keep [of b s] by (auto simp: task_id_def)
  qed (use inv gens in \<open>simp add: sfu_inv_def tasks_ok_def\<close>)
  then show ?thesis
    using inv by (simp add: sfu_inv_def rooms_ok_def)
qed

lemma set_without_nth: "i < length xs \<Longrightarrow> x \<in> set xs \<Longrightarrow> x \<noteq> xs ! i \<Longrightarrow> x \<in> set (take i xs @ drop (Suc i) xs)"
  by (metis Un_iff id_take_nth_drop set_ConsD set_append)

lemma set_without_nth_subset: "set (take i xs @ drop (Suc i) xs) \<subseteq> set xs"
  using set_take_subset [of i xs] set_drop_subset [of "Suc i" xs] by auto

lemma distinct_without_nth: "distinct (map f xs) \<Longrightarrow> i < length xs \<Longrightarrow> distinct (map f (take i xs @ drop (Suc i) xs))"
  by (subst (asm) (1) id_take_nth_drop [of i xs]) auto

lemma sfu_inv_end_task:
  assumes inv: "sfu_inv su" and i: "i < length (su_tasks su)"
  shows "sfu_inv (end_task i su)"
proof -
  obtain a t where at: "su_tasks su ! i = (a, t)"
    by fastforce
  let ?p = "task_exit (mt_pid t) (mt_gen t) (peers_at a su)" and ?ts = "take i (su_tasks su) @ drop (Suc i) (su_tasks su)"
  have put: "rooms_ok (put_peers a ?p su)"
    using inv nth_mem [OF i] at sfu_inv_wf(2) [OF inv, of a] by (simp add: sfu_inv_def rooms_ok_put tasks_ok_def)
  have served: "\<exists>u. (b, u) \<in> set ?ts \<and> mt_pid u = pid \<and> mt_gen u = sp_gen peer"
    if get: "hm_get (peers_at b (put_peers a ?p su)) pid = Some peer" for b pid peer
  proof -
    have old: "hm_get (peers_at b su) pid = Some peer"
      using get by (auto simp: task_exit_get split: if_splits)
    then obtain u where u: "(b, u) \<in> set (su_tasks su)" "mt_pid u = pid" "mt_gen u = sp_gen peer"
      using inv unfolding sfu_inv_def tasks_ok_def by metis
    have "(b, u) \<noteq> su_tasks su ! i"
      using get old u(2,3) at by (auto simp: task_exit_get)
    then show ?thesis
      using set_without_nth [OF i u(1)] u(2,3) by blast
  qed
  have "tasks_ok ((put_peers a ?p su)\<lparr>su_tasks := ?ts\<rparr>)"
    unfolding tasks_ok_def
  proof (intro conjI allI impI)
    show "distinct (map (\<lambda>e. mt_gen (snd e)) (su_tasks ((put_peers a ?p su)\<lparr>su_tasks := ?ts\<rparr>)))"
      using inv distinct_without_nth [OF _ i, of "\<lambda>e. mt_gen (snd e)"] by (simp add: sfu_inv_def tasks_ok_def)
    fix b u assume "(b, u) \<in> set (su_tasks ((put_peers a ?p su)\<lparr>su_tasks := ?ts\<rparr>))"
    then have "(b, u) \<in> set (su_tasks su)"
      using set_without_nth_subset [of i "su_tasks su"] by auto
    then show "mt_gen u < su_next_peer_gen ((put_peers a ?p su)\<lparr>su_tasks := ?ts\<rparr>)"
      "b < su_next_map ((put_peers a ?p su)\<lparr>su_tasks := ?ts\<rparr>)"
      using inv by (auto simp: sfu_inv_def tasks_ok_def)
  qed (use served in simp)
  then show ?thesis
    using put at by (simp add: end_task_def sfu_inv_def rooms_ok_def)
qed

lemma sfu_inv_task_round:
  assumes inv: "sfu_inv su" and round: "task_round menv rd i (su, cs) = (ws, su', cs')"
  shows "sfu_inv su'"
proof (cases "i < length (su_tasks su)")
  case True
  obtain a t where at: "su_tasks su ! i = (a, t)"
    by fastforce
  obtain goes_on out t' cs2 where step: "media_round_step menv (rd\<lparr>rd_peers := peers_at a su\<rparr>) t cs = (goes_on, out, t', cs2)"
    by (metis prod_cases4)
  have id: "task_id t' = task_id t"
    using id_round [of menv "rd\<lparr>rd_peers := peers_at a su\<rparr>" t cs] step by simp
  let ?su1 = "(fold apply_effect out su)\<lparr>su_tasks := (su_tasks su)[i := (a, t')]\<rparr>"
  have inv1: "sfu_inv ?su1"
    using sfu_inv_task_update [of "fold apply_effect out su" i a t t'] True at id inv by (simp add: apply_effects_inv)
  have "su' = ?su1 \<or> su' = end_task i ?su1"
    using round True at step by (auto simp: task_round_def Let_def)
  then show ?thesis
    using inv1 sfu_inv_end_task [OF inv1, of i] True by auto
qed (use assms in \<open>simp add: task_round_def\<close>)

section \<open>Every interleaving\<close>

text \<open>Connections and media tasks interleave freely; clock, session and answers vary from step to step.\<close>

inductive system_reach ::
  "serialiser \<Rightarrow> (participant_id \<Rightarrow> string) \<Rightarrow> (string \<Rightarrow> sdp_message option) \<Rightarrow> sfu_server server \<Rightarrow> counters \<Rightarrow> bool"
  for ser "show" de where
  sys_start: "system_reach ser show de (server_new sfu_new) (\<lambda>_. 0)"
| sys_signal: "system_reach ser show de sv cs \<Longrightarrow> system_reach ser show de (snd (sv_step ser show de (sfu_hooks env) e sv)) cs"
| sys_media: "system_reach ser show de sv cs \<Longrightarrow> task_round menv rd i (sv_hooks sv, cs) = (ws, su', cs') \<Longrightarrow>
    system_reach ser show de (sv\<lparr>sv_hooks := su'\<rparr>) cs'"

lemma sfu_limits: "hk_max_room_members (sfu_hooks env) = 25" "hk_max_chat_history (sfu_hooks env) = 1000"
  by (simp_all add: sfu_hooks_def noop_hooks_def)

lemma system_signaling_keeps:
  "system_reach ser show de sv cs \<Longrightarrow> state_inv (sv_state sv) \<and> within_limits False 25 1000 (sv_state sv)"
proof (induction rule: system_reach.induct)
  case sys_start
  show ?case
    by (simp add: server_new_def state_inv_new) (simp add: within_limits_def state_new_def)
next
  case (sys_signal sv cs env e)
  then show ?case
    using sfu.sv_step_keeps [of sv env, unfolded sfu_limits] by blast
qed simp

lemma system_media_keeps: "system_reach ser show de sv cs \<Longrightarrow> sfu_inv (sv_hooks sv)"
proof (induction rule: system_reach.induct)
  case sys_start
  show ?case
    by (simp add: server_new_def sfu_inv_new)
next
  case (sys_signal sv cs env e)
  then show ?case
    by (simp add: sfu_state.sv_step_hook)
next
  case (sys_media sv cs menv rd i ws su' cs')
  then show ?case
    using sfu_inv_task_round by simp
qed

fun system_run ::
  "serialiser \<Rightarrow> (participant_id \<Rightarrow> string) \<Rightarrow> (string \<Rightarrow> sdp_message option) \<Rightarrow> sfu_env \<Rightarrow> sv_event list \<Rightarrow>
    sfu_server server \<Rightarrow> sfu_server server" where
  "system_run ser show de env es sv = sv_run ser show de (sfu_hooks env) es sv"

lemma system_run_reach: "system_reach ser show de sv cs \<Longrightarrow> system_reach ser show de (system_run ser show de env es sv) cs"
  by (induction es arbitrary: sv) (simp_all add: sys_signal)

lemma served_once:
  assumes "tasks_ok su" "hm_get (peers_at a su) pid = Some peer"
  shows "\<exists>!i. i < length (su_tasks su) \<and> fst (su_tasks su ! i) = a \<and> mt_pid (snd (su_tasks su ! i)) = pid \<and>
    mt_gen (snd (su_tasks su ! i)) = sp_gen peer"
proof -
  obtain t where t: "(a, t) \<in> set (su_tasks su)" "mt_pid t = pid" "mt_gen t = sp_gen peer"
    using assms unfolding tasks_ok_def by metis
  then obtain i where i: "i < length (su_tasks su)" "su_tasks su ! i = (a, t)"
    by (metis in_set_conv_nth)
  have "j = i" if "j < length (su_tasks su)" "mt_gen (snd (su_tasks su ! j)) = sp_gen peer" for j
    using assms(1) that i t(3) nth_eq_iff_index_eq [of "map (\<lambda>e. mt_gen (snd e)) (su_tasks su)" j i] by (simp add: tasks_ok_def)
  then show ?thesis
    using i t by (metis fst_conv snd_conv)
qed


definition demo_sfu_env :: sfu_env where
  "demo_sfu_env = \<lparr>ev_ser = (\<lambda>_. Some ''j''), ev_answer = Some, ev_reply = (\<lambda>_. Some), ev_mid_of = (\<lambda>m. m), ev_now = 0\<rparr>"

definition demo_de :: "string \<Rightarrow> sdp_message option" where
  "demo_de msg = (if msg = ''o'' then Some (Offer (ParticipantId 1) None ''a'' ''v=0'')
     else Some (Join (ParticipantId 1) ''a'' None None))"

definition demo_media_events :: "sv_event list" where
  "demo_media_events = [Accept 0, Receive 0 (Some ''j'')] @ replicate 5 (Advance 0 (\<lambda>_. False)) @
     [Receive 0 (Some ''o'')] @ replicate 2 (Advance 0 (\<lambda>_. False))"

definition demo_system :: "sfu_server server" where
  "demo_system = system_run (\<lambda>_. None) (\<lambda>_. []) demo_de demo_sfu_env demo_media_events (server_new sfu_new)"

lemma demo_system_reach: "system_reach (\<lambda>_. None) (\<lambda>_. []) demo_de demo_system (\<lambda>_. 0)"
  unfolding demo_system_def by (rule system_run_reach [OF sys_start])

lemma demo_system_peer: "map (\<lambda>e. (fst e, sp_gen (snd e))) (peers_at 0 (sv_hooks demo_system)) = [(ParticipantId 1, 1)]"
  by code_simp


section \<open>Reconnecting\<close>

lemma notify_only_sends:
  "\<exists>cs. notify_pruned rid pruned su = send_cmds cs su" "\<exists>cs. notify_rejoin rid pruned pid su = send_cmds cs su"
  "\<exists>cs. notify_count rid su = send_cmds cs su"
proof -
  have none: "\<exists>cs. su = send_cmds cs su"
    by (rule exI [of _ "[]"]) (simp add: send_cmds_def)
  then show "\<exists>cs. notify_pruned rid pruned su = send_cmds cs su" "\<exists>cs. notify_rejoin rid pruned pid su = send_cmds cs su"
    "\<exists>cs. notify_count rid su = send_cmds cs su"
    by (auto simp: notify_pruned_def notify_rejoin_def notify_count_def split: option.split)
qed

lemma pruned_sends: "\<exists>cs. (if c then notify_pruned rid pruned su else su) = send_cmds cs su"
  using notify_only_sends(1) [of rid pruned su] by (auto intro: exI [of _ "[]"] simp: send_cmds_def)

lemma send_cmds_twice: "send_cmds cs' (send_cmds cs su) = send_cmds (cs @ cs') su"
  by (simp add: send_cmds_def)

lemma on_join_shape:
  "\<exists>cs cs' st'. on_join is_closed rid pid (su, st) =
    (send_cmds cs' ((ensure_room rid (send_cmds cs su))
       \<lparr>su_sessions := hm_insert pid \<lparr>se_has_media_task = False, se_current_room_id = Some rid\<rparr> (su_sessions (ensure_room rid (send_cmds cs su)))\<rparr>), st')"
proof -
  let ?pruned = "case state_room st rid of Some r \<Rightarrow> fst (prune_stale is_closed r) | None \<Rightarrow> []"
  let ?su1 = "if ?pruned \<noteq> [] then notify_pruned rid ?pruned su else su"
  have "\<exists>cs. ?su1 = send_cmds cs su"
    by (rule pruned_sends)
  then obtain cs where cs: "notify_rejoin rid ?pruned pid ?su1 = send_cmds cs su"
    using notify_only_sends(2) [of rid ?pruned pid ?su1] by (auto simp: send_cmds_twice)
  obtain cs' where "notify_count rid ((ensure_room rid (send_cmds cs su))
       \<lparr>su_sessions := hm_insert pid \<lparr>se_has_media_task = False, se_current_room_id = Some rid\<rparr> (su_sessions (ensure_room rid (send_cmds cs su)))\<rparr>)
     = send_cmds cs' ((ensure_room rid (send_cmds cs su))
       \<lparr>su_sessions := hm_insert pid \<lparr>se_has_media_task = False, se_current_room_id = Some rid\<rparr> (su_sessions (ensure_room rid (send_cmds cs su)))\<rparr>)"
    using notify_only_sends(3) by blast
  then show ?thesis
    unfolding on_join_def Let_def prod.case cs by auto
qed

lemma ensure_room_fields [simp]:
  "su_sessions (ensure_room rid su) = su_sessions su" "su_next_peer_gen (ensure_room rid su) = su_next_peer_gen su"
  "su_tasks (ensure_room rid su) = su_tasks su" "su_cmds (ensure_room rid su) = su_cmds su"
  by (auto simp: ensure_room_def split: option.split)

lemma join_session:
  assumes "on_join is_closed rid pid (su, st) = (su1, st1)"
  shows "hm_get (su_sessions su1) pid = Some \<lparr>se_has_media_task = False, se_current_room_id = Some rid\<rparr>"
    and "\<exists>a. room_peers_for pid su1 = Some a \<and> hm_get (su_rooms su1) rid = Some a"
    and "su_next_peer_gen su1 = su_next_peer_gen su" and "su_tasks su1 = su_tasks su"
proof -
  obtain cs cs' where su1: "su1 = send_cmds cs' ((ensure_room rid (send_cmds cs su))
      \<lparr>su_sessions := hm_insert pid \<lparr>se_has_media_task = False, se_current_room_id = Some rid\<rparr> (su_sessions su)\<rparr>)"
    using on_join_shape [of is_closed rid pid su st] assms by auto
  have "\<exists>a. hm_get (su_rooms (ensure_room rid (send_cmds cs su))) rid = Some a"
    by (auto simp: ensure_room_def split: option.split)
  then show "hm_get (su_sessions su1) pid = Some \<lparr>se_has_media_task = False, se_current_room_id = Some rid\<rparr>"
    "\<exists>a. room_peers_for pid su1 = Some a \<and> hm_get (su_rooms su1) rid = Some a"
    "su_next_peer_gen su1 = su_next_peer_gen su" "su_tasks su1 = su_tasks su"
    by (auto simp: su1 room_peers_for_def)
qed

text \<open>
  C14: A participant that joins and whose first offer is answered is a peer of its room, with its own
  connection and a generation that no earlier task has; it gets the answer, exactly one task is started for
  it, and nobody else's entry changes.
\<close>

theorem join_then_offer:
  assumes "on_join is_closed rid pid (su, st) = (su1, st1)"
    and "ev_answer env (patch_sdp_directions sdp) = Some ans"
    and "on_offer env sdp pid tx su1 = (out, su2)"
  shows "\<exists>a peer t. hm_get (su_rooms su2) rid = Some a \<and> room_peers_for pid su2 = Some a \<and> hm_get (peers_at a su2) pid = Some peer \<and>
    hm_get (su_all_peers su2) pid = Some peer \<and> sp_ws_tx peer = tx \<and> sp_gen peer = su_next_peer_gen su \<and>
    su_next_peer_gen su2 = su_next_peer_gen su + 1 \<and> su_tasks su2 = su_tasks su @ [(a, t)] \<and> task_id t = (pid, sp_gen peer) \<and>
    out = send_msg (ev_ser env) tx (Answer pid pid ''sfu'' ans) \<and>
    (\<forall>b i. i \<noteq> pid \<longrightarrow> hm_get (peers_at b su2) i = hm_get (peers_at b su1) i)"
proof -
  note joined = join_session [OF assms(1)]
  obtain a where a: "room_peers_for pid su1 = Some a" "hm_get (su_rooms su1) rid = Some a"
    using joined(2) by blast
  let ?peer = "new_peer tx su1"
  obtain t where t: "spawn_media env pid ?peer a ans (install_peer pid ?peer a su1) =
      (install_peer pid ?peer a su1)\<lparr>su_tasks := su_tasks (install_peer pid ?peer a su1) @ [(a, t)]\<rparr>"
    "mt_pid t = pid" "mt_gen t = sp_gen ?peer"
    using spawn_media_shape by blast
  have "out = send_msg (ev_ser env) tx (Answer pid pid ''sfu'' ans)"
    "su2 = (install_peer pid ?peer a su1)\<lparr>su_tasks := su_tasks su1 @ [(a, t)]\<rparr>"
    using assms(2,3) a joined(1) t(1) by (simp_all add: on_offer_def first_offer_def Let_def)
  then show ?thesis
    using a joined t(2,3) by (auto simp: room_peers_for_def new_peer_def task_id_def)
qed

theorem join_then_offer_witness:
  "\<exists>a peer. hm_get (peers_at a (snd (on_offer demo_sfu_env ''v=0'' (ParticipantId 1) 7
      (fst (on_join (\<lambda>_. False) ''a'' (ParticipantId 1) (sfu_new, state_new)))))) (ParticipantId 1) = Some peer \<and>
    sp_ws_tx peer = 7 \<and> sp_gen peer = su_next_peer_gen sfu_new"
proof -
  have "ev_answer demo_sfu_env (patch_sdp_directions ''v=0'') = Some (patch_sdp_directions ''v=0'')"
    by (simp add: demo_sfu_env_def)
  from join_then_offer [OF prod.collapse [symmetric] this prod.collapse [symmetric]] show ?thesis
    by blast
qed

text \<open>
  C17: The exit of an older task never evicts a reconnected participant: in every reachable server, once a
  first offer has been answered the new entry stays whichever of the earlier tasks ends afterwards.
\<close>

theorem offer_survives_old_tasks:
  assumes reach: "system_reach ser show de sv cs" and room: "room_peers_for pid (sv_hooks sv) = Some a"
    and offer: "first_offer env sdp pid tx a (sv_hooks sv) = (out, su')"
    and ans: "ev_answer env (patch_sdp_directions sdp) \<noteq> None"
    and i: "i < length (su_tasks (sv_hooks sv))"
  shows "hm_get (peers_at a (end_task i su')) pid = Some (new_peer tx (sv_hooks sv))"
proof -
  let ?su = "sv_hooks sv" let ?peer = "new_peer tx ?su"
  obtain ans where ans: "ev_answer env (patch_sdp_directions sdp) = Some ans"
    using assms(4) by blast
  obtain t where "su' = (install_peer pid ?peer a ?su)\<lparr>su_tasks := su_tasks ?su @ [(a, t)]\<rparr>"
    using spawn_media_shape [of env pid ?peer a ans "install_peer pid ?peer a ?su"] offer ans
    by (auto simp: first_offer_def Let_def)
  moreover have "mt_gen (snd (su_tasks ?su ! i)) < su_next_peer_gen ?su"
    using system_media_keeps [OF reach] nth_mem [OF i] unfolding sfu_inv_def tasks_ok_def by (metis prod.collapse)
  ultimately show ?thesis
    using i by (auto simp: end_task_def nth_append task_exit_get new_peer_def split: prod.split)
qed

lemma demo_system_room: "room_peers_for (ParticipantId 1) (sv_hooks demo_system) = Some 0"
  by code_simp

lemma demo_system_tasks: "length (su_tasks (sv_hooks demo_system)) = 1"
  by code_simp

theorem offer_survives_old_tasks_witness:
  "hm_get (peers_at 0 (end_task 0 (snd (first_offer demo_sfu_env ''v=0'' (ParticipantId 1) 7 0 (sv_hooks demo_system))))) (ParticipantId 1) =
     Some (new_peer 7 (sv_hooks demo_system))"
proof -
  have ans: "ev_answer demo_sfu_env (patch_sdp_directions ''v=0'') \<noteq> None"
    by (simp add: demo_sfu_env_def)
  have i: "0 < length (su_tasks (sv_hooks demo_system))"
    by (simp add: demo_system_tasks)
  show ?thesis
    using offer_survives_old_tasks [OF demo_system_reach demo_system_room prod.collapse [symmetric] ans i] .
qed

section \<open>Disconnecting\<close>

lemma leave_room_peers:
  assumes "leave_room ser pid (rid, e) (out, su) = (out', su')"
  shows "hm_get (peers_at b su') i = (if i = pid \<and> hm_get (su_rooms su) rid = Some b then None else hm_get (peers_at b su) i)"
    and "su_rooms su' = (if e then hm_remove rid (su_rooms su) else su_rooms su)"
    and "su_all_peers su' = su_all_peers su" "su_routes su' = su_routes su" "su_sessions su' = su_sessions su" "su_tasks su' = su_tasks su"
  using assms by (auto simp: leave_room_def Let_def split: option.splits if_splits)

lemma leave_rooms_fields:
  "fold (leave_room ser pid) affected (out, su) = (out', su') \<Longrightarrow> su_all_peers su' = su_all_peers su \<and> su_routes su' = su_routes su \<and>
    su_sessions su' = su_sessions su \<and> su_tasks su' = su_tasks su"
proof (induction affected arbitrary: out su)
  case (Cons x xs)
  obtain rid e out1 su1 where "x = (rid, e)" "leave_room ser pid (rid, e) (out, su) = (out1, su1)"
    by (metis surj_pair)
  then show ?case
    using Cons leave_room_peers(3-6) [of ser pid rid e out su out1 su1] by simp
qed simp

lemma leave_rooms_others:
  "fold (leave_room ser pid) affected (out, su) = (out', su') \<Longrightarrow> i \<noteq> pid \<Longrightarrow> hm_get (peers_at b su') i = hm_get (peers_at b su) i"
proof (induction affected arbitrary: out su)
  case (Cons x xs)
  obtain rid e out1 su1 where "x = (rid, e)" "leave_room ser pid (rid, e) (out, su) = (out1, su1)"
    by (metis surj_pair)
  then show ?case
    using Cons leave_room_peers(1) [of ser pid rid e out su out1 su1 b i] by simp
qed simp

lemma leave_rooms_gone:
  "fold (leave_room ser pid) affected (out, su) = (out', su') \<Longrightarrow> hm_get (peers_at b su) pid = None \<Longrightarrow> hm_get (peers_at b su') pid = None"
proof (induction affected arbitrary: out su)
  case (Cons x xs)
  obtain rid e out1 su1 where "x = (rid, e)" "leave_room ser pid (rid, e) (out, su) = (out1, su1)"
    by (metis surj_pair)
  then show ?case
    using Cons leave_room_peers(1) [of ser pid rid e out su out1 su1 b pid] by simp
qed simp

lemma leave_rooms_affected:
  assumes "fold (leave_room ser pid) affected (out, su) = (out', su')" "(rid, e) \<in> set affected" "hm_get (su_rooms su) rid = Some b"
  shows "hm_get (peers_at b su') pid = None"
  using assms
proof (induction affected arbitrary: out su)
  case (Cons x xs)
  obtain rid1 e1 out1 su1 where x: "x = (rid1, e1)" and step: "leave_room ser pid (rid1, e1) (out, su) = (out1, su1)"
    by (metis surj_pair)
  have rest: "fold (leave_room ser pid) xs (out1, su1) = (out', su')"
    using Cons.prems(1) by (simp add: x step)
  show ?case
  proof (cases "rid1 = rid")
    case True
    then have "hm_get (peers_at b su1) pid = None"
      using leave_room_peers(1) [OF step] Cons.prems(3) by simp
    then show ?thesis
      by (rule leave_rooms_gone [OF rest])
  next
    case False
    then have "hm_get (su_rooms su1) rid = Some b" "(rid, e) \<in> set xs"
      using leave_room_peers(2) [OF step] Cons.prems(2,3) x by auto
    then show ?thesis
      using Cons.IH [OF rest] by blast
  qed
qed simp

text \<open>
  C22: When a participant disconnects, the media server forgets it: it is in no affected room, not in the
  global map, has no session and no route leads to it; the entries of everybody else are untouched.
\<close>

theorem sfu_disconnect_forgets:
  assumes "sfu_on_disconnect env pid affected (su, st) = (out, su', st')"
  shows "hm_get (su_all_peers su') pid = None \<and> hm_get (su_sessions su') pid = None \<and> pid \<notin> snd ` set (su_routes su') \<and>
    (\<forall>rid e a. (rid, e) \<in> set affected \<and> hm_get (su_rooms su) rid = Some a \<longrightarrow> hm_get (peers_at a su') pid = None) \<and>
    (\<forall>i. i \<noteq> pid \<longrightarrow> hm_get (su_all_peers su') i = hm_get (su_all_peers su) i \<and> hm_get (su_sessions su') i = hm_get (su_sessions su) i \<and>
      (\<forall>b. hm_get (peers_at b su') i = hm_get (peers_at b su) i))"
proof -
  let ?su = "su\<lparr>su_routes := filter (\<lambda>e. snd e \<noteq> pid) (su_routes su), su_all_peers := hm_remove pid (su_all_peers su)\<rparr>"
  obtain su1 where left: "fold (leave_room (ev_ser env) pid) affected ([], ?su) = (out, su1)"
    and su': "su' = su1\<lparr>su_sessions := hm_remove pid (su_sessions su1)\<rparr>"
    using assms by (auto simp: sfu_on_disconnect_def Let_def split: prod.splits)
  show ?thesis
    using leave_rooms_fields [OF left] leave_rooms_others [OF left] leave_rooms_affected [OF left] by (auto simp: su')
qed

theorem sfu_disconnect_forgets_witness:
  "hm_get (peers_at 0 (fst (snd (sfu_on_disconnect demo_sfu_env (ParticipantId 1) [(''a'', True)] (sv_hooks demo_system, sv_state demo_system)))))
     (ParticipantId 1) = None"
proof -
  have room: "(''a'', True) \<in> set [(''a'', True)] \<and> hm_get (su_rooms (sv_hooks demo_system)) ''a'' = Some 0"
    by code_simp
  obtain out su st where d: "sfu_on_disconnect demo_sfu_env (ParticipantId 1) [(''a'', True)] (sv_hooks demo_system, sv_state demo_system) = (out, su, st)"
    by (metis prod_cases3)
  have "hm_get (peers_at 0 su) (ParticipantId 1) = None"
    using sfu_disconnect_forgets [OF d] room by blast
  then show ?thesis
    by (simp add: d)
qed

section \<open>Who gets commands\<close>

definition cmd_chans :: "peers \<Rightarrow> chan set" where
  "cmd_chans p = (\<lambda>e. sp_cmd_tx (snd e)) ` set p"

definition sends_to :: "peers \<Rightarrow> sfu_server \<Rightarrow> sfu_server \<Rightarrow> bool" where
  "sends_to p su su' \<longleftrightarrow> (\<exists>cs. su_cmds su' = su_cmds su @ cs \<and> fst ` set cs \<subseteq> cmd_chans p)"

lemma sends_to_refl: "su_cmds su' = su_cmds su \<Longrightarrow> sends_to p su su'"
  by (simp add: sends_to_def)

lemma sends_to_trans: "sends_to p su su' \<Longrightarrow> sends_to p su' su'' \<Longrightarrow> sends_to p su su''"
  by (fastforce simp: sends_to_def)

lemma sends_to_send: "fst ` set cs \<subseteq> cmd_chans p \<Longrightarrow> sends_to p su (send_cmds cs su)"
  by (auto simp: sends_to_def)

lemma cmd_to_audience: "fst ` set (cmd_to i cmd p) \<subseteq> cmd_chans (filter (\<lambda>e. fst e = i) p)"
  using hm_get_in_set [of p i] by (cases "hm_get p i") (force simp: cmd_to_def cmd_chans_def)+

lemma cmd_chans_filter: "cmd_chans (filter P p) \<subseteq> cmd_chans p"
  by (auto simp: cmd_chans_def)

lemma cmd_except_audience: "fst ` set (cmd_except i cmd p) \<subseteq> cmd_chans p"
  by (force simp: cmd_except_def cmd_chans_def)

lemma cmd_to_room: "fst ` set (cmd_to i cmd p) \<subseteq> cmd_chans p"
  using cmd_to_audience cmd_chans_filter by blast

definition room_map :: "string \<Rightarrow> sfu_server \<Rightarrow> peers" where
  "room_map rid su = (case hm_get (su_rooms su) rid of Some a \<Rightarrow> peers_at a su | None \<Rightarrow> [])"

lemma notify_audience:
  "sends_to (room_map rid su) su (notify_pruned rid pruned su)"
  "sends_to (room_map rid su) su (notify_rejoin rid pruned pid su)"
  "sends_to (room_map rid su) su (notify_count rid su)"
proof -
  have "fst ` set (concat (map (\<lambda>s. cmd_except s (PeerLeftCmd s) p) pruned)) \<subseteq> cmd_chans p" for p
    using cmd_except_audience by fastforce
  then show "sends_to (room_map rid su) su (notify_pruned rid pruned su)"
    by (simp add: notify_pruned_def room_map_def sends_to_refl sends_to_send split: option.split)
  show "sends_to (room_map rid su) su (notify_rejoin rid pruned pid su)"
    by (simp add: notify_rejoin_def room_map_def sends_to_refl sends_to_send cmd_except_audience split: option.split)
  show "sends_to (room_map rid su) su (notify_count rid su)"
    by (auto simp: notify_count_def room_map_def sends_to_refl cmd_chans_def intro!: sends_to_send split: option.split)
qed

lemma room_map_send [simp]:
  "room_map rid (send_cmds cs su) = room_map rid su" "room_map rid (su\<lparr>su_sessions := ss\<rparr>) = room_map rid su"
  by (simp_all add: room_map_def split: option.split)

lemma room_map_ensure: "room_map rid (ensure_room rid su) = room_map rid su"
  by (auto simp: room_map_def ensure_room_def peers_at_def split: option.split)

lemma on_join_audience: "sends_to (room_map rid su) su (fst (on_join is_closed rid pid (su, st)))"
proof -
  let ?pruned = "case state_room st rid of Some r \<Rightarrow> fst (prune_stale is_closed r) | None \<Rightarrow> []"
  let ?su1 = "if ?pruned \<noteq> [] then notify_pruned rid ?pruned su else su"
  obtain cs where su1: "?su1 = send_cmds cs su"
    using pruned_sends by blast
  let ?su2 = "notify_rejoin rid ?pruned pid ?su1"
  obtain cs2 where su2: "?su2 = send_cmds cs2 su"
    using notify_only_sends(2) [of rid ?pruned pid ?su1] by (auto simp: su1 send_cmds_twice)
  let ?su3 = "(ensure_room rid ?su2)\<lparr>su_sessions := hm_insert pid \<lparr>se_has_media_task = False, se_current_room_id = Some rid\<rparr>
    (su_sessions (ensure_room rid ?su2))\<rparr>"
  have "sends_to (room_map rid su) su ?su1"
    using notify_audience(1) by (simp add: sends_to_refl)
  moreover have "sends_to (room_map rid su) ?su1 ?su2"
    using notify_audience(2) [of rid ?su1 ?pruned pid] by (simp only: su1 room_map_send)
  moreover have "sends_to (room_map rid su) ?su2 ?su3"
    by (rule sends_to_refl) simp
  moreover have "sends_to (room_map rid su) ?su3 (notify_count rid ?su3)"
  proof -
    have "room_map rid ?su3 = room_map rid su"
      using room_map_ensure [of rid "send_cmds cs2 su"] by (simp add: su2)
    then show ?thesis
      using notify_audience(3) [of rid ?su3] by (simp only:)
  qed
  ultimately show ?thesis
    unfolding on_join_def Let_def prod.case fst_conv using sends_to_trans by meson
qed

definition cmd_audience :: "sdp_message \<Rightarrow> participant_id \<Rightarrow> sfu_server \<Rightarrow> peers" where
  "cmd_audience sdp pid su =
    (case sdp of
       Join _ rid _ _ \<Rightarrow> room_map rid su
     | IceCandidate _ _ _ _ _ _ \<Rightarrow> filter (\<lambda>e. fst e = pid) (su_all_peers su)
     | _ \<Rightarrow> room_peers pid su)"

lemma offer_audience: "sends_to (room_peers pid su) su (snd (on_offer env sdp pid tx su))"
proof -
  have reneg: "sends_to (peers_at a su) su (snd (renegotiate_offer env sdp pid tx a su))" for a
    using cmd_to_room [of pid _ "peers_at a su"] by (auto simp: renegotiate_offer_def sends_to_def cmd_to_def split: option.split)
  have first: "sends_to p su (snd (first_offer env sdp pid tx a su))" for a p
    by (auto simp: first_offer_def Let_def spawn_media_def intro!: sends_to_refl split: option.split prod.split)
  show ?thesis
    using reneg first by (auto simp: on_offer_def Let_def room_peers_def sends_to_refl split: option.split)
qed

text \<open>
  C23: A message makes the server command only the media tasks it concerns: those in the sender's current
  room, for a join those of the joined room, and for an ICE candidate the sender's own.
\<close>

theorem sfu_commands_stay_in_room:
  assumes "sfu_on_message env is_closed sdp raw pid tx (su, st) = (handled, out, su', st')"
  shows "\<exists>cs. su_cmds su' = su_cmds su @ cs \<and> fst ` set cs \<subseteq> cmd_chans (cmd_audience sdp pid su)"
proof -
  have "sends_to (cmd_audience sdp pid su) su su'"
  proof (cases sdp)
    case (Offer p q r s)
    then show ?thesis
      using assms offer_audience [of pid su env s tx] by (auto simp: sfu_on_message_def cmd_audience_def split: prod.splits)
  next
    case (Join p rid n tok)
    then show ?thesis
      using assms on_join_audience [of rid su is_closed pid st] by (auto simp: sfu_on_message_def cmd_audience_def split: prod.splits)
  qed (use assms in
      \<open>auto simp: sfu_on_message_def cmd_audience_def on_screen_share_def on_mute_audio_def Let_def sends_to_refl sends_to_send
        image_Un cmd_to_room cmd_except_audience cmd_to_audience split: prod.splits if_splits\<close>)
  then show ?thesis
    by (simp add: sends_to_def)
qed

theorem sfu_commands_stay_in_room_witness:
  "\<exists>cs. su_cmds (fst (snd (snd (sfu_on_message demo_sfu_env (\<lambda>_. False) (RequestKeyframe (ParticipantId 2) (ParticipantId 1) ''a'') [] (ParticipantId 2) 9
      (sv_hooks demo_system, sv_state demo_system))))) = su_cmds (sv_hooks demo_system) @ cs \<and>
    fst ` set cs \<subseteq> cmd_chans (room_peers (ParticipantId 2) (sv_hooks demo_system))"
proof -
  obtain h out su st where m: "sfu_on_message demo_sfu_env (\<lambda>_. False) (RequestKeyframe (ParticipantId 2) (ParticipantId 1) ''a'') [] (ParticipantId 2) 9
      (sv_hooks demo_system, sv_state demo_system) = (h, out, su, st)"
    by (metis prod_cases4)
  show ?thesis
    using sfu_commands_stay_in_room [OF m] by (simp add: m cmd_audience_def)
qed

end
