(* ===== verification/Sfu_Media_Props.thy ===== *)
theory Sfu_Media_Props
  imports Sfu_Media
begin

text \<open>
  Properties of the media task: its slots stay separate from each other and from its own lines, audio
  sequence numbers of a line never go back, buffers and in-flight counters are bounded, muted audio is
  not forwarded, and the end of a task leaves a replacement alone.
\<close>

section \<open>The invariant of a task\<close>

definition own_kinds :: "mids \<Rightarrow> own_media \<Rightarrow> bool" where
  "own_kinds all_mids own \<longleftrightarrow>
     (\<forall>m. ow_audio own = Some m \<longrightarrow> (m, Audio) \<in> set all_mids) \<and>
     (\<forall>m. ow_video own = Some m \<longrightarrow> (m, Video) \<in> set all_mids) \<and>
     (\<forall>m. ow_screen own = Some m \<longrightarrow> (m, Video) \<in> set all_mids \<and> ow_video own \<noteq> Some m)"

definition task_inv :: "media_task \<Rightarrow> bool" where
  "task_inv t \<longleftrightarrow> slots_inv (mt_all_mids t) (mt_own t) (mt_source_slots t) \<and> own_kinds (mt_all_mids t) (mt_own t)"

lemma task_invD:
  assumes "task_inv t"
  shows task_inv_slots: "slots_inv (mt_all_mids t) (mt_own t) (mt_source_slots t)"
    and task_inv_own: "own_kinds (mt_all_mids t) (mt_own t)"
  using assms by (simp_all add: task_inv_def)

text \<open>The session's own lines change only to new lines or to nothing.\<close>

definition moves_to :: "mids \<Rightarrow> mid option \<Rightarrow> mid option \<Rightarrow> bool" where
  "moves_to all_mids x y \<longleftrightarrow> y = x \<or> (\<forall>m. y = Some m \<longrightarrow> m \<notin> fst ` set all_mids)"

definition own_moves :: "mids \<Rightarrow> own_media \<Rightarrow> own_media \<Rightarrow> bool" where
  "own_moves all_mids own own' \<longleftrightarrow> moves_to all_mids (ow_audio own) (ow_audio own') \<and>
     moves_to all_mids (ow_video own) (ow_video own') \<and> moves_to all_mids (ow_screen own) (ow_screen own') \<and>
     ow_audio_pt own' = ow_audio_pt own \<and> ow_video_pt own' = ow_video_pt own"

lemma moves_to_keeps: "moves_to all_mids x y \<Longrightarrow> x \<noteq> Some m \<Longrightarrow> (m, k) \<in> set all_mids \<Longrightarrow> y \<noteq> Some m"
  by (force simp: moves_to_def)

lemma slots_inv_extend:
  assumes inv: "slots_inv all_mids own slots" and "distinct (map fst all_mids')" "set all_mids \<subseteq> set all_mids'"
    and moves: "own_moves all_mids own own'"
  shows "slots_inv all_mids' own' slots"
proof (rule slots_invI)
  fix i s
  assume s: "hm_get slots i = Some s"
  have ok: "slot_ok all_mids own s"
    using slots_inv_ok [OF inv s] .
  show "slot_ok all_mids' own' s"
    using ok assms(3) moves moves_to_keeps unfolding slot_ok_def own_moves_def
    by (simp only: simp_thms) (meson subsetD)
qed (use assms(2) slots_inv_wf [OF inv] slots_inv_disj [OF inv] in blast)+

lemma own_moves_refl: "own_moves all_mids own own"
  by (simp add: own_moves_def moves_to_def)

lemma own_moves_trans:
  "own_moves all_mids own own' \<Longrightarrow> own_moves all_mids' own' own'' \<Longrightarrow> set all_mids \<subseteq> set all_mids' \<Longrightarrow> own_moves all_mids own own''"
  unfolding own_moves_def moves_to_def by (metis image_mono subsetD)

lemma task_inv_new: "task_inv (task_new pid tx rid g ca cv pa pv now)"
  by (simp add: task_inv_def task_new_def slots_inv_empty own_kinds_def)

lemma task_inv_add_mid:
  assumes "task_inv t" "fst e \<notin> set (map fst (mt_all_mids t))"
  shows "task_inv (add_mid e t)"
proof -
  obtain m k where e: "e = (m, k)"
    by (cases e)
  have "own_moves (mt_all_mids t) (mt_own t) (assign_own m k (mt_own t))"
    using assms(2) by (auto simp: own_moves_def moves_to_def assign_own_def e split: media_kind.splits)
  then have "slots_inv (mt_all_mids t @ [e]) (assign_own m k (mt_own t)) (mt_source_slots t)"
    using assms slots_inv_mids [OF task_inv_slots [OF assms(1)]]
    by (intro slots_inv_extend [OF task_inv_slots [OF assms(1)]]) auto
  moreover have "own_kinds (mt_all_mids t @ [e]) (assign_own m k (mt_own t))"
    using assms(2) task_inv_own [OF assms(1)]
    by (force simp: own_kinds_def assign_own_def e split: media_kind.splits)
  ultimately show ?thesis
    by (simp add: task_inv_def add_mid_def e)
qed

lemma task_inv_initial:
  assumes "distinct (map fst ms)" "task_inv t" "fst ` set ms \<inter> fst ` set (mt_all_mids t) = {}"
  shows "task_inv (process_initial_mids ms t)"
  using assms unfolding process_initial_mids_def
proof (induction ms arbitrary: t)
  case (Cons e ms)
  have "task_inv (add_mid e t)"
    using Cons.prems by (intro task_inv_add_mid) auto
  moreover have "fst ` set ms \<inter> fst ` set (mt_all_mids (add_mid e t)) = {}"
    using Cons.prems by (auto simp: add_mid_def)
  ultimately show ?case
    using Cons.IH [of "add_mid e t"] Cons.prems(1) by simp
qed simp

lemma task_inv_new_media: "task_inv t \<Longrightarrow> task_inv (process_new_media ms t)"
  unfolding process_new_media_def
  by (induction ms arbitrary: t) (simp_all add: task_inv_add_mid)

lemma task_inv_cong:
  "mt_all_mids t' = mt_all_mids t \<Longrightarrow> mt_own t' = mt_own t \<Longrightarrow> mt_source_slots t' = mt_source_slots t \<Longrightarrow>
   task_inv t' = task_inv t"
  by (simp add: task_inv_def)

lemma write_media_fields:
  assumes "write_media v m t = (out, t')"
  shows "mt_all_mids t' = mt_all_mids t" "mt_own t' = mt_own t" "mt_mid_seq_watermark t' = mt_mid_seq_watermark t"
    "mt_pending_media t' = mt_pending_media t"
  using assms by (auto simp: write_media_def Let_def split: prod.splits)

lemma task_inv_write:
  assumes "task_inv t" "write_media v m t = (out, t')" shows "task_inv t'"
  using assms slots_inv_write [OF task_inv_slots [OF assms(1)], of "rv_tx v" m "mt_rtp_tx_count t" "mt_mid_seq_watermark t"]
  by (auto simp: write_media_def Let_def task_inv_def split: prod.splits)

lemma task_inv_get_or_create:
  assumes "task_inv t" "get_or_create_slot p (mt_source_slots t) (mt_all_mids t) (mt_own t) wm scr = (r, slots)"
  shows "task_inv (t\<lparr>mt_source_slots := slots\<rparr>)"
  using assms slots_inv_get_or_create [OF task_inv_slots [OF assms(1)], of p wm scr] by (simp add: task_inv_def)

definition rtc_writes :: "effect list \<Rightarrow> rtp_write list" where
  "rtc_writes es = concat (map (\<lambda>e. case e of RtcWrite w \<Rightarrow> [w] | _ \<Rightarrow> []) es)"

lemma rtc_writes_simps [simp]:
  "rtc_writes [] = []" "rtc_writes (RtcWrite w # es) = w # rtc_writes es" "rtc_writes (es @ es') = rtc_writes es @ rtc_writes es'"
  "rtc_writes (map RtcWrite ws) = ws"
  by (simp_all add: rtc_writes_def o_def)

lemma rtc_writes_none:
  "rtc_writes (request_keyframe v m) = []" "rtc_writes (to_others pid peers cmd) = []" "rtc_writes (to_peer i peers cmd) = []"
  "rtc_writes (send_ws_msg ser tx msg) = []" "rtc_writes (transmits outs) = []"
  "rtc_writes [RtcTimeout now] = []" "rtc_writes [Reply r str] = []"
  by (auto simp: rtc_writes_def request_keyframe_def to_others_def to_peer_def send_ws_msg_def split: option.splits)
     (induction outs rule: transmits.induct, auto)

lemma after_write_shape:
  "\<exists>extra kp. after_write ser mid_show peers now src had scr (out, t) =
     (out @ extra, t\<lparr>mt_source_keyframe_pending := kp\<rparr>) \<and> rtc_writes extra = []"
proof (cases "(\<not> had \<and> hm_contains (mt_source_slots t) src) \<or> (\<not> scr \<and> slot_screen_mid src (mt_source_slots t) \<noteq> None)")
  case True
  let ?routed = "if \<not> scr \<and> slot_screen_mid src (mt_source_slots t) \<noteq> None
    then (case slot_screen_mid src (mt_source_slots t) of
            Some s_mid \<Rightarrow> send_ws_msg ser (mt_ws_tx t) (ScreenShareRouted src (mid_show s_mid) (mt_room_id t)) | None \<Rightarrow> [])
    else []"
  have "after_write ser mid_show peers now src had scr (out, t) = (out @ to_peer src peers RequestKeyframeCmd @ ?routed,
      t\<lparr>mt_source_keyframe_pending := hm_insert src now (mt_source_keyframe_pending t)\<rparr>)"
    unfolding after_write_def Let_def prod.case if_P [OF True] by (rule refl)
  moreover have "rtc_writes (to_peer src peers RequestKeyframeCmd @ ?routed) = []"
    by (cases "slot_screen_mid src (mt_source_slots t)") (simp_all add: rtc_writes_none)
  ultimately show ?thesis
    by blast
next
  case False
  have "after_write ser mid_show peers now src had scr (out, t) = (out, t)"
    unfolding after_write_def Let_def prod.case if_not_P [OF False] by (rule refl)
  then show ?thesis
    by (intro exI [of _ "[]"] exI [of _ "mt_source_keyframe_pending t"]) simp
qed

lemma slot_for_media_slots:
  "snd (slot_for_media m t) = mt_source_slots t \<or> snd (slot_for_media m t) =
     snd (get_or_create_slot (fm_source_pid m) (mt_source_slots t) (mt_all_mids t) (mt_own t) (mt_mid_seq_watermark t) (fm_is_screen m))"
  by (simp add: slot_for_media_def case_prod_unfold)

text \<open>The three ways a media packet is handled.\<close>

lemma on_media_cases:
  obtains (skipped) "on_media ser mid_show v peers now m t = ([], t)"
  | (buffered) "on_media ser mid_show v peers now m t = ([], buffer_media m (t\<lparr>mt_source_slots := snd (slot_for_media m t)\<rparr>))"
  | (written) out t2 extra kp where "write_media v m (t\<lparr>mt_source_slots := snd (slot_for_media m t)\<rparr>) = (out, t2)"
      "on_media ser mid_show v peers now m t = (out @ extra, t2\<lparr>mt_source_keyframe_pending := kp\<rparr>)" "rtc_writes extra = []"
      "fm_is_audio m \<longrightarrow> fm_source_pid m \<notin> set (mt_muted_peers t)"
proof -
  obtain out t2 where w: "write_media v m (t\<lparr>mt_source_slots := snd (slot_for_media m t)\<rparr>) = (out, t2)"
    by fastforce
  show thesis
  proof (cases "fm_is_audio m \<and> fm_source_pid m \<in> set (mt_muted_peers t)")
    case True
    then show thesis
      by (intro skipped) (simp add: on_media_def)
  next
    case heard: False
    show thesis
    proof (cases "fst (slot_for_media m t)")
      case False
      with heard show thesis
        by (intro buffered) (auto simp: on_media_def case_prod_unfold)
    next
      case True
      obtain extra kp where "after_write ser mid_show peers now (fm_source_pid m) (hm_contains (mt_source_slots t) (fm_source_pid m))
          (slot_screen_mid (fm_source_pid m) (mt_source_slots t) \<noteq> None) (out, t2) =
        (out @ extra, t2\<lparr>mt_source_keyframe_pending := kp\<rparr>)" "rtc_writes extra = []"
        using after_write_shape by blast
      with heard True w show thesis
        by (intro written [OF w, of extra kp]) (auto simp: on_media_def case_prod_unfold)
    qed
  qed
qed

lemma task_inv_slots1:
  assumes "task_inv t" "slots1 = mt_source_slots t \<or>
    slots1 = snd (get_or_create_slot p (mt_source_slots t) (mt_all_mids t) (mt_own t) wm scr)"
  shows "task_inv (t\<lparr>mt_source_slots := slots1\<rparr>)"
  using assms task_inv_get_or_create [OF assms(1), of p wm scr] by (cases "get_or_create_slot p (mt_source_slots t) (mt_all_mids t) (mt_own t) wm scr") auto

lemma task_inv_slot_for_media: "task_inv t \<Longrightarrow> task_inv (t\<lparr>mt_source_slots := snd (slot_for_media m t)\<rparr>)"
  using task_inv_slots1 slot_for_media_slots by blast

lemma task_inv_on_media:
  assumes "task_inv t" shows "task_inv (snd (on_media ser mid_show v peers now m t))"
proof (cases rule: on_media_cases [of ser mid_show v peers now m t])
  case buffered
  then show ?thesis
    using task_inv_slot_for_media [OF assms] by (simp add: buffer_media_def Let_def task_inv_def)
next
  case (written out t2 extra kp)
  then show ?thesis
    using task_inv_write [OF task_inv_slot_for_media [OF assms] written(1)] by (simp add: task_inv_def)
qed (simp add: assms)

section \<open>Sequence numbers of a line\<close>

text \<open>
  The next audio sequence number of a line: the counter of the slot that sends on it, or the watermark a
  departed source left behind.
\<close>

definition watermark :: "(mid, nat) hmap \<Rightarrow> mid \<Rightarrow> nat" where
  "watermark wm m = (case hm_get wm m of Some n \<Rightarrow> n | None \<Rightarrow> 0)"

definition audio_next :: "slots \<Rightarrow> (mid, nat) hmap \<Rightarrow> mid \<Rightarrow> nat" where
  "audio_next slots wm m =
    (case List.find (\<lambda>s. sl_audio_mid s = m) (hm_values slots) of Some s \<Rightarrow> sl_audio_tx_seq s | None \<Rightarrow> watermark wm m)"

lemma audio_mid_in_slot: "sl_audio_mid s \<in> set (slot_mids s)"
  by (simp add: slot_mids_def)

lemma audio_next_slot:
  assumes inv: "slots_inv all_mids own slots" and s: "hm_get slots p = Some s"
  shows "audio_next slots wm (sl_audio_mid s) = sl_audio_tx_seq s"
proof (cases "List.find (\<lambda>s'. sl_audio_mid s' = sl_audio_mid s) (hm_values slots)")
  case None
  then show ?thesis
    using s hm_get_in_set [OF s] by (force simp: find_None_iff hm_values_def)
next
  case (Some s')
  then have "s' \<in> set (hm_values slots)" "sl_audio_mid s' = sl_audio_mid s"
    by (auto simp: find_Some_iff)
  then obtain q where q: "hm_get slots q = Some s'"
    using hm_values_set [OF slots_inv_wf [OF inv]] by (auto simp: ran_def)
  then have "q = p"
    using slots_inv_disj [OF inv q s] audio_mid_in_slot [of s] audio_mid_in_slot [of s'] \<open>sl_audio_mid s' = _\<close> by auto
  then show ?thesis
    using q s Some by (simp add: audio_next_def)
qed

lemma audio_next_free:
  assumes "hm_wf slots" "\<And>p s. hm_get slots p = Some s \<Longrightarrow> sl_audio_mid s \<noteq> m"
  shows "audio_next slots wm m = watermark wm m"
proof -
  have "List.find (\<lambda>s. sl_audio_mid s = m) (hm_values slots) = None"
    using assms hm_values_set [OF assms(1)] by (auto simp: find_None_iff ran_def)
  then show ?thesis
    by (simp add: audio_next_def)
qed

lemma audio_next_eqI:
  assumes inv: "slots_inv all_mids own slots" and inv': "slots_inv all_mids' own' slots'"
    and prev: "\<And>p s'. hm_get slots' p = Some s' \<Longrightarrow> sl_audio_mid s' = m \<Longrightarrow>
      (\<exists>s. hm_get slots p = Some s \<and> sl_audio_mid s = m \<and> sl_audio_tx_seq s' = sl_audio_tx_seq s) \<or>
      ((\<forall>q s. hm_get slots q = Some s \<longrightarrow> sl_audio_mid s \<noteq> m) \<and> sl_audio_tx_seq s' = watermark wm m)"
    and gone: "\<And>p s. hm_get slots p = Some s \<Longrightarrow> sl_audio_mid s = m \<Longrightarrow>
      \<forall>q s'. hm_get slots' q = Some s' \<longrightarrow> sl_audio_mid s' \<noteq> m \<Longrightarrow> watermark wm' m = sl_audio_tx_seq s"
    and keep: "\<forall>q s. hm_get slots q = Some s \<longrightarrow> sl_audio_mid s \<noteq> m \<Longrightarrow> watermark wm' m = watermark wm m"
  shows "audio_next slots' wm' m = audio_next slots wm m"
proof (cases "\<exists>p s'. hm_get slots' p = Some s' \<and> sl_audio_mid s' = m")
  case True
  then obtain p s' where s': "hm_get slots' p = Some s'" "sl_audio_mid s' = m"
    by blast
  have "audio_next slots' wm' m = sl_audio_tx_seq s'"
    using audio_next_slot [OF inv' s'(1)] s'(2) by simp
  then show ?thesis
    using prev [OF s'] audio_next_slot [OF inv] audio_next_free [OF slots_inv_wf [OF inv], of m] by metis
next
  case none: False
  then have eq: "audio_next slots' wm' m = watermark wm' m"
    by (intro audio_next_free [OF slots_inv_wf [OF inv']]) blast
  show ?thesis
  proof (cases "\<exists>p s. hm_get slots p = Some s \<and> sl_audio_mid s = m")
    case True
    then show ?thesis
      using eq gone none audio_next_slot [OF inv] by metis
  next
    case False
    then show ?thesis
      using eq keep audio_next_free [OF slots_inv_wf [OF inv], of m] by metis
  qed
qed

lemma get_or_create_watermark:
  assumes "get_or_create_slot p slots all_mids own wm scr = (r, slots')" "hm_get slots' q = Some s'"
  shows "(\<exists>s. hm_get slots q = Some s \<and> sl_audio_mid s' = sl_audio_mid s \<and> sl_audio_tx_seq s' = sl_audio_tx_seq s) \<or>
    (sl_audio_tx_seq s' = watermark wm (sl_audio_mid s') \<and> sl_audio_mid s' \<notin> set (used_mids slots))"
  using assms free_audio_midD(3) [of all_mids own slots]
  by (auto simp: get_or_create_slot_def watermark_def Let_def split: option.splits if_splits)

lemma get_or_create_keeps:
  assumes "get_or_create_slot p slots all_mids own wm scr = (r, slots')" "hm_get slots q = Some s"
  shows "\<exists>s'. hm_get slots' q = Some s' \<and> sl_audio_mid s' = sl_audio_mid s"
  using assms by (auto simp: get_or_create_slot_def Let_def split: option.splits if_splits)

lemma audio_next_get_or_create:
  assumes inv: "slots_inv all_mids own slots" and g: "get_or_create_slot p slots all_mids own wm scr = (r, slots')"
  shows "audio_next slots' wm m = audio_next slots wm m"
proof (rule audio_next_eqI [OF inv])
  show "slots_inv all_mids own slots'"
    using slots_inv_get_or_create [OF inv, of p wm scr] g by simp
  show "(\<exists>s. hm_get slots q = Some s \<and> sl_audio_mid s = m \<and> sl_audio_tx_seq s' = sl_audio_tx_seq s) \<or>
      ((\<forall>q s. hm_get slots q = Some s \<longrightarrow> sl_audio_mid s \<noteq> m) \<and> sl_audio_tx_seq s' = watermark wm m)"
    if "hm_get slots' q = Some s'" "sl_audio_mid s' = m" for q s'
    using get_or_create_watermark [OF g that(1)] that(2) unused_mid [OF inv] audio_mid_in_slot by metis
  show "watermark wm m = sl_audio_tx_seq s" if "hm_get slots q = Some s" "sl_audio_mid s = m"
      "\<forall>q s'. hm_get slots' q = Some s' \<longrightarrow> sl_audio_mid s' \<noteq> m" for q s
    using get_or_create_keeps [OF g that(1)] that(2,3) by blast
qed simp

lemma audio_next_bump_other:
  assumes inv: "slots_inv all_mids own slots"
    and keep: "keeps_lines f" and seq: "\<And>s. sl_audio_tx_seq (f s) = sl_audio_tx_seq s"
  shows "audio_next (hm_modify p f slots) wm m = audio_next slots wm m"
proof (rule audio_next_eqI [OF inv slots_inv_bump [OF inv keep]])
  fix q s'
  assume "hm_get (hm_modify p f slots) q = Some s'" "sl_audio_mid s' = m"
  then show "(\<exists>s. hm_get slots q = Some s \<and> sl_audio_mid s = m \<and> sl_audio_tx_seq s' = sl_audio_tx_seq s) \<or>
      ((\<forall>q s. hm_get slots q = Some s \<longrightarrow> sl_audio_mid s \<noteq> m) \<and> sl_audio_tx_seq s' = watermark wm m)"
    using seq keeps_linesD(2) [OF keep] by (auto split: if_splits)
next
  fix q s
  assume "hm_get slots q = Some s" "sl_audio_mid s = m"
    "\<forall>q s'. hm_get (hm_modify p f slots) q = Some s' \<longrightarrow> sl_audio_mid s' \<noteq> m"
  then have "hm_get (hm_modify p f slots) q = Some (if q = p then f s else s)"
    by (cases "q = p") auto
  then show "watermark wm m = sl_audio_tx_seq s"
    using \<open>\<forall>q s'. _\<close> \<open>sl_audio_mid s = m\<close> keeps_linesD(2) [OF keep] by (metis (full_types))
qed simp

lemma audio_next_bump:
  assumes inv: "slots_inv all_mids own slots" and s: "hm_get slots p = Some s"
  shows "audio_next (hm_modify p bump_audio slots) wm m =
    (if m = sl_audio_mid s then Suc (sl_audio_tx_seq s) else audio_next slots wm m)"
proof -
  have keep: "slot_mids (bump_audio s) = slot_mids s" "sl_audio_mid (bump_audio s) = sl_audio_mid s" for s
    by (simp_all add: keeps_linesD)
  have inv': "slots_inv all_mids own (hm_modify p bump_audio slots)"
    using slots_inv_bump [OF inv] by simp
  show ?thesis
  proof (cases "m = sl_audio_mid s")
    case True
    have "hm_get (hm_modify p bump_audio slots) p = Some (bump_audio s)"
      using s by simp
    then show ?thesis
      using audio_next_slot [OF inv', of p] True keep by (fastforce simp: bump_audio_def)
  next
    case False
    have "audio_next (hm_modify p bump_audio slots) wm m = audio_next slots wm m"
    proof (rule audio_next_eqI [OF inv inv'])
      fix q s'
      assume "hm_get (hm_modify p bump_audio slots) q = Some s'" "sl_audio_mid s' = m"
      then show "(\<exists>s. hm_get slots q = Some s \<and> sl_audio_mid s = m \<and> sl_audio_tx_seq s' = sl_audio_tx_seq s) \<or>
          ((\<forall>q s. hm_get slots q = Some s \<longrightarrow> sl_audio_mid s \<noteq> m) \<and> sl_audio_tx_seq s' = watermark wm m)"
        using s False keep by (auto split: if_splits)
    next
      fix q s0
      assume a: "hm_get slots q = Some s0" "sl_audio_mid s0 = m"
        "\<forall>q s'. hm_get (hm_modify p bump_audio slots) q = Some s' \<longrightarrow> sl_audio_mid s' \<noteq> m"
      moreover from a(1) have "hm_get (hm_modify p bump_audio slots) q = Some (if q = p then bump_audio s0 else s0)"
        by (cases "q = p") auto
      ultimately show "watermark wm m = sl_audio_tx_seq s0"
        using keep by (metis (full_types))
    qed simp
    with False show ?thesis
      by simp
  qed
qed

definition audio_seqs :: "mid \<Rightarrow> effect list \<Rightarrow> nat list" where
  "audio_seqs m es = map rw_seq (filter (\<lambda>w. rw_mid w = m \<and> fm_is_audio (rw_media w)) (rtc_writes es))"

lemma audio_seqs_append [simp]: "audio_seqs m (es @ es') = audio_seqs m es @ audio_seqs m es'"
  by (simp add: audio_seqs_def)

lemma audio_seqs_none: "rtc_writes es = [] \<Longrightarrow> audio_seqs m es = []"
  by (simp add: audio_seqs_def)

abbreviation task_next :: "media_task \<Rightarrow> mid \<Rightarrow> nat" where
  "task_next t m \<equiv> audio_next (mt_source_slots t) (mt_mid_seq_watermark t) m"

text \<open>
  The type of a written packet: it is on a line of the session of its kind, with the payload type negotiated
  for that kind, not on a line the participant itself sends on, and only video can be retransmitted.
\<close>

definition write_typed :: "mids \<Rightarrow> own_media \<Rightarrow> rtp_write \<Rightarrow> bool" where
  "write_typed all_mids own w \<longleftrightarrow>
     (rw_mid w, if fm_is_audio (rw_media w) then Audio else Video) \<in> set all_mids \<and>
     rw_pt w = (if fm_is_audio (rw_media w) then ow_audio_pt own else ow_video_pt own) \<and>
     ow_audio own \<noteq> Some (rw_mid w) \<and> ow_video own \<noteq> Some (rw_mid w) \<and> ow_screen own \<noteq> Some (rw_mid w) \<and>
     (rw_nackable w \<longleftrightarrow> \<not> fm_is_audio (rw_media w))"

lemma write_typed_moves:
  assumes "write_typed all_mids own w" "own_moves all_mids own own'" "set all_mids \<subseteq> set all_mids'"
  shows "write_typed all_mids' own' w"
proof -
  have m: "(rw_mid w, if fm_is_audio (rw_media w) then Audio else Video) \<in> set all_mids"
    using assms(1) by (simp add: write_typed_def)
  have "moves_to all_mids x y \<Longrightarrow> x \<noteq> Some (rw_mid w) \<Longrightarrow> y \<noteq> Some (rw_mid w)" for x y
    using moves_to_keeps m by blast
  then show ?thesis
    using assms by (auto simp: write_typed_def own_moves_def)
qed

text \<open>
  What a step of the task guarantees: it keeps the invariant, never forgets a line, writes typed packets only,
  and the audio packets it writes on a line that is not a video line continue, in order, from the line's next
  number.
\<close>

definition good_step :: "media_task \<Rightarrow> effect list \<Rightarrow> media_task \<Rightarrow> bool" where
  "good_step t es t' \<longleftrightarrow> (task_inv t \<longrightarrow> task_inv t' \<and> set (mt_all_mids t) \<subseteq> set (mt_all_mids t') \<and>
     own_moves (mt_all_mids t) (mt_own t) (mt_own t') \<and>
     (\<forall>w \<in> set (rtc_writes es). write_typed (mt_all_mids t') (mt_own t') w) \<and>
     (\<forall>m. (m, Video) \<notin> set (mt_all_mids t') \<longrightarrow>
        task_next t m \<le> task_next t' m \<and> sorted_wrt (<) (audio_seqs m es) \<and>
        (\<forall>s \<in> set (audio_seqs m es). task_next t m \<le> s \<and> s < task_next t' m)))"

lemma good_step_trans:
  assumes "good_step t es t1" "good_step t1 es' t2"
  shows "good_step t (es @ es') t2"
  unfolding good_step_def
proof (intro impI conjI ballI)
  assume inv: "task_inv t"
  then have a: "task_inv t1" "set (mt_all_mids t) \<subseteq> set (mt_all_mids t1)" "own_moves (mt_all_mids t) (mt_own t) (mt_own t1)"
    using assms(1) by (simp_all add: good_step_def)
  then have b: "task_inv t2" "set (mt_all_mids t1) \<subseteq> set (mt_all_mids t2)" "own_moves (mt_all_mids t1) (mt_own t1) (mt_own t2)"
    using assms(2) by (simp_all add: good_step_def)
  show "task_inv t2" "set (mt_all_mids t) \<subseteq> set (mt_all_mids t2)" "own_moves (mt_all_mids t) (mt_own t) (mt_own t2)"
    using a b own_moves_trans by blast+
  show "write_typed (mt_all_mids t2) (mt_own t2) w" if "w \<in> set (rtc_writes (es @ es'))" for w
    using that assms inv a(1) b(2,3) write_typed_moves by (auto simp: good_step_def)
  show "\<forall>m. (m, Video) \<notin> set (mt_all_mids t2) \<longrightarrow> task_next t m \<le> task_next t2 m \<and> sorted_wrt (<) (audio_seqs m (es @ es')) \<and>
        (\<forall>s \<in> set (audio_seqs m (es @ es')). task_next t m \<le> s \<and> s < task_next t2 m)"
    using assms inv a(1) b(2) unfolding good_step_def
    by (auto simp: sorted_wrt_append) (meson less_le_trans order_trans subsetD | fastforce)+
qed

lemma good_step_same:
  assumes "mt_all_mids t' = mt_all_mids t" "mt_own t' = mt_own t" "mt_source_slots t' = mt_source_slots t"
    "mt_mid_seq_watermark t' = mt_mid_seq_watermark t" "rtc_writes es = []"
  shows "good_step t es t'"
  using assms by (simp add: good_step_def task_inv_def audio_seqs_none own_moves_refl)

lemma good_step_refl: "good_step t [] t"
  by (rule good_step_same) simp_all

lemma good_step_slots:
  assumes "slots = mt_source_slots t \<or> slots = snd (get_or_create_slot p (mt_source_slots t) (mt_all_mids t) (mt_own t) (mt_mid_seq_watermark t) scr)"
  shows "good_step t [] (t\<lparr>mt_source_slots := slots\<rparr>)"
proof -
  have "audio_next slots (mt_mid_seq_watermark t) m = task_next t m" if "task_inv t" for m
    using assms audio_next_get_or_create [OF task_inv_slots [OF that]] by (metis surjective_pairing)
  then show ?thesis
    using task_inv_slots1 assms by (auto simp: good_step_def audio_seqs_def own_moves_refl)
qed

lemma write_media_cases:
  assumes "write_media v media t = (out, t')"
  obtains (no_stream) slots n where "rtc_writes out = []" "t' = t\<lparr>mt_source_slots := slots, mt_rtp_tx_count := n\<rparr>"
      "slots = snd (get_or_create_slot (fm_source_pid media) (mt_source_slots t) (mt_all_mids t) (mt_own t) (mt_mid_seq_watermark t) (fm_is_screen media))"
  | (stream) slots slot m n pt bump k ws where
      "slots = snd (get_or_create_slot (fm_source_pid media) (mt_source_slots t) (mt_all_mids t) (mt_own t) (mt_mid_seq_watermark t) (fm_is_screen media))"
      "hm_get slots (fm_source_pid media) = Some slot" "pick_stream media slot = Some (m, n, pt, bump)"
      "t' = t\<lparr>mt_source_slots := hm_modify (fm_source_pid media) bump slots, mt_rtp_tx_count := k\<rparr>"
      "rtc_writes out = ws" "ws = [] \<or> ws = [\<lparr>rw_mid = m, rw_pt = pt, rw_seq = n, rw_media = media, rw_nackable = (\<not> fm_is_audio media)\<rparr>]"
proof -
  let ?g = "get_or_create_slot (fm_source_pid media) (mt_source_slots t) (mt_all_mids t) (mt_own t) (mt_mid_seq_watermark t) (fm_is_screen media)"
  have r: "fst ?g = hm_get (snd ?g) (fm_source_pid media)"
    by (rule get_or_create_fst)
  show thesis
  proof (cases "Option.bind (fst ?g) (pick_stream media)")
    case None
    then have "write_media v media t = ([], t\<lparr>mt_source_slots := snd ?g, mt_rtp_tx_count := mt_rtp_tx_count t\<rparr>)"
      by (cases "fst ?g") (auto simp: write_media_def write_forwarded_rtp_def Let_def case_prod_unfold)
    then show thesis
      using assms by (intro no_stream [where slots = "snd ?g" and n = "mt_rtp_tx_count t"]) auto
  next
    case (Some x)
    then obtain slot m n pt bump where p: "fst ?g = Some slot" "pick_stream media slot = Some (m, n, pt, bump)"
      by (cases "fst ?g"; cases x) auto
    show thesis
    proof (cases "rv_tx v m")
      case True
      then show thesis
        using assms p r
        by (intro stream [where slots = "snd ?g" and slot = slot and m = m and n = n and pt = pt and bump = bump
              and k = "mt_rtp_tx_count t + 1" and ws = "rtc_writes out"])
           (auto simp: write_media_def write_forwarded_rtp_def Let_def case_prod_unfold)
    next
      case False
      then show thesis
        using assms p r
        by (intro stream [where slots = "snd ?g" and slot = slot and m = m and n = n and pt = pt and bump = bump
              and k = "mt_rtp_tx_count t" and ws = "[]"])
           (auto simp: write_media_def write_forwarded_rtp_def Let_def case_prod_unfold)
    qed
  qed
qed

lemma task_inv_count: "task_inv (t\<lparr>mt_rtp_tx_count := n\<rparr>) = task_inv t"
  by (simp add: task_inv_def)

lemma pick_stream_typed:
  assumes own: "own_kinds all_mids own" and mids: "distinct (map fst all_mids)" and ok: "slot_ok all_mids own slot"
    and pick: "pick_stream media slot = Some (m, n, pt, bump)"
  shows "(m, if fm_is_audio media then Audio else Video) \<in> set all_mids \<and>
    pt = (if fm_is_audio media then ow_audio_pt own else ow_video_pt own) \<and>
    ow_audio own \<noteq> Some m \<and> ow_video own \<noteq> Some m \<and> ow_screen own \<noteq> Some m"
proof (cases "fm_is_audio media")
  case True
  then have m: "m = sl_audio_mid slot" "pt = sl_audio_pt slot"
    using pick by (auto simp: pick_stream_def)
  have "(m, Video) \<notin> set all_mids"
    using ok m mid_kind_unique [OF mids, of m Audio Video] by (auto simp: slot_ok_def)
  then show ?thesis
    using ok own m True by (auto simp: slot_ok_def own_kinds_def)
next
  case False
  then have m: "m \<in> set (tl (slot_mids slot))" "pt = sl_video_pt slot"
    using pick by (auto simp: pick_stream_def slot_mids_def split: if_splits option.splits)
  then have v: "(m, Video) \<in> set all_mids" "ow_video own \<noteq> Some m" "ow_screen own \<noteq> Some m"
    using ok by (auto simp: slot_ok_def)
  then have "(m, Audio) \<notin> set all_mids"
    using mid_kind_unique [OF mids, of m Video Audio] by auto
  then show ?thesis
    using v own ok m(2) False by (auto simp: own_kinds_def slot_ok_def)
qed

lemma good_step_write:
  assumes "write_media v media t = (out, t')"
  shows "good_step t out t'"
  using assms
proof (cases rule: write_media_cases)
  case (no_stream slots n)
  have "good_step t [] (t\<lparr>mt_source_slots := slots\<rparr>)"
    using no_stream(3) good_step_slots by blast
  moreover have "good_step (t\<lparr>mt_source_slots := slots\<rparr>) out t'"
    using no_stream by (intro good_step_same) simp_all
  ultimately show ?thesis
    using good_step_trans by fastforce
next
  case (stream slots slot m n pt bump k ws)
  let ?p = "fm_source_pid media"
  let ?t1 = "t\<lparr>mt_source_slots := slots\<rparr>"
  have first: "good_step t [] ?t1"
    using stream(1) good_step_slots by blast
  have keep: "keeps_lines bump"
    using pick_stream_bump [OF stream(3)] .
  have "task_next ?t1 l \<le> task_next t' l \<and> sorted_wrt (<) (audio_seqs l out) \<and>
      (\<forall>s \<in> set (audio_seqs l out). task_next ?t1 l \<le> s \<and> s < task_next t' l)"
    if sinv: "slots_inv (mt_all_mids t) (mt_own t) slots" for l
  proof (cases "fm_is_audio media")
    case True
    then have b: "bump = bump_audio" "m = sl_audio_mid slot" "n = sl_audio_tx_seq slot"
      using stream(3) by (auto simp: pick_stream_def)
    show ?thesis
      using audio_next_bump [OF sinv stream(2), of "mt_mid_seq_watermark t" l] audio_next_slot [OF sinv stream(2)] b stream(4-6) True
      by (auto simp: audio_seqs_def)
  next
    case False
    then have "sl_audio_tx_seq (bump s) = sl_audio_tx_seq s" for s
      using stream(3) by (auto simp: pick_stream_def bump_video_def bump_screen_def split: if_splits option.splits)
    then have "task_next t' l = task_next ?t1 l"
      using audio_next_bump_other [OF sinv keep, of ?p "mt_mid_seq_watermark t" l] stream(4) by simp
    moreover have "audio_seqs l out = []"
      using stream(5,6) False by (auto simp: audio_seqs_def)
    ultimately show ?thesis
      by simp
  qed
  moreover have "write_typed (mt_all_mids t) (mt_own t) w" if inv: "task_inv ?t1" and "w \<in> set (rtc_writes out)" for w
  proof -
    have w: "w = \<lparr>rw_mid = m, rw_pt = pt, rw_seq = n, rw_media = media, rw_nackable = (\<not> fm_is_audio media)\<rparr>"
      using that(2) stream(5,6) by auto
    have "slots_inv (mt_all_mids t) (mt_own t) slots" "own_kinds (mt_all_mids t) (mt_own t)"
      using inv by (simp_all add: task_inv_def)
    from pick_stream_typed [OF this(2) slots_inv_mids [OF this(1)] slots_inv_ok [OF this(1) stream(2)] stream(3)]
    show ?thesis
      by (simp add: write_typed_def w split: if_splits)
  qed
  moreover have "task_inv t'" if "task_inv ?t1"
    using slots_inv_bump [OF task_inv_slots [OF that] keep, of ?p] task_inv_own [OF that] stream(4) by (simp add: task_inv_def)
  ultimately have "good_step ?t1 out t'"
    using stream(4) by (simp add: good_step_def task_inv_def own_moves_refl)
  then show ?thesis
    using good_step_trans [OF first] by simp
qed

lemma good_step_on_media: "good_step t (fst (on_media ser mid_show v peers now m t)) (snd (on_media ser mid_show v peers now m t))"
proof -
  have slots: "good_step t [] (t\<lparr>mt_source_slots := snd (slot_for_media m t)\<rparr>)"
    using good_step_slots slot_for_media_slots by blast
  show ?thesis
  proof (cases rule: on_media_cases [of ser mid_show v peers now m t])
    case buffered
    have "good_step (t\<lparr>mt_source_slots := snd (slot_for_media m t)\<rparr>) [] (buffer_media m (t\<lparr>mt_source_slots := snd (slot_for_media m t)\<rparr>))"
      by (rule good_step_same) (simp_all add: buffer_media_def Let_def)
    then show ?thesis
      using good_step_trans [OF slots] buffered by fastforce
  next
    case (written out t2 extra kp)
    have "good_step t2 extra (t2\<lparr>mt_source_keyframe_pending := kp\<rparr>)"
      using written(3) by (intro good_step_same) simp_all
    then show ?thesis
      using good_step_trans [OF good_step_trans [OF slots good_step_write [OF written(1)]]] written(2) by fastforce
  qed (simp add: good_step_refl)
qed

section \<open>Every handler is a good step\<close>

lemma good_step_flush_buffer: "flush_buffer v now ms t = (out, t') \<Longrightarrow> good_step t out t'"
proof (induction ms arbitrary: t out t')
  case (Cons m ms)
  show ?case
  proof (cases "is_pending_media_stale (fm_wallclock m) now")
    case True
    then show ?thesis
      using Cons by simp
  next
    case False
    obtain out1 t1 where w: "write_media v m t = (out1, t1)"
      by fastforce
    obtain out2 t2 where f: "flush_buffer v now ms t1 = (out2, t2)"
      by fastforce
    show ?thesis
      using Cons.prems False w f good_step_trans [OF good_step_write [OF w] Cons.IH [OF f]] by simp
  qed
qed (simp add: good_step_refl)

lemma good_step_flush_sources: "flush_sources v peers now srcs t = (out, t') \<Longrightarrow> good_step t out t'"
proof (induction srcs arbitrary: t out t')
  case (Cons src srcs)
  show ?case
  proof (cases "hm_get (mt_pending_media t) src")
    case None
    then show ?thesis
      using Cons by simp
  next
    case (Some buffered)
    let ?t0 = "t\<lparr>mt_pending_media := hm_remove src (mt_pending_media t)\<rparr>"
    obtain out1 t1 where f: "flush_buffer v now buffered ?t0 = (out1, t1)"
      by fastforce
    define kf where "kf = (if hm_contains (mt_source_slots t1) src then to_peer src peers RequestKeyframeCmd else [])"
    obtain out2 t2 where g: "flush_sources v peers now srcs t1 = (out2, t2)"
      by fastforce
    have "good_step t [] ?t0" "good_step t1 kf t1"
      by (simp_all add: good_step_same kf_def rtc_writes_none)
    from good_step_trans [OF good_step_trans [OF good_step_trans [OF this(1) good_step_flush_buffer [OF f]] this(2)] Cons.IH [OF g]]
    show ?thesis
      using Cons.prems Some f g by (simp add: kf_def Let_def)
  qed
qed (simp add: good_step_refl)

lemma good_step_lines:
  assumes "task_inv t \<Longrightarrow> task_inv t'" "set (mt_all_mids t) \<subseteq> set (mt_all_mids t')"
    "own_moves (mt_all_mids t) (mt_own t) (mt_own t')" "mt_source_slots t' = mt_source_slots t" "mt_mid_seq_watermark t' = mt_mid_seq_watermark t" "rtc_writes es = []"
  shows "good_step t es t'"
  using assms by (simp add: good_step_def audio_seqs_none)

lemma own_moves_new_media: "own_moves (mt_all_mids t) (mt_own t) (mt_own (process_new_media ms t))"
  unfolding process_new_media_def
proof (induction ms arbitrary: t)
  case (Cons e ms)
  show ?case
  proof (cases "fst e \<in> set (map fst (mt_all_mids t))")
    case False
    have "own_moves (mt_all_mids t) (mt_own t) (mt_own (add_mid e t))"
      using False by (cases "snd e") (auto simp: own_moves_def moves_to_def add_mid_def assign_own_def)
    with False show ?thesis
      using own_moves_trans [OF _ Cons.IH [of "add_mid e t"]] by (auto simp: add_mid_def)
  qed (use Cons.IH [of t] in simp)
qed (simp add: own_moves_refl)

lemma good_step_new_media: "good_step t [] (process_new_media ms t)"
proof (rule good_step_lines [OF _ _ own_moves_new_media])
  show "task_inv t \<Longrightarrow> task_inv (process_new_media ms t)"
    by (rule task_inv_new_media)
  show "set (mt_all_mids t) \<subseteq> set (mt_all_mids (process_new_media ms t))"
    unfolding process_new_media_def by (induction ms arbitrary: t) (fastforce simp: add_mid_def)+
  show "mt_source_slots (process_new_media ms t) = mt_source_slots t"
    "mt_mid_seq_watermark (process_new_media ms t) = mt_mid_seq_watermark t"
    unfolding process_new_media_def by (induction ms arbitrary: t) (simp_all add: add_mid_def)
qed simp

lemma add_sdp_mids:
  "fold add_sdp_mid es (all_mids, new) = (all_mids', new') \<Longrightarrow> distinct (map fst all_mids) \<Longrightarrow>
   \<exists>d. all_mids' = all_mids @ d \<and> new' = new @ d \<and> distinct (map fst all_mids')"
proof (induction es arbitrary: all_mids new)
  case (Cons e es)
  show ?case
  proof (cases "fst e \<in> set (map fst all_mids)")
    case True
    then show ?thesis
      using Cons by (simp add: add_sdp_mid_def)
  next
    case False
    then have "\<exists>d. all_mids' = (all_mids @ [e]) @ d \<and> new' = (new @ [e]) @ d \<and> distinct (map fst all_mids')"
      using Cons.prems by (intro Cons.IH) (auto simp: add_sdp_mid_def)
    then show ?thesis
      by auto
  qed
qed simp

lemma assign_renegotiated_fields:
  "mt_all_mids (fold assign_renegotiated ms t) = mt_all_mids t" "mt_source_slots (fold assign_renegotiated ms t) = mt_source_slots t"
  "mt_mid_seq_watermark (fold assign_renegotiated ms t) = mt_mid_seq_watermark t"
  "mt_pending_media (fold assign_renegotiated ms t) = mt_pending_media t"
  by (induction ms arbitrary: t) (auto simp: assign_renegotiated_def split: prod.splits media_kind.splits)

text \<open>Assigning own lines among new lines: each changed own line is a new one.\<close>

lemma own_kinds_assign_renegotiated:
  assumes "own_kinds all_mids (mt_own t)" "e \<in> set all_mids" "ow_video (mt_own t) \<noteq> Some (fst e)"
    "ow_screen (mt_own t) \<noteq> Some (fst e)"
  shows "own_kinds all_mids (mt_own (assign_renegotiated e t))"
  using assms by (cases e) (auto simp: own_kinds_def assign_renegotiated_def split: media_kind.splits)

lemma own_moves_assign_renegotiated:
  assumes "own_moves all_mids own (mt_own t)" "fst e \<notin> fst ` set all_mids"
  shows "own_moves all_mids own (mt_own (assign_renegotiated e t))"
  using assms by (cases e) (auto simp: own_moves_def moves_to_def assign_renegotiated_def split: media_kind.splits)

lemma assign_renegotiated_own:
  assumes "distinct (map fst ms)" "set ms \<subseteq> set all_mids'" "fst ` set ms \<inter> fst ` set all_mids = {}"
    "own_kinds all_mids' (mt_own t)" "own_moves all_mids own (mt_own t)" "\<forall>e \<in> set ms. ow_video (mt_own t) \<noteq> Some (fst e) \<and> ow_screen (mt_own t) \<noteq> Some (fst e)"
  shows "own_kinds all_mids' (mt_own (fold assign_renegotiated ms t)) \<and>
    own_moves all_mids own (mt_own (fold assign_renegotiated ms t))"
  using assms
proof (induction ms arbitrary: t)
  case (Cons e ms)
  have "ow_video (mt_own (assign_renegotiated e t)) \<in> {ow_video (mt_own t), Some (fst e)}"
    "ow_screen (mt_own (assign_renegotiated e t)) \<in> {ow_screen (mt_own t), Some (fst e)}"
    by (cases e; auto simp: assign_renegotiated_def split: media_kind.splits)+
  moreover have "fst e \<notin> fst ` set ms"
    using Cons.prems(1) by simp
  then have "fst e' \<noteq> fst e" if "e' \<in> set ms" for e'
    using that by (metis imageI)
  ultimately have "\<forall>e' \<in> set ms. ow_video (mt_own (assign_renegotiated e t)) \<noteq> Some (fst e') \<and>
      ow_screen (mt_own (assign_renegotiated e t)) \<noteq> Some (fst e')"
    using Cons.prems(6) by (metis insert_iff list.set_intros(2) option.inject singletonD)
  then show ?case
    using Cons.prems Cons.IH [of "assign_renegotiated e t"] own_kinds_assign_renegotiated [of all_mids' t e]
      own_moves_assign_renegotiated [of all_mids own t e] by auto
qed simp

lemma own_kinds_mono: "own_kinds all_mids own \<Longrightarrow> set all_mids \<subseteq> set all_mids' \<Longrightarrow> own_kinds all_mids' own"
  by (auto simp: own_kinds_def)

lemma good_step_renegotiated:
  assumes "fold add_sdp_mid es (mt_all_mids t, []) = (all_mids', new)" "rtc_writes out = []"
  shows "good_step t out (fold assign_renegotiated new (t\<lparr>mt_all_mids := all_mids'\<rparr>))"
proof (cases "task_inv t")
  case True
  note inv = task_inv_slots [OF True]
  obtain d where d: "all_mids' = mt_all_mids t @ d" "new = d" "distinct (map fst all_mids')"
    using add_sdp_mids [OF assms(1) slots_inv_mids [OF inv]] by auto
  let ?t1 = "t\<lparr>mt_all_mids := all_mids'\<rparr>"
  have own: "own_kinds all_mids' (mt_own t)"
    using own_kinds_mono [OF task_inv_own [OF True]] d by simp
  have "ow_video (mt_own t) \<noteq> Some (fst e) \<and> ow_screen (mt_own t) \<noteq> Some (fst e)" if "e \<in> set d" for e
  proof -
    have "fst e \<in> fst ` set d"
      using that by (rule imageI)
    moreover have "fst ` set (mt_all_mids t) \<inter> fst ` set d = {}"
      using d(1,3) by simp
    ultimately have "(fst e, k) \<notin> set (mt_all_mids t)" for k
      by (metis disjoint_iff fst_conv imageI)
    then show ?thesis
      using task_inv_own [OF True] by (auto simp: own_kinds_def)
  qed
  then have own': "own_kinds all_mids' (mt_own (fold assign_renegotiated new ?t1)) \<and>
      own_moves (mt_all_mids t) (mt_own t) (mt_own (fold assign_renegotiated new ?t1))"
    using d own own_moves_refl by (intro assign_renegotiated_own) auto
  then have "task_inv (fold assign_renegotiated new ?t1)"
    using slots_inv_extend [OF inv d(3)] d by (simp add: task_inv_def assign_renegotiated_fields)
  then show ?thesis
    using d assms(2) own' by (intro good_step_lines) (simp_all add: assign_renegotiated_fields)
qed (simp add: good_step_def)

lemma good_step_renegotiation_offer:
  assumes "on_renegotiation_offer mid_of v outs peers now sdp reply t = (out, t')"
  shows "good_step t out t'"
proof -
  obtain out1 all_mids' new where h: "handle_renegotiation mid_of v outs sdp reply (mt_all_mids t) = (out1, all_mids', new)"
    by (metis prod_cases3)
  let ?t1 = "fold assign_renegotiated new (t\<lparr>mt_all_mids := all_mids'\<rparr>)"
  obtain out2 t2 where f: "flush_sources v peers now (hm_keys (mt_pending_media ?t1)) ?t1 = (out2, t2)"
    by fastforce
  have "\<exists>es. fold add_sdp_mid es (mt_all_mids t, []) = (all_mids', new) \<and> rtc_writes out1 = []"
  proof (cases "rv_accept v (patch_sdp_directions sdp)")
    case None
    then show ?thesis
      using h by (intro exI [of _ "[]"]) (auto simp: handle_renegotiation_def rtc_writes_none)
  next
    case (Some answer)
    then show ?thesis
      using h by (intro exI [of _ "parse_mids_from_sdp mid_of answer"])
        (auto simp: handle_renegotiation_def Let_def rtc_writes_none split: prod.splits)
  qed
  then have first: "good_step t out1 ?t1"
    using good_step_renegotiated by blast
  have "good_step t2 (request_keyframe v (ow_video (mt_own t2)) @ to_others (mt_pid t2) peers RequestKeyframeCmd) t2"
    by (rule good_step_same) (simp_all add: rtc_writes_none)
  from good_step_trans [OF good_step_trans [OF first good_step_flush_sources [OF f]] this]
  show ?thesis
    using assms h f by (auto simp: on_renegotiation_offer_def Let_def)
qed

lemma good_step_screen_share_active: "good_step t [] (on_screen_share_active active t)"
proof (rule good_step_lines)
  assume inv: "task_inv t"
  have "own_moves (mt_all_mids t) (mt_own t) (mt_own (on_screen_share_active active t))"
    by (auto simp: on_screen_share_active_def own_moves_def moves_to_def Let_def)
  from slots_inv_extend [OF task_inv_slots [OF inv] slots_inv_mids [OF task_inv_slots [OF inv]] subset_refl this]
  show "task_inv (on_screen_share_active active t)"
    using task_inv_own [OF inv] by (auto simp: task_inv_def on_screen_share_active_def own_kinds_def Let_def)
qed (auto simp: on_screen_share_active_def own_moves_def moves_to_def Let_def)

lemma slots_inv_screen_off:
  assumes inv: "slots_inv all_mids own slots"
  shows "slots_inv all_mids own (hm_modify p (\<lambda>s. s\<lparr>sl_screen_mid := None\<rparr>) slots)"
proof (cases "hm_get slots p")
  case None
  then have "hm_modify p (\<lambda>s. s\<lparr>sl_screen_mid := None\<rparr>) slots = slots"
    by (force simp: hm_modify_def hm_get_None_iff hm_contains_def intro!: map_idI)
  then show ?thesis
    using inv by simp
next
  case (Some s)
  have sub: "set (slot_mids (s\<lparr>sl_screen_mid := None\<rparr>)) \<subseteq> set (slot_mids s)"
    by (auto simp: slot_mids_def)
  have "slot_ok all_mids own (s\<lparr>sl_screen_mid := None\<rparr>)"
    using slots_inv_ok [OF inv Some] by (auto simp: slot_ok_def slot_mids_def)
  moreover have "hm_get (hm_modify p (\<lambda>s. s\<lparr>sl_screen_mid := None\<rparr>) slots) = (hm_get slots)(p \<mapsto> s\<lparr>sl_screen_mid := None\<rparr>)"
    using Some by (auto simp: fun_eq_iff)
  ultimately show ?thesis
    using Some sub slots_inv_wf [OF inv] by (intro slots_inv_put [OF inv]) auto
qed

lemma good_step_source_screen_stopped: "good_step t [] (on_source_screen_stopped p t)"
proof (cases "task_inv t")
  case True
  note inv = task_inv_slots [OF True]
  let ?slots = "hm_modify p (\<lambda>s. s\<lparr>sl_screen_mid := None\<rparr>) (mt_source_slots t)"
  note inv' = slots_inv_screen_off [OF inv, of p]
  have "audio_next ?slots (mt_mid_seq_watermark t) m = task_next t m" for m
  proof (rule audio_next_eqI [OF inv inv'])
    fix q s
    assume a: "hm_get (mt_source_slots t) q = Some s" "sl_audio_mid s = m" "\<forall>q s'. hm_get ?slots q = Some s' \<longrightarrow> sl_audio_mid s' \<noteq> m"
    from a(1) have "hm_get ?slots q = Some (if q = p then s\<lparr>sl_screen_mid := None\<rparr> else s)"
      by (cases "q = p") auto
    moreover have "sl_audio_mid (if q = p then s\<lparr>sl_screen_mid := None\<rparr> else s) = m"
      using a(2) by simp
    ultimately show "watermark (mt_mid_seq_watermark t) m = sl_audio_tx_seq s"
      using a(3) by blast
  qed (auto split: if_splits)
  moreover have "task_inv (on_source_screen_stopped p t)"
    using inv' task_inv_own [OF True] by (simp add: task_inv_def on_source_screen_stopped_def)
  ultimately show ?thesis
    by (simp add: good_step_def on_source_screen_stopped_def audio_seqs_def own_moves_refl)
qed (simp add: good_step_def)

lemma slots_inv_remove:
  assumes "slots_inv all_mids own slots" shows "slots_inv all_mids own (hm_remove p slots)"
  using slots_invD [OF assms] by (intro slots_invI) (auto split: if_splits, blast)

lemma watermark_save:
  assumes "\<forall>x \<in> set (tl (slot_mids s)). x \<noteq> m"
  shows "watermark (save_watermarks s wm) m = (if m = sl_audio_mid s then sl_audio_tx_seq s else watermark wm m)"
  using assms by (auto simp: save_watermarks_def watermark_def Let_def slot_mids_def split: option.splits)

lemma good_step_peer_left_slot:
  assumes s: "hm_get (mt_source_slots t) p = Some s"
  shows "good_step t [] (t\<lparr>mt_source_slots := hm_remove p (mt_source_slots t),
    mt_mid_seq_watermark := save_watermarks s (mt_mid_seq_watermark t)\<rparr>)"
proof (cases "task_inv t")
  case True
  note inv = task_inv_slots [OF True]
  have ok: "slot_ok (mt_all_mids t) (mt_own t) s"
    using slots_inv_ok [OF inv s] .
  have "audio_next (hm_remove p (mt_source_slots t)) (save_watermarks s (mt_mid_seq_watermark t)) m = task_next t m"
    if m: "(m, Video) \<notin> set (mt_all_mids t)" for m
  proof -
    have wm: "watermark (save_watermarks s (mt_mid_seq_watermark t)) m =
        (if m = sl_audio_mid s then sl_audio_tx_seq s else watermark (mt_mid_seq_watermark t) m)"
      using ok m by (intro watermark_save) (auto simp: slot_ok_def)
    show ?thesis
    proof (rule audio_next_eqI [OF inv slots_inv_remove [OF inv]])
      fix q s0
      assume a: "hm_get (mt_source_slots t) q = Some s0" "sl_audio_mid s0 = m"
        "\<forall>q s'. hm_get (hm_remove p (mt_source_slots t)) q = Some s' \<longrightarrow> sl_audio_mid s' \<noteq> m"
      then have "q = p"
        by (metis fun_upd_other hm_get_remove)
      then show "watermark (save_watermarks s (mt_mid_seq_watermark t)) m = sl_audio_tx_seq s0"
        using a s wm by simp
    next
      assume "\<forall>q s. hm_get (mt_source_slots t) q = Some s \<longrightarrow> sl_audio_mid s \<noteq> m"
      then show "watermark (save_watermarks s (mt_mid_seq_watermark t)) m = watermark (mt_mid_seq_watermark t) m"
        using s wm by auto
    qed (auto split: if_splits)
  qed
  then show ?thesis
    using True slots_inv_remove [OF inv] by (simp add: good_step_def task_inv_def audio_seqs_def own_moves_refl)
qed (simp add: good_step_def)

lemma good_step_peer_left: "good_step t [] (on_peer_left p t)"
proof -
  define t1 where "t1 = (case hm_get (mt_source_slots t) p of
      Some slot \<Rightarrow> t\<lparr>mt_source_slots := hm_remove p (mt_source_slots t),
        mt_mid_seq_watermark := save_watermarks slot (mt_mid_seq_watermark t)\<rparr> | None \<Rightarrow> t)"
  have "good_step t [] t1"
    using good_step_peer_left_slot good_step_refl by (cases "hm_get (mt_source_slots t) p") (simp_all add: t1_def)
  moreover have "good_step t1 [] (on_peer_left p t)"
    unfolding on_peer_left_def Let_def t1_def [symmetric] by (rule good_step_same) simp_all
  ultimately show ?thesis
    using good_step_trans by fastforce
qed

lemma good_step_cmd:
  assumes "on_cmd env rd cmd t cs = (out, t', cs')"
  shows "good_step t out t'"
proof (cases cmd)
  case (Media m)
  then show ?thesis
    using assms good_step_on_media [of t "en_ser env" "en_mid_show env" "rd_view rd" "rd_peers rd" "rd_now rd" m]
    by (auto simp: on_cmd_def split: prod.splits)
next
  case (RenegotiationOffer sdp reply)
  then show ?thesis
    using assms good_step_renegotiation_offer by (auto simp: on_cmd_def split: prod.splits)
next
  case (ScreenShareActive active)
  then show ?thesis
    using assms good_step_screen_share_active by (auto simp: on_cmd_def)
next
  case (PeerLeftCmd p)
  then show ?thesis
    using assms good_step_peer_left by (auto simp: on_cmd_def)
next
  case (SourceScreenStopped p)
  then show ?thesis
    using assms good_step_source_screen_stopped by (auto simp: on_cmd_def)
next
  case (UdpPacket data source)
  then show ?thesis
    using assms by (intro good_step_same) (auto simp: on_cmd_def on_udp_packet_def rtc_writes_def split: if_splits)
next
  case (IceCandidateCmd c)
  then show ?thesis
    using assms by (intro good_step_same) (auto simp: on_cmd_def on_ice_candidate_def rtc_writes_def split: if_splits)
next
  case RequestKeyframeCmd
  then show ?thesis
    using assms by (intro good_step_same) (auto simp: on_cmd_def on_request_keyframe_def rtc_writes_none)
next
  case (PeerCountChanged n)
  then show ?thesis
    using assms
    by (intro good_step_same) (auto simp: on_cmd_def on_peer_count_changed_def Let_def rtc_writes_none split: option.splits)
qed (use assms in \<open>auto simp: on_cmd_def on_set_muted_def on_peer_mute_changed_def intro!: good_step_same\<close>)

section \<open>The loop\<close>

lemma rtc_writes_forward: "rtc_writes (fst (forward_to_peers pid m ps cs)) = []"
  by (induction pid m ps cs rule: forward_to_peers.induct) (auto simp: Let_def rtc_writes_def split: prod.splits)

definition task_lines :: "media_task \<Rightarrow> mids \<times> own_media \<times> slots \<times> (mid, nat) hmap" where
  "task_lines t = (mt_all_mids t, mt_own t, mt_source_slots t, mt_mid_seq_watermark t)"

lemma good_step_lines_same: "task_lines t' = task_lines t \<Longrightarrow> rtc_writes es = [] \<Longrightarrow> good_step t es t'"
  by (rule good_step_same) (simp_all add: task_lines_def)

lemma on_rtc_event_lines:
  assumes "on_rtc_event rnd bwe scr peers now ev t cs nm = (out, t', cs', nm')"
  shows "task_lines t' = task_lines t \<and> rtc_writes out = []"
proof (cases ev)
  case (RtpPacketEvent pkt)
  have "rtc_writes out' = []" if "forward_to_peers pid m ps cs = (out', cs')" for pid m ps cs out' cs'
    using rtc_writes_forward [of pid m ps cs] that by simp
  then show ?thesis
    using assms RtpPacketEvent
    by (auto simp: on_rtc_event_def on_rtp_packet_def task_lines_def Let_def split: prod.splits if_splits option.splits)
next
  case KeyframeRequestEvent
  then show ?thesis
    using assms by (auto simp: on_rtc_event_def rtc_writes_none)
qed (use assms in \<open>auto simp: on_rtc_event_def task_lines_def rtc_writes_def split: if_splits\<close>)

lemma drain_loop_lines:
  "drain_loop rnd bwe scr peers now outs t cs nm = (out, t', cs', nm', r) \<Longrightarrow> task_lines t' = task_lines t \<and> rtc_writes out = []"
proof (induction rnd bwe scr peers now outs t cs nm arbitrary: out rule: drain_loop.induct)
  case (3 rnd bwe scr peers now ev outs t cs nm)
  obtain out1 t1 cs1 nm1 where e: "on_rtc_event rnd bwe scr peers now ev t cs nm = (out1, t1, cs1, nm1)"
    by (metis prod_cases4)
  obtain out2 where d: "drain_loop rnd bwe scr peers now outs t1 cs1 nm1 = (out2, t', cs', nm', r)" "out = out1 @ out2"
    using "3.prems" e by (auto split: prod.splits)
  show ?case
    using "3.IH" [OF e [symmetric] refl refl d(1)] on_rtc_event_lines [OF e] d(2) by simp
qed (auto simp: rtc_writes_def split: prod.splits)

lemma good_step_before_select:
  assumes "before_select env rd t cs = (out, t', cs')"
  shows "good_step t out t'"
proof -
  obtain out1 t1 cs1 nm r where d: "drain_outputs (en_rnd env) (en_bwe_json env) (rd_view rd) (rd_peers rd) (rd_now rd) (rd_outs rd) t cs =
      (out1, t1, cs1, nm, r)"
    by (metis prod_cases5)
  have "task_lines t1 = task_lines t \<and> rtc_writes out1 = []"
    using d drain_loop_lines by (metis drain_outputs_def)
  then have g1: "good_step t (RtcTimeout (rd_now rd) # out1) t1"
    by (intro good_step_lines_same) (simp_all add: rtc_writes_def)
  let ?t2 = "process_new_media nm t1"
  obtain out3 t3 where s: "start_media (rd_view rd) (rd_peers rd) ?t2 = (out3, t3)"
    by fastforce
  have g3: "good_step ?t2 out3 t3"
    using s by (intro good_step_lines_same)
      (auto simp: start_media_def task_lines_def rtc_writes_none split: if_splits)
  obtain out4 t4 where b: "pli_burst (rd_view rd) (rd_peers rd) (rd_now rd) t3 = (out4, t4)"
    by fastforce
  have g4: "good_step t3 out4 t4"
    using b by (intro good_step_lines_same)
      (auto simp: pli_burst_def task_lines_def rtc_writes_none Let_def split: if_splits)
  from good_step_trans [OF good_step_trans [OF good_step_trans [OF g1 good_step_new_media] g3] g4] show ?thesis
    using assms d s b by (auto simp: before_select_def Let_def)
qed

lemma good_step_tick:
  assumes "on_tick rnd ser v peers now t = (out, t')"
  shows "good_step t out t'"
proof -
  have "rtc_writes (concat (map (\<lambda>(src, _). to_peer src peers RequestKeyframeCmd) xs)) = []" for xs :: "(participant_id \<times> time) list"
    by (induction xs) (auto simp: rtc_writes_none)
  moreover have "rtc_writes (map (\<lambda>peer. SendWs (sp_ws_tx peer) json) ps) = []" for json ps
    by (induction ps) (auto simp: rtc_writes_def)
  moreover have "rtc_writes (RtcTimeout now # es) = rtc_writes es" for es
    by (simp add: rtc_writes_def)
  ultimately show ?thesis
    using assms by (intro good_step_lines_same)
      (auto simp: on_tick_def safety_pli_def active_speaker_def broadcast_speaker_def keyframe_retries_def Let_def task_lines_def
        rtc_writes_none split: prod.splits if_splits option.splits)
qed

lemma good_step_round:
  assumes "media_round_step env rd t cs = (goes_on, out, t', cs')"
  shows "good_step t out t'"
proof -
  obtain out1 t1 cs1 where b: "before_select env rd t cs = (out1, t1, cs1)"
    by (metis prod_cases3)
  note g = good_step_before_select [OF b]
  show ?thesis
  proof (cases "rd_input rd")
    case (Cmd cmd)
    then show ?thesis
      using assms b g good_step_trans [OF g good_step_cmd [of env rd cmd t1 cs1]]
      by (auto simp: media_round_step_def Let_def split: prod.splits if_splits)
  next
    case Tick
    then show ?thesis
      using assms b g good_step_trans [OF g good_step_tick [of "en_rnd env" "en_ser env" "rd_view rd" "rd_peers rd" "rd_now rd" t1]]
      by (auto simp: media_round_step_def Let_def split: prod.splits if_splits)
  next
    case CmdClosed
    then show ?thesis
      using assms b g by (auto simp: media_round_step_def Let_def split: if_splits)
  qed
qed

lemma good_step_loop: "media_loop env rds t cs = (out, t', cs') \<Longrightarrow> good_step t out t'"
proof (induction rds arbitrary: t cs out)
  case (Cons rd rds)
  obtain goes_on out1 t1 cs1 where r: "media_round_step env rd t cs = (goes_on, out1, t1, cs1)"
    by (metis prod_cases4)
  show ?case
  proof (cases goes_on)
    case True
    then obtain out2 where "media_loop env rds t1 cs1 = (out2, t', cs')" "out = out1 @ out2"
      using Cons.prems r by (auto split: prod.splits)
    then show ?thesis
      using good_step_trans [OF good_step_round [OF r] Cons.IH] by simp
  next
    case False
    then show ?thesis
      using Cons.prems r good_step_round [OF r] by simp
  qed
qed (simp add: good_step_refl)

definition media_start :: "participant_id \<Rightarrow> chan \<Rightarrow> string \<Rightarrow> nat \<Rightarrow> nat \<Rightarrow> nat \<Rightarrow> u8 \<Rightarrow> u8 \<Rightarrow> time \<Rightarrow> mids \<Rightarrow> media_task" where
  "media_start pid tx rid g ca cv pa pv now initial_mids = process_initial_mids initial_mids (task_new pid tx rid g ca cv pa pv now)"

lemma media_start_inv: "distinct (map fst initial_mids) \<Longrightarrow> task_inv (media_start pid tx rid g ca cv pa pv now initial_mids)"
  unfolding media_start_def by (rule task_inv_initial [OF _ task_inv_new]) (simp_all add: task_new_def)

text \<open>
  C10: Whatever commands, packets and events a media task meets, at every point of its life no two remote
  participants share a line of the session, no remote participant is sent on a line the participant itself
  uses, and audio and video keep to lines of their kind.
\<close>

theorem media_task_invariant:
  assumes "distinct (map fst initial_mids)"
    and "media_loop env rds (media_start pid tx rid g ca cv pa pv now initial_mids) cs = (out, t, cs')"
  shows "slots_inv (mt_all_mids t) (mt_own t) (mt_source_slots t) \<and> own_kinds (mt_all_mids t) (mt_own t)"
  using good_step_loop [OF assms(2)] media_start_inv [OF assms(1)] by (simp add: good_step_def task_inv_def)

text \<open>
  C13: On every audio line the sequence numbers of the forwarded packets strictly increase over the whole
  life of the task, also when a participant leaves and another one takes over the line.
\<close>

theorem media_audio_monotone:
  assumes "distinct (map fst initial_mids)"
    and "media_loop env rds (media_start pid tx rid g ca cv pa pv now initial_mids) cs = (out, t, cs')"
    and "(m, Video) \<notin> set (mt_all_mids t)"
  shows "sorted_wrt (<) (audio_seqs m out)"
  using good_step_loop [OF assms(2)] media_start_inv [OF assms(1)] assms(3) by (simp add: good_step_def)

text \<open>
  C15: Every packet a media task writes over its whole life is well typed: an audio packet goes to an audio line
  of the session with the participant's own audio payload type, a video or screen packet to a video line with the
  video payload type, never to a line the participant itself sends on, and only video may be retransmitted.
\<close>

theorem media_writes_typed:
  assumes "distinct (map fst initial_mids)"
    and "media_loop env rds (media_start pid tx rid g ca cv pa pv now initial_mids) cs = (out, t, cs')"
  shows "list_all (write_typed (mt_all_mids t) (mt_own t)) (rtc_writes out)"
  using good_step_loop [OF assms(2)] media_start_inv [OF assms(1)] by (simp add: good_step_def list_all_iff)

definition demo_env :: media_env where
  "demo_env = \<lparr>en_rnd = (\<lambda>x. x), en_bwe_json = (\<lambda>_. []), en_ser = (\<lambda>_. None), en_mid_show = (\<lambda>m. m), en_mid_of = (\<lambda>m. m)\<rparr>"

definition demo_view :: rtc_view where
  "demo_view = \<lparr>rv_rx = (\<lambda>_. None), rv_tx = (\<lambda>_. True), rv_accept = (\<lambda>_. None), rv_receive_ok = (\<lambda>_ _. True),
     rv_candidate_ok = (\<lambda>_. True), rv_alive = True\<rparr>"

definition demo_round :: "peer_cmd \<Rightarrow> media_round" where
  "demo_round cmd = \<lparr>rd_view = demo_view, rd_peers = [], rd_now = 0, rd_outs = [], rd_reneg_outs = [], rd_input = Cmd cmd\<rparr>"

definition from_peer :: "nat \<Rightarrow> forwarded_media \<Rightarrow> forwarded_media" where
  "from_peer i m = m\<lparr>fm_source_pid := ParticipantId (of_nat i)\<rparr>"

definition demo_start :: media_task where
  "demo_start = media_start (ParticipantId 1) 0 [] 1 0 1 111 96 0 demo_mids"

definition demo_rounds :: "media_round list" where
  "demo_rounds = map demo_round [Media (demo_packet True False), Media (demo_packet True False), PeerLeftCmd (ParticipantId 5),
     Media (from_peer 6 (demo_packet True False))]"

lemma demo_run_mids: "mt_all_mids (fst (snd (media_loop demo_env demo_rounds demo_start (\<lambda>_. 0)))) = demo_mids"
  by code_simp

lemma demo_run_seqs: "audio_seqs ''2'' (fst (media_loop demo_env demo_rounds demo_start (\<lambda>_. 0))) = [0, 1, 2]"
  by code_simp

theorem media_task_invariant_witness:
  "slots_inv demo_mids (mt_own (fst (snd (media_loop demo_env demo_rounds demo_start (\<lambda>_. 0)))))
     (mt_source_slots (fst (snd (media_loop demo_env demo_rounds demo_start (\<lambda>_. 0)))))"
proof -
  obtain out t cs where r: "media_loop demo_env demo_rounds demo_start (\<lambda>_. 0) = (out, t, cs)"
    by (metis prod_cases3)
  then show ?thesis
    using media_task_invariant [OF demo_mids_distinct r [unfolded demo_start_def]] demo_run_mids by simp
qed

theorem media_writes_typed_witness:
  "list_all (write_typed demo_mids demo_own) (rtc_writes (fst (media_loop demo_env demo_rounds demo_start (\<lambda>_. 0)))) \<and>
   length (rtc_writes (fst (media_loop demo_env demo_rounds demo_start (\<lambda>_. 0)))) = 3"
proof -
  obtain out t cs where r: "media_loop demo_env demo_rounds demo_start (\<lambda>_. 0) = (out, t, cs)"
    by (metis prod_cases3)
  have "mt_own (fst (snd (media_loop demo_env demo_rounds demo_start (\<lambda>_. 0)))) = demo_own \<and>
      length (rtc_writes (fst (media_loop demo_env demo_rounds demo_start (\<lambda>_. 0)))) = 3"
    by code_simp
  then show ?thesis
    using media_writes_typed [OF demo_mids_distinct r [unfolded demo_start_def]] demo_run_mids r by simp
qed

theorem media_audio_monotone_witness:
  "sorted_wrt (<) (audio_seqs ''2'' (fst (media_loop demo_env demo_rounds demo_start (\<lambda>_. 0)))) \<and>
   audio_seqs ''2'' (fst (media_loop demo_env demo_rounds demo_start (\<lambda>_. 0))) = [0, 1, 2]"
proof -
  obtain out t cs where r: "media_loop demo_env demo_rounds demo_start (\<lambda>_. 0) = (out, t, cs)"
    by (metis prod_cases3)
  have "(''2'', Video) \<notin> set (mt_all_mids t)"
    using demo_run_mids r by (simp add: demo_mids_def)
  then show ?thesis
    using media_audio_monotone [OF demo_mids_distinct r [unfolded demo_start_def]] demo_run_seqs r by simp
qed

text \<open>
  Screen lines have no such guarantee: the watermark of a departed screen is saved but a new slot starts its
  screen counter at zero, so the numbers on line \<open>4\<close> below go back.
\<close>

definition screen_rounds :: "media_round list" where
  "screen_rounds = map demo_round [Media (demo_packet False True), Media (demo_packet False True), PeerLeftCmd (ParticipantId 5),
     Media (from_peer 6 (demo_packet False True))]"

lemma screen_sequence_restarts:
  "map (\<lambda>w. (rw_mid w, rw_seq w)) (rtc_writes (fst (media_loop demo_env screen_rounds demo_start (\<lambda>_. 0)))) =
     [(''4'', 0), (''4'', 1), (''4'', 0)]"
  by code_simp

end
