(* ===== verification/Sfu_Isolation.thy ===== *)
theory Sfu_Isolation
  imports Sfu_System Sfu_Media_Props
begin

text \<open>
  Media between participants, over the hooks of \<open>seameet-sfu/src/lib.rs\<close> and the tasks of \<open>media.rs\<close>: whom a
  round of a task sends commands to, that the channels and counters of different participants are different,
  and that media therefore stays in its room.
\<close>

section \<open>What a round sends\<close>

definition carries :: "participant_id \<Rightarrow> rtp_in list \<Rightarrow> forwarded_media \<Rightarrow> bool" where
  "carries pid pkts m \<longleftrightarrow> fm_source_pid m = pid \<and>
     (\<exists>pkt \<in> set pkts. fm_payload m = ri_payload pkt \<and> fm_pt m = ri_pt pkt \<and> fm_seq_no m = ri_seq_no pkt \<and>
       fm_time m = ri_timestamp pkt \<and> fm_marker m = ri_marker pkt)"

definition cmd_ok :: "participant_id \<Rightarrow> peers \<Rightarrow> rtp_in list \<Rightarrow> chan \<Rightarrow> peer_cmd \<Rightarrow> bool" where
  "cmd_ok pid peers pkts tx cmd \<longleftrightarrow>
     (\<exists>(i, peer) \<in> set peers. tx = sp_cmd_tx peer \<and>
       (case cmd of RequestKeyframeCmd \<Rightarrow> True | Media m \<Rightarrow> i \<noteq> pid \<and> carries pid pkts m | _ \<Rightarrow> False))"

definition effect_ok :: "participant_id \<Rightarrow> peers \<Rightarrow> rtp_in list \<Rightarrow> effect \<Rightarrow> bool" where
  "effect_ok pid peers pkts e =
     (case e of SendCmd tx cmd \<Rightarrow> cmd_ok pid peers pkts tx cmd | InsertRoute _ i \<Rightarrow> i = pid | _ \<Rightarrow> True)"

abbreviation effects_ok :: "participant_id \<Rightarrow> peers \<Rightarrow> rtp_in list \<Rightarrow> effect list \<Rightarrow> bool" where
  "effects_ok pid peers pkts es \<equiv> list_all (effect_ok pid peers pkts) es"

definition packets_of :: "rtc_output list \<Rightarrow> rtp_in list" where
  "packets_of outs = concat (map (\<lambda>out. case out of EventOut (RtpPacketEvent pkt) \<Rightarrow> [pkt] | _ \<Rightarrow> []) outs)"

named_theorems sends "the commands an operation of a media task sends"

lemma effect_ok_quiet [simp]:
  "effect_ok pid peers pkts (RtcTimeout now)" "effect_ok pid peers pkts (RtcReceive now a data)"
  "effect_ok pid peers pkts (RtcAddCandidate c)" "effect_ok pid peers pkts (RtcPli m)" "effect_ok pid peers pkts (RtcWrite w)"
  "effect_ok pid peers pkts (SendUdp data a)" "effect_ok pid peers pkts (SendWs tx j)" "effect_ok pid peers pkts (Reply r s)"
  "effect_ok pid peers pkts (InsertRoute a i) = (i = pid)"
  "effect_ok pid peers pkts (SendCmd tx cmd) = cmd_ok pid peers pkts tx cmd"
  by (simp_all add: effect_ok_def)

lemma keyframe_cmd_ok: "(i, peer) \<in> set peers \<Longrightarrow> cmd_ok pid peers pkts (sp_cmd_tx peer) RequestKeyframeCmd"
  by (force simp: cmd_ok_def)

lemma sends_simple [sends]:
  "effects_ok pid peers pkts (request_keyframe v m)" "effects_ok pid peers pkts (to_others i peers RequestKeyframeCmd)"
  "effects_ok pid peers pkts (to_peer i peers RequestKeyframeCmd)" "effects_ok pid peers pkts (send_ws_msg ser tx msg)"
  "effects_ok pid peers pkts (transmits outs)" "effects_ok pid peers pkts (map RtcWrite ws)"
  "effects_ok pid peers pkts (map (\<lambda>peer. SendWs (sp_ws_tx peer) json) ps)"
proof -
  show "effects_ok pid peers pkts (to_peer i peers RequestKeyframeCmd)"
    using hm_get_in_set [of peers i] by (auto simp: to_peer_def keyframe_cmd_ok split: option.split)
  show "effects_ok pid peers pkts (to_others i peers RequestKeyframeCmd)"
    by (auto simp: to_others_def list_all_iff keyframe_cmd_ok split: if_splits)
  show "effects_ok pid peers pkts (transmits outs)"
    by (induction outs rule: transmits.induct) simp_all
qed (auto simp: request_keyframe_def send_ws_msg_def list_all_iff split: option.split)

lemma sends_forward: "carries pid pkts m \<Longrightarrow> set ps \<subseteq> set peers \<Longrightarrow> effects_ok pid peers pkts (fst (forward_to_peers pid m ps cs))"
proof (induction ps arbitrary: cs)
  case (Cons p ps)
  obtain i peer where p: "p = (i, peer)"
    by (cases p)
  have "i \<noteq> pid \<Longrightarrow> cmd_ok pid peers pkts (sp_cmd_tx peer) (Media m)"
    using Cons.prems p by (force simp: cmd_ok_def)
  then show ?case
    using Cons by (auto simp: p Let_def case_prod_unfold)
qed simp

lemma sends_rtp_packet:
  assumes "on_rtp_packet rnd scr peers now pkt t cs = (out, t', cs')" "pkt \<in> set pkts"
  shows "effects_ok (mt_pid t) peers pkts out"
proof -
  let ?m = "\<lparr>fm_pt = ri_pt pkt, fm_seq_no = ri_seq_no pkt, fm_time = ri_timestamp pkt, fm_marker = ri_marker pkt,
      fm_payload = ri_payload pkt, fm_is_audio = (ri_pt pkt = ow_audio_pt (mt_own t)),
      fm_is_screen = (ri_pt pkt \<noteq> ow_audio_pt (mt_own t) \<and> scr = Some (ri_ssrc pkt)),
      fm_source_pid = mt_pid t, fm_wallclock = now, fm_ext_vals = ri_ext pkt\<rparr>"
  have "out = [] \<or> out = fst (forward_to_peers (mt_pid t) ?m peers cs)"
    using assms(1) by (auto simp: on_rtp_packet_def Let_def case_prod_unfold split: if_splits)
  moreover have "carries (mt_pid t) pkts ?m"
    using assms(2) by (auto simp: carries_def)
  ultimately show ?thesis
    using sends_forward [of "mt_pid t" pkts ?m peers peers cs] by auto
qed

lemma sends_rtc_event:
  assumes "on_rtc_event rnd bwe scr peers now ev t cs nm = (out, t', cs', nm')" "set (packets_of [EventOut ev]) \<subseteq> set pkts"
  shows "effects_ok (mt_pid t) peers pkts out"
proof (cases ev)
  case (RtpPacketEvent pkt)
  then show ?thesis
    using assms sends_rtp_packet [of rnd scr peers now pkt t cs] by (auto simp: on_rtc_event_def packets_of_def split: prod.splits)
qed (use assms in \<open>auto simp: on_rtc_event_def sends split: if_splits\<close>)

lemma rtc_event_pid: "on_rtc_event rnd bwe scr peers now ev t cs nm = (out, t', cs', nm') \<Longrightarrow> mt_pid t' = mt_pid t"
  using id_rtc_event [of rnd bwe scr peers now ev t cs nm] by (simp add: task_id_def)

lemma sends_drain_loop:
  "drain_loop rnd bwe scr peers now outs t cs nm = (out, t', cs', nm', r) \<Longrightarrow> set (packets_of outs) \<subseteq> set pkts \<Longrightarrow>
     effects_ok (mt_pid t) peers pkts out"
proof (induction rnd bwe scr peers now outs t cs nm arbitrary: out rule: drain_loop.induct)
  case (3 rnd bwe scr peers now ev outs t cs nm)
  obtain out1 t1 cs1 nm1 where e: "on_rtc_event rnd bwe scr peers now ev t cs nm = (out1, t1, cs1, nm1)"
    by (metis prod_cases4)
  obtain out2 where d: "drain_loop rnd bwe scr peers now outs t1 cs1 nm1 = (out2, t', cs', nm', r)" "out = out1 @ out2"
    using "3.prems"(1) e by (auto split: prod.splits)
  have "set (packets_of outs) \<subseteq> set pkts" "set (packets_of [EventOut ev]) \<subseteq> set pkts"
    using "3.prems"(2) by (simp_all add: packets_of_def)
  then show ?case
    using "3.IH" [OF e [symmetric] refl refl d(1)] sends_rtc_event [OF e] rtc_event_pid [OF e] d(2) by simp
qed (auto simp: packets_of_def split: prod.splits)

lemma sends_before_select:
  assumes "before_select env rd t cs = (out, t', cs')"
  shows "effects_ok (mt_pid t) (rd_peers rd) (packets_of (rd_outs rd)) out"
proof -
  obtain out1 t1 cs1 nm r where d: "drain_outputs (en_rnd env) (en_bwe_json env) (rd_view rd) (rd_peers rd) (rd_now rd) (rd_outs rd) t cs =
      (out1, t1, cs1, nm, r)"
    by (metis prod_cases5)
  have "effects_ok (mt_pid t) (rd_peers rd) (packets_of (rd_outs rd)) out1"
    using d sends_drain_loop [of _ _ _ _ _ _ t cs "[]" out1 t1 cs1 nm r] by (simp add: drain_outputs_def)
  moreover have "effects_ok i ps pkts (fst (start_media v ps u))" "effects_ok i ps pkts (fst (pli_burst v ps now u))" for i ps pkts v u now
    by (simp_all add: start_media_def pli_burst_def Let_def sends)
  ultimately show ?thesis
    using assms d by (auto simp: before_select_def Let_def case_prod_unfold)
qed

lemma sends_write [sends]: "effects_ok pid peers pkts (fst (write_media v m t))"
  by (simp add: write_media_def Let_def case_prod_unfold sends)

lemma sends_after_write [sends]: "effects_ok pid peers pkts (fst w) \<Longrightarrow> effects_ok pid peers pkts (fst (after_write ser ms peers now src had scr w))"
  by (simp add: after_write_def Let_def case_prod_unfold sends split: option.split)

lemma sends_on_media [sends]: "effects_ok pid peers pkts (fst (on_media ser ms v peers now m t))"
  by (simp add: on_media_def Let_def case_prod_unfold sends)

lemma sends_flush_buffer [sends]: "effects_ok pid peers pkts (fst (flush_buffer v now ms t))"
  by (induction ms arbitrary: t) (simp_all add: Let_def case_prod_unfold sends)

lemma sends_flush_sources [sends]: "effects_ok pid peers pkts (fst (flush_sources v peers now srcs t))"
  by (induction srcs arbitrary: t) (simp_all add: Let_def case_prod_unfold sends split: option.split)

lemma sends_renegotiation [sends]: "effects_ok pid peers pkts (fst (on_renegotiation_offer mid_of v outs peers now sdp reply t))"
  by (simp add: on_renegotiation_offer_def handle_renegotiation_def Let_def case_prod_unfold sends split: option.split)

lemma sends_cmd: "effects_ok (mt_pid t) (rd_peers rd) pkts (fst (on_cmd env rd cmd t cs))"
  by (simp add: on_cmd_def case_prod_unfold on_udp_packet_def on_ice_candidate_def on_request_keyframe_def
      on_peer_count_changed_def Let_def sends split: peer_cmd.split option.split)

lemma sends_tick: "effects_ok pid peers pkts (fst (on_tick rnd ser v peers now t))"
proof -
  have "effects_ok pid peers pkts (concat (map (\<lambda>(src, _). to_peer src peers RequestKeyframeCmd) xs))" for xs :: "(participant_id \<times> time) list"
    by (induction xs) (auto simp: sends)
  then show ?thesis
    by (simp add: on_tick_def safety_pli_def active_speaker_def broadcast_speaker_def keyframe_retries_def Let_def case_prod_unfold
        sends split: option.split)
qed

lemma sends_round:
  assumes "media_round_step env rd t cs = (goes_on, out, t', cs')"
  shows "effects_ok (mt_pid t) (rd_peers rd) (packets_of (rd_outs rd)) out"
proof -
  obtain out1 t1 cs1 where b: "before_select env rd t cs = (out1, t1, cs1)"
    by (metis prod_cases3)
  have pid: "mt_pid t1 = mt_pid t"
    using id_before_select [of env rd t cs] b by (simp add: task_id_def)
  show ?thesis
    using assms b sends_before_select [OF b] pid sends_cmd [of t1 rd] sends_tick
    by (auto simp: media_round_step_def Let_def case_prod_unfold split: if_splits media_input.splits)
qed

section \<open>Channels and counters are never shared\<close>

text \<open>
  The command channel and the two in-flight counters of an entry are the entry's own: another entry, of
  another participant or in another room, has different ones.
\<close>

abbreviation entry :: "sfu_server \<Rightarrow> nat \<Rightarrow> participant_id \<Rightarrow> sfu_peer \<Rightarrow> bool" where
  "entry su a i peer \<equiv> hm_get (peers_at a su) i = Some peer"

definition chans_ok :: "sfu_server \<Rightarrow> bool" where
  "chans_ok su \<longleftrightarrow>
     (\<forall>a i p. entry su a i p \<longrightarrow> sp_audio_inflight p = sp_cmd_tx p \<and> sp_video_inflight p = Suc (sp_cmd_tx p) \<and> Suc (sp_cmd_tx p) < su_fresh su) \<and>
     (\<forall>a i p b j q. entry su a i p \<longrightarrow> entry su b j q \<longrightarrow> (a, i) \<noteq> (b, j) \<longrightarrow>
        sp_cmd_tx p \<noteq> sp_cmd_tx q \<and> sp_cmd_tx p \<noteq> Suc (sp_cmd_tx q))"

lemma chans_okD:
  assumes "chans_ok su"
  shows chans_counters: "entry su a i p \<Longrightarrow> sp_audio_inflight p = sp_cmd_tx p \<and> sp_video_inflight p = Suc (sp_cmd_tx p)"
    and chans_below: "entry su a i p \<Longrightarrow> Suc (sp_cmd_tx p) < su_fresh su"
    and chans_apart: "entry su a i p \<Longrightarrow> entry su b j q \<Longrightarrow> (a, i) \<noteq> (b, j) \<Longrightarrow> sp_cmd_tx p \<noteq> sp_cmd_tx q \<and> sp_cmd_tx p \<noteq> Suc (sp_cmd_tx q)"
  using assms by (simp_all add: chans_ok_def)

lemma chans_ok_fewer:
  assumes "chans_ok su" "\<And>a i p. entry su' a i p \<Longrightarrow> entry su a i p" "su_fresh su \<le> su_fresh su'"
  shows "chans_ok su'"
  unfolding chans_ok_def
proof (intro conjI allI impI)
  fix a i p assume "entry su' a i p"
  then show "sp_audio_inflight p = sp_cmd_tx p" "sp_video_inflight p = Suc (sp_cmd_tx p)" "Suc (sp_cmd_tx p) < su_fresh su'"
    using chans_counters [OF assms(1)] chans_below [OF assms(1)] assms(2,3) by (blast intro: less_le_trans)+
next
  fix a i p b j q assume "entry su' a i p" "entry su' b j q" "(a, i) \<noteq> (b, j)"
  then show "sp_cmd_tx p \<noteq> sp_cmd_tx q" "sp_cmd_tx p \<noteq> Suc (sp_cmd_tx q)"
    using chans_apart [OF assms(1)] assms(2) by blast+
qed

lemma chans_ok_new: "chans_ok sfu_new"
  by (simp add: chans_ok_def sfu_new_def peers_at_def)

lemma chans_ok_updates [simp]:
  "chans_ok (su\<lparr>su_sessions := ss\<rparr>) = chans_ok su" "chans_ok (su\<lparr>su_routes := rs\<rparr>) = chans_ok su"
  "chans_ok (su\<lparr>su_tasks := ts\<rparr>) = chans_ok su" "chans_ok (su\<lparr>su_all_peers := ps\<rparr>) = chans_ok su"
  "chans_ok (su\<lparr>su_rooms := rms\<rparr>) = chans_ok su" "chans_ok (send_cmds cs su) = chans_ok su"
  by (simp_all add: chans_ok_def send_cmds_def)

lemma chans_ok_install:
  assumes ok: "chans_ok su"
  shows "chans_ok (install_peer pid (new_peer tx su) a su)"
proof -
  let ?su = "install_peer pid (new_peer tx su) a su"
  have entries: "entry ?su b j q \<longleftrightarrow> (if (b, j) = (a, pid) then q = new_peer tx su else entry su b j q)" for b j q
    by auto
  have fresh: "su_fresh ?su = su_fresh su + 2" "sp_cmd_tx (new_peer tx su) = su_fresh su"
    "sp_audio_inflight (new_peer tx su) = su_fresh su" "sp_video_inflight (new_peer tx su) = Suc (su_fresh su)"
    by (simp_all add: install_peer_def new_peer_def Let_def)
  show ?thesis
    unfolding chans_ok_def entries
  proof (intro conjI allI impI)
    fix b j q assume q: "if (b, j) = (a, pid) then q = new_peer tx su else entry su b j q"
    then show "sp_audio_inflight q = sp_cmd_tx q" "sp_video_inflight q = Suc (sp_cmd_tx q)" "Suc (sp_cmd_tx q) < su_fresh ?su"
      using chans_counters [OF ok, of b j q] chans_below [OF ok, of b j q] fresh by (auto split: if_splits)
    fix c k r assume r: "if (c, k) = (a, pid) then r = new_peer tx su else entry su c k r" and ne: "(b, j) \<noteq> (c, k)"
    show "sp_cmd_tx q \<noteq> sp_cmd_tx r" "sp_cmd_tx q \<noteq> Suc (sp_cmd_tx r)"
      using q r ne chans_apart [OF ok, of b j q c k r] chans_below [OF ok, of b j q] chans_below [OF ok, of c k r] fresh
      by (auto split: if_splits)
  qed
qed

lemma chans_ok_spawn [simp]: "chans_ok (spawn_media env pid peer a ans su) = chans_ok su"
  by (simp add: spawn_media_def Let_def split: prod.split)

lemma chans_ok_on_offer: "chans_ok su \<Longrightarrow> chans_ok (snd (on_offer env sdp pid tx su))"
proof -
  assume ok: "chans_ok su"
  have "chans_ok (snd (first_offer env sdp pid tx a su))" for a
    using ok by (simp add: first_offer_def Let_def chans_ok_install split: option.split)
  moreover have "chans_ok (snd (renegotiate_offer env sdp pid tx a su))" for a
    using ok by (auto simp: renegotiate_offer_def intro: chans_ok_fewer split: option.split)
  ultimately show ?thesis
    using ok by (auto simp: on_offer_def Let_def split: option.split)
qed

lemma chans_ok_ensure_room: "chans_ok su \<Longrightarrow> chans_ok (ensure_room rid su)"
proof -
  assume ok: "chans_ok su"
  show ?thesis
    by (rule chans_ok_fewer [OF ok]) (auto simp: ensure_room_def peers_at_def split: option.splits if_splits)
qed

lemma chans_ok_on_join: "chans_ok su \<Longrightarrow> chans_ok (fst (on_join is_closed rid pid (su, st)))"
  by (auto simp: on_join_def Let_def notify_pruned_def notify_rejoin_def notify_count_def chans_ok_ensure_room split: option.split)

lemma chans_ok_on_message:
  assumes "chans_ok su" "sfu_on_message env is_closed sdp raw pid tx (su, st) = (handled, out, su', st')"
  shows "chans_ok su'"
proof (cases sdp)
  case (Offer p q r s)
  then show ?thesis
    using assms chans_ok_on_offer [OF assms(1), of env s pid tx] by (auto simp: sfu_on_message_def split: prod.splits)
next
  case (Join p rid n tok)
  then show ?thesis
    using assms chans_ok_on_join [OF assms(1), of is_closed rid pid st] by (auto simp: sfu_on_message_def split: prod.splits)
qed (use assms in \<open>auto simp: sfu_on_message_def on_screen_share_def on_mute_audio_def Let_def split: prod.splits\<close>)

lemma put_peers_fresh [simp]: "su_fresh (put_peers a p su) = su_fresh su" "su_fresh (send_cmds cs su) = su_fresh su"
  by (simp_all add: put_peers_def send_cmds_def)

lemma chans_ok_on_disconnect:
  assumes "chans_ok su" "sfu_on_disconnect env pid affected (su, st) = (out, su', st')"
  shows "chans_ok su'"
proof -
  have leave: "chans_ok (snd (leave_room ser pid affected os))" if "chans_ok (snd os)" for ser affected os
  proof -
    obtain rid e out su where [simp]: "affected = (rid, e)" "os = (out, su)"
      by (metis surj_pair)
    have "chans_ok (put_peers a (hm_remove pid (peers_at a su)) (send_cmds cs su))" for a cs
      by (rule chans_ok_fewer [of su]) (use that in \<open>auto split: if_splits\<close>)
    then show ?thesis
      using that by (simp add: leave_room_def Let_def split: option.split)
  qed
  have "chans_ok (snd (fold (leave_room (ev_ser env) pid) affected os))" if "chans_ok (snd os)" for os
    using that leave by (induction affected arbitrary: os) simp_all
  from this [of "([], su\<lparr>su_routes := filter (\<lambda>e. snd e \<noteq> pid) (su_routes su), su_all_peers := hm_remove pid (su_all_peers su)\<rparr>)"]
  show ?thesis
    using assms by (auto simp: sfu_on_disconnect_def Let_def split: prod.splits)
qed

interpretation sfu_chans: hook_invariant "sfu_hooks env" chans_ok
  by unfold_locales
    (auto simp: sfu_hooks_def noop_hooks_def on_authenticate_default_def on_rate_check_default_def
      dest: chans_ok_on_message chans_ok_on_disconnect)

lemma chans_ok_effects: "chans_ok (fold apply_effect es su) = chans_ok su"
proof (induction es arbitrary: su)
  case (Cons e es)
  then show ?case
    by (cases e) simp_all
qed simp

lemma chans_ok_task_round:
  assumes ok: "chans_ok su" and round: "task_round menv rd i (su, cs) = (ws, su', cs')"
  shows "chans_ok su'"
proof (cases "i < length (su_tasks su)")
  case True
  obtain a t where at: "su_tasks su ! i = (a, t)"
    by fastforce
  obtain goes_on out t' cs2 where step: "media_round_step menv (rd\<lparr>rd_peers := peers_at a su\<rparr>) t cs = (goes_on, out, t', cs2)"
    by (metis prod_cases4)
  let ?su1 = "(fold apply_effect out su)\<lparr>su_tasks := (su_tasks su)[i := (a, t')]\<rparr>"
  have ok1: "chans_ok ?su1"
    using ok by (simp add: chans_ok_effects)
  have "chans_ok (put_peers a (task_exit (mt_pid t') (mt_gen t') (peers_at a ?su1)) ?su1)"
    by (rule chans_ok_fewer [OF ok1]) (auto simp: task_exit_get split: if_splits)
  then have "chans_ok (end_task i ?su1)"
    using True by (simp add: end_task_def)
  moreover have "su' = ?su1 \<or> su' = end_task i ?su1"
    using round True at step by (auto simp: task_round_def Let_def)
  ultimately show ?thesis
    using ok1 by auto
qed (use assms in \<open>simp add: task_round_def\<close>)

lemma system_chans: "system_reach ser show de sv cs \<Longrightarrow> chans_ok (sv_hooks sv)"
proof (induction rule: system_reach.induct)
  case sys_start
  show ?case
    by (simp add: server_new_def chans_ok_new)
next
  case (sys_signal sv cs env e)
  then show ?case
    by (simp add: sfu_chans.sv_step_hook)
next
  case (sys_media sv cs menv rd i ws su' cs')
  then show ?case
    using chans_ok_task_round by simp
qed

section \<open>Two participants\<close>

definition pair_de :: "string \<Rightarrow> sdp_message option" where
  "pair_de msg = (if msg = ''o'' then Some (Offer (ParticipantId 1) None ''a'' ''v=0'')
     else if msg = ''p'' then Some (Offer (ParticipantId 2) None ''a'' ''v=0'')
     else Some (Join (ParticipantId (if msg = ''j'' then 1 else 2)) ''a'' None None))"

definition pair_events :: "sv_event list" where
  "pair_events = [Accept 0, Receive 0 (Some ''j'')] @ replicate 5 (Advance 0 (\<lambda>_. False)) @
     [Receive 0 (Some ''o'')] @ replicate 2 (Advance 0 (\<lambda>_. False)) @
     [Accept 1, Receive 1 (Some ''k'')] @ replicate 5 (Advance 1 (\<lambda>_. False)) @
     [Receive 1 (Some ''p'')] @ replicate 2 (Advance 1 (\<lambda>_. False))"

definition pair_system :: "sfu_server server" where
  "pair_system = system_run (\<lambda>_. None) (\<lambda>_. []) pair_de demo_sfu_env pair_events (server_new sfu_new)"

lemma pair_reach: "system_reach (\<lambda>_. None) (\<lambda>_. []) pair_de pair_system (\<lambda>_. 0)"
  unfolding pair_system_def by (rule system_run_reach [OF sys_start])

definition system_summary :: "sfu_server \<Rightarrow> (participant_id \<times> nat \<times> nat \<times> nat) list \<times> (nat \<times> participant_id) list" where
  "system_summary su = (map (\<lambda>e. (fst e, sp_cmd_tx (snd e), sp_audio_inflight (snd e), sp_video_inflight (snd e))) (peers_at 0 su),
     map (\<lambda>e. (fst e, mt_pid (snd e))) (su_tasks su))"

lemma pair_summary:
  "system_summary (sv_hooks pair_system) =
     ([(ParticipantId 1, 0, 0, 1), (ParticipantId 2, 2, 2, 3)], [(0, ParticipantId 1), (0, ParticipantId 2)])"
  by code_simp

lemma pair_first:
  "\<exists>q. entry (sv_hooks pair_system) 0 (ParticipantId 1) q \<and> sp_cmd_tx q = 0"
  "length (su_tasks (sv_hooks pair_system)) = 2"
  "\<exists>t. su_tasks (sv_hooks pair_system) ! 0 = (0, t) \<and> mt_pid t = ParticipantId 1"
  using pair_summary by (auto simp: system_summary_def map_eq_Cons_conv)

lemma pair_second:
  "\<exists>q. entry (sv_hooks pair_system) 0 (ParticipantId 2) q \<and> sp_cmd_tx q = 2 \<and> sp_audio_inflight q = 2 \<and> sp_video_inflight q = 3"
  using pair_summary by (auto simp: system_summary_def map_eq_Cons_conv)

section \<open>Media stays in its room\<close>

lemma effects_cmds:
  "\<exists>cmds. su_cmds (fold apply_effect es su) = su_cmds su @ cmds \<and> (\<forall>(tx, cmd) \<in> set cmds. SendCmd tx cmd \<in> set es)"
proof (induction es arbitrary: su)
  case (Cons e es)
  obtain cmds where "su_cmds (fold apply_effect es (apply_effect e su)) = su_cmds (apply_effect e su) @ cmds"
    "\<forall>(tx, cmd) \<in> set cmds. SendCmd tx cmd \<in> set es"
    using Cons.IH by blast
  then show ?case
    by (cases e) fastforce+
qed simp

lemma task_round_cmds:
  assumes "i < length (su_tasks su)" "su_tasks su ! i = (a, t)" "task_round menv rd i (su, cs) = (ws, su', cs')"
  shows "\<exists>cmds. su_cmds su' = su_cmds su @ cmds \<and> (\<forall>(tx, cmd) \<in> set cmds. cmd_ok (mt_pid t) (peers_at a su) (packets_of (rd_outs rd)) tx cmd)"
proof -
  obtain goes_on out t' cs2 where step: "media_round_step menv (rd\<lparr>rd_peers := peers_at a su\<rparr>) t cs = (goes_on, out, t', cs2)"
    by (metis prod_cases4)
  let ?su1 = "(fold apply_effect out su)\<lparr>su_tasks := (su_tasks su)[i := (a, t')]\<rparr>"
  have "su_cmds (end_task i ?su1) = su_cmds ?su1"
    by (simp add: end_task_def split: prod.split)
  moreover have "su' = ?su1 \<or> su' = end_task i ?su1"
    using assms step by (auto simp: task_round_def Let_def)
  ultimately have "su_cmds su' = su_cmds (fold apply_effect out su)"
    by auto
  moreover have "effects_ok (mt_pid t) (peers_at a su) (packets_of (rd_outs rd)) out"
    using sends_round [OF step] by simp
  ultimately show ?thesis
    using effects_cmds [of out su] by (fastforce simp: list_all_iff)
qed

text \<open>
  C2: In every reachable server, a media task commands only tasks of its own room, and it asks them for key
  frames or hands them packets that its session has just delivered, marked with its own participant as their
  source; such a packet never goes back to that participant, and no task of another room gets it.
\<close>

theorem media_stays_in_room:
  assumes "system_reach ser show de sv cs" "i < length (su_tasks (sv_hooks sv))" "su_tasks (sv_hooks sv) ! i = (a, t)"
    and "task_round menv rd i (sv_hooks sv, cs) = (ws, su', cs')"
  shows "\<exists>cmds. su_cmds su' = su_cmds (sv_hooks sv) @ cmds \<and> (\<forall>(tx, cmd) \<in> set cmds.
    (\<forall>b j q. entry (sv_hooks sv) b j q \<and> sp_cmd_tx q = tx \<longrightarrow> b = a \<and> (case cmd of
        RequestKeyframeCmd \<Rightarrow> True
      | Media m \<Rightarrow> j \<noteq> mt_pid t \<and> carries (mt_pid t) (packets_of (rd_outs rd)) m
      | _ \<Rightarrow> False)))"
proof -
  let ?su = "sv_hooks sv"
  have ok: "chans_ok ?su" "hm_wf (peers_at a ?su)"
    using system_chans [OF assms(1)] sfu_inv_wf(2) system_media_keeps [OF assms(1)] by blast+
  obtain cmds where cmds: "su_cmds su' = su_cmds ?su @ cmds"
    "\<forall>(tx, cmd) \<in> set cmds. cmd_ok (mt_pid t) (peers_at a ?su) (packets_of (rd_outs rd)) tx cmd"
    using task_round_cmds [OF assms(2-4)] by blast
  have "b = a \<and> (case cmd of RequestKeyframeCmd \<Rightarrow> True
      | Media m \<Rightarrow> j \<noteq> mt_pid t \<and> carries (mt_pid t) (packets_of (rd_outs rd)) m | _ \<Rightarrow> False)"
    if "(tx, cmd) \<in> set cmds" "entry ?su b j q" "sp_cmd_tx q = tx" for tx cmd b j q
  proof -
    have "cmd_ok (mt_pid t) (peers_at a ?su) (packets_of (rd_outs rd)) tx cmd"
      using cmds(2) that(1) by blast
    then obtain k peer where k: "(k, peer) \<in> set (peers_at a ?su)" "tx = sp_cmd_tx peer"
      "case cmd of RequestKeyframeCmd \<Rightarrow> True | Media m \<Rightarrow> k \<noteq> mt_pid t \<and> carries (mt_pid t) (packets_of (rd_outs rd)) m | _ \<Rightarrow> False"
      by (auto simp: cmd_ok_def)
    have "entry ?su a k peer"
      using k(1) ok(2) by (simp add: hm_in_set_get)
    then have same: "b = a" "j = k"
      using chans_apart [OF ok(1) that(2)] that(3) k(2) by blast+
    show ?thesis
      unfolding same using k(3) by (intro conjI refl)
  qed
  then show ?thesis
    using cmds(1) by (intro exI [of _ cmds]) auto
qed

definition pair_round :: media_round where
  "pair_round = (demo_round RequestKeyframeCmd)\<lparr>rd_outs := [EventOut (RtpPacketEvent flow_packet)]\<rparr>"

theorem media_stays_in_room_witness:
  "\<exists>cmds. su_cmds (fst (snd (task_round demo_env pair_round 0 (sv_hooks pair_system, \<lambda>_. 0)))) = su_cmds (sv_hooks pair_system) @ cmds \<and>
    list_all (\<lambda>(tx, cmd). case cmd of Media m \<Rightarrow> tx \<noteq> 0 | _ \<Rightarrow> True) cmds"
proof -
  obtain q t where q: "entry (sv_hooks pair_system) 0 (ParticipantId 1) q" "sp_cmd_tx q = 0"
      and t: "su_tasks (sv_hooks pair_system) ! 0 = (0, t)" "mt_pid t = ParticipantId 1"
    using pair_first by blast
  obtain ws su cs where r: "task_round demo_env pair_round 0 (sv_hooks pair_system, \<lambda>_. 0) = (ws, su, cs)"
    by (metis prod_cases3)
  obtain cmds where cmds: "su_cmds su = su_cmds (sv_hooks pair_system) @ cmds" "\<forall>(tx, cmd) \<in> set cmds.
    (\<forall>b j q. entry (sv_hooks pair_system) b j q \<and> sp_cmd_tx q = tx \<longrightarrow> b = 0 \<and> (case cmd of
        RequestKeyframeCmd \<Rightarrow> True
      | Media m \<Rightarrow> j \<noteq> mt_pid t \<and> carries (mt_pid t) (packets_of (rd_outs pair_round)) m
      | _ \<Rightarrow> False))"
    using media_stays_in_room [OF pair_reach _ t(1) r] pair_first(2) by auto
  have "list_all (\<lambda>(tx, cmd). case cmd of Media m \<Rightarrow> tx \<noteq> 0 | _ \<Rightarrow> True) cmds"
    using cmds(2) q t(2) by (fastforce simp: list_all_iff split: peer_cmd.split)
  then show ?thesis
    using cmds(1) by (intro exI [of _ cmds]) (simp only: r fst_conv snd_conv simp_thms)
qed

end
