(* ===== verification/Sfu_Delivery.thy ===== *)
theory Sfu_Delivery
  imports Sfu_Isolation
begin

text \<open>
  The way of a packet through the media server: the participants of the room that the task of its sender hands
  it to, and the write on the session of a receiver.
\<close>

section \<open>Everybody else gets a packet\<close>

definition counter_of :: "forwarded_media \<Rightarrow> sfu_peer \<Rightarrow> nat" where
  "counter_of m peer = (if fm_is_audio m then sp_audio_inflight peer else sp_video_inflight peer)"

definition cap_of :: "forwarded_media \<Rightarrow> 64 word" where
  "cap_of m = (if fm_is_audio m then AUDIO_INFLIGHT_CAP else VIDEO_INFLIGHT_CAP)"

text \<open>The peers that have room for the packet, by the counters at the start.\<close>

definition receivers :: "participant_id \<Rightarrow> forwarded_media \<Rightarrow> peers \<Rightarrow> counters \<Rightarrow> peers" where
  "receivers pid m ps cs = filter (\<lambda>e. fst e \<noteq> pid \<and> cs (counter_of m (snd e)) < cap_of m) ps"

lemma forward_to_peers_Cons:
  "forward_to_peers pid m (e # ps) cs =
    (if fst e \<noteq> pid \<and> cs (counter_of m (snd e)) < cap_of m
     then case forward_to_peers pid m ps (cs(counter_of m (snd e) := cs (counter_of m (snd e)) + 1)) of
            (out, cs') \<Rightarrow> (SendCmd (sp_cmd_tx (snd e)) (Media m) # out, cs')
     else forward_to_peers pid m ps cs)"
  by (cases e) (auto simp: counter_of_def cap_of_def try_reserve_media_slot_def Let_def not_le split: prod.split)

lemma receivers_cong: "(\<And>e. e \<in> set ps \<Longrightarrow> cs' (counter_of m (snd e)) = cs (counter_of m (snd e))) \<Longrightarrow> receivers pid m ps cs' = receivers pid m ps cs"
  by (auto simp: receivers_def intro!: filter_cong)

lemma forward_exact:
  assumes "distinct (map (\<lambda>e. counter_of m (snd e)) ps)"
  shows "fst (forward_to_peers pid m ps cs) = map (\<lambda>e. SendCmd (sp_cmd_tx (snd e)) (Media m)) (receivers pid m ps cs) \<and>
    snd (forward_to_peers pid m ps cs) =
      (\<lambda>c. if c \<in> (\<lambda>e. counter_of m (snd e)) ` set (receivers pid m ps cs) then cs c + 1 else cs c)"
  using assms
proof (induction ps arbitrary: cs)
  case Nil
  show ?case
    by (simp add: receivers_def)
next
  case (Cons e ps)
  let ?c = "counter_of m (snd e)"
  have "counter_of m (snd e') \<noteq> ?c" if "e' \<in> set ps" for e'
    using Cons.prems that by (auto simp: image_iff)
  define cs1 where "cs1 = cs(?c := cs ?c + 1)"
  then have cs1: "cs1 x = (if x = ?c then cs ?c + 1 else cs x)" for x
    by simp
  have other: "receivers pid m ps cs1 = receivers pid m ps cs"
    using \<open>\<And>e'. e' \<in> set ps \<Longrightarrow> counter_of m (snd e') \<noteq> ?c\<close> by (intro receivers_cong) (simp add: cs1)
  have notin: "?c \<notin> (\<lambda>e. counter_of m (snd e)) ` set (receivers pid m ps cs)"
    using Cons.prems by (auto simp: receivers_def)
  show ?case
  proof (cases "fst e \<noteq> pid \<and> cs ?c < cap_of m")
    case True
    have "receivers pid m (e # ps) cs = e # receivers pid m ps cs"
      using True by (simp add: receivers_def)
    moreover have "forward_to_peers pid m (e # ps) cs =
        (SendCmd (sp_cmd_tx (snd e)) (Media m) # fst (forward_to_peers pid m ps cs1), snd (forward_to_peers pid m ps cs1))"
      using True by (simp add: forward_to_peers_Cons cs1_def case_prod_unfold)
    moreover have "fst (forward_to_peers pid m ps cs1) = map (\<lambda>e. SendCmd (sp_cmd_tx (snd e)) (Media m)) (receivers pid m ps cs)"
      "snd (forward_to_peers pid m ps cs1) =
        (\<lambda>c. if c \<in> (\<lambda>e. counter_of m (snd e)) ` set (receivers pid m ps cs) then cs1 c + 1 else cs1 c)"
      using Cons.IH [of cs1] Cons.prems by (simp_all only: other distinct.simps list.map)
    ultimately show ?thesis
      using notin by (simp add: fun_eq_iff) (metis cs1)
  next
    case False
    then have "receivers pid m (e # ps) cs = receivers pid m ps cs"
      by (simp add: receivers_def)
    then show ?thesis
      using False Cons by (auto simp: forward_to_peers_Cons)
  qed
qed

lemma distinct_counters:
  assumes ok: "chans_ok su" and wf: "hm_wf (peers_at a su)"
  shows "distinct (map (\<lambda>e. counter_of m (snd e)) (peers_at a su))"
proof -
  have ent: "entry su a (fst e) (snd e)" if "e \<in> set (peers_at a su)" for e
    using that wf hm_in_set_get [of "peers_at a su" "fst e" "snd e"] by simp
  have "counter_of m (snd e) \<noteq> counter_of m (snd e')" if "e \<in> set (peers_at a su)" "e' \<in> set (peers_at a su)" "e \<noteq> e'" for e e'
  proof -
    have "fst e \<noteq> fst e'"
      using ent [OF that(1)] ent [OF that(2)] that(3) by (metis option.inject prod.collapse)
    then show ?thesis
      using chans_apart [OF ok ent [OF that(1)] ent [OF that(2)]] chans_counters [OF ok ent [OF that(1)]]
        chans_counters [OF ok ent [OF that(2)]] by (simp add: counter_of_def)
  qed
  moreover have "distinct (peers_at a su)"
    using wf by (auto simp: hm_wf_def distinct_map)
  ultimately show ?thesis
    by (auto simp: distinct_map inj_on_def)
qed

lemma packet_reaches_all:
  assumes "system_reach ser show de sv cs"
  shows "forward_to_peers pid m (peers_at a (sv_hooks sv)) cs =
    (map (\<lambda>e. SendCmd (sp_cmd_tx (snd e)) (Media m)) (receivers pid m (peers_at a (sv_hooks sv)) cs),
     \<lambda>c. if c \<in> (\<lambda>e. counter_of m (snd e)) ` set (receivers pid m (peers_at a (sv_hooks sv)) cs) then cs c + 1 else cs c)"
  using forward_exact [OF distinct_counters [OF system_chans [OF assms] sfu_inv_wf(2) [OF system_media_keeps [OF assms]]]]
  by (simp add: prod_eq_iff)

text \<open>
  C4: In every reachable server a packet is handed to exactly the other participants of the room whose
  in-flight count is below the cap, once each, and exactly their counts go up by one.
\<close>

theorem packet_reaches_everybody_else:
  assumes "system_reach ser show de sv cs"
  shows "forward_to_peers pid m (peers_at a (sv_hooks sv)) cs =
    (map (\<lambda>e. SendCmd (sp_cmd_tx (snd e)) (Media m)) (receivers pid m (peers_at a (sv_hooks sv)) cs),
     \<lambda>c. if c \<in> (\<lambda>e. counter_of m (snd e)) ` set (receivers pid m (peers_at a (sv_hooks sv)) cs) then cs c + 1 else cs c)"
  by (rule packet_reaches_all [OF assms])

theorem packet_reaches_everybody_else_witness:
  "fst (forward_to_peers (ParticipantId 2) (demo_packet True False) (peers_at 0 (sv_hooks demo_system)) (\<lambda>_. 0)) =
     map (\<lambda>e. SendCmd (sp_cmd_tx (snd e)) (Media (demo_packet True False)))
       (receivers (ParticipantId 2) (demo_packet True False) (peers_at 0 (sv_hooks demo_system)) (\<lambda>_. 0))"
  by (simp add: packet_reaches_everybody_else [OF demo_system_reach])

section \<open>From one session to another\<close>

definition line_ready :: "forwarded_media \<Rightarrow> media_task \<Rightarrow> bool" where
  "line_ready m u \<longleftrightarrow> hm_contains (mt_source_slots u) (fm_source_pid m) \<or>
     (free_audio_mid (mt_all_mids u) (mt_own u) (mt_source_slots u) \<noteq> None \<and>
      free_video_mid (mt_all_mids u) (mt_own u) (mt_source_slots u) \<noteq> None)"

definition media_line :: "forwarded_media \<Rightarrow> source_slot \<Rightarrow> mid" where
  "media_line m s = (if fm_is_audio m then sl_audio_mid s else sl_video_mid s)"

lemma slot_for_media_ready:
  assumes "line_ready m u"
  shows "fst (slot_for_media m u)" "hm_get (snd (slot_for_media m u)) (fm_source_pid m) \<noteq> None"
  using assms hm_get_None_iff [of "mt_source_slots u" "fm_source_pid m"]
  by (auto simp: line_ready_def slot_for_media_def get_or_create_slot_def Let_def split: option.split)

lemma write_media_delivers:
  assumes slot: "hm_get (mt_source_slots u) (fm_source_pid m) = Some s" and "\<not> fm_is_screen m" and "rv_tx v (media_line m s)"
  shows "\<exists>w u' s'. write_media v m u = ([RtcWrite w], u') \<and> rw_media w = m \<and> rw_mid w = media_line m s' \<and>
    hm_get (mt_source_slots u') (fm_source_pid m) = Some s'"
  using assms
  by (cases "fm_is_audio m")
    (auto simp: write_media_def write_forwarded_rtp_def get_or_create_slot_def pick_stream_def media_line_def bump_audio_def
      bump_video_def Let_def)

lemma on_media_delivers:
  assumes ready: "line_ready m u" and heard: "fm_is_audio m \<Longrightarrow> fm_source_pid m \<notin> set (mt_muted_peers u)"
    and screen: "\<not> fm_is_screen m" and tx: "\<And>mid. rv_tx v mid"
  shows "\<exists>w s. rtc_writes (fst (on_media ser ms v peers now m u)) = [w] \<and> rw_media w = m \<and> rw_mid w = media_line m s \<and>
    hm_get (mt_source_slots (snd (on_media ser ms v peers now m u))) (fm_source_pid m) = Some s"
proof -
  let ?u = "u\<lparr>mt_source_slots := snd (slot_for_media m u)\<rparr>"
  obtain s where "hm_get (mt_source_slots ?u) (fm_source_pid m) = Some s"
    using slot_for_media_ready(2) [OF ready] by auto
  then obtain w u1 s' where w: "write_media v m ?u = ([RtcWrite w], u1)" "rw_media w = m" "rw_mid w = media_line m s'"
    "hm_get (mt_source_slots u1) (fm_source_pid m) = Some s'"
    using write_media_delivers [of ?u m s v] screen tx by blast
  let ?had = "hm_contains (mt_source_slots u) (fm_source_pid m)" and ?scr = "slot_screen_mid (fm_source_pid m) (mt_source_slots u) \<noteq> None"
  have "on_media ser ms v peers now m u = after_write ser ms peers now (fm_source_pid m) ?had ?scr ([RtcWrite w], u1)"
    using heard slot_for_media_ready(1) [OF ready] w(1) by (auto simp: on_media_def Let_def case_prod_unfold)
  then show ?thesis
    using after_write_shape [of ser ms peers now "fm_source_pid m" ?had ?scr "[RtcWrite w]" u1] w(2-4) by auto
qed


definition pair_receiver :: media_task where
  "pair_receiver = media_start (ParticipantId 2) 1 ''a'' 2 2 3 111 96 0 demo_mids"

definition pair_sender :: media_task where
  "pair_sender = flow_task\<lparr>mt_muted := False\<rparr>"


end
