(* ===== verification/Signaling_Refinement.thy ===== *)
theory Signaling_Refinement
  imports Signaling_Connection
begin

text \<open>
  What the engine of \<open>seameet-signaling/src/engine.rs\<close> promises about membership, as a transition system on
  who is a member of which room, and the proof that the engine, with any hooks that respect the promise,
  implements it step by step.
\<close>

section \<open>The abstract system\<close>

type_synonym membership = "string \<Rightarrow> participant_id \<Rightarrow> member option"

definition live_of :: "(chan \<Rightarrow> bool) \<Rightarrow> (participant_id \<Rightarrow> member option) \<Rightarrow> participant_id \<Rightarrow> member option" where
  "live_of dead ms i = (case ms i of Some m \<Rightarrow> if dead (mb_sink m) then None else Some m | None \<Rightarrow> None)"

definition set_media :: "participant_id \<Rightarrow> (member_media_state \<Rightarrow> member_media_state) \<Rightarrow> (participant_id \<Rightarrow> member option) \<Rightarrow>
    participant_id \<Rightarrow> member option" where
  "set_media i f ms j = map_option (\<lambda>m. if j = i then m\<lparr>mb_media := f (mb_media m)\<rparr> else m) (ms j)"

text \<open>
  A room drops members whose connection is gone; somebody enters a room that has a place; somebody leaves one
  room, or all of them; a member's media flags change; or nothing happens.
\<close>

inductive mem_step :: "nat \<Rightarrow> membership \<Rightarrow> membership \<Rightarrow> bool" for maxm where
  mem_idle: "mem_step maxm ms ms"
| mem_prune: "mem_step maxm ms (ms(rid := live_of dead (ms rid)))"
| mem_enter: "card (dom (live_of dead (ms rid))) < maxm \<Longrightarrow>
    mem_step maxm ms (ms(rid := (live_of dead (ms rid))(i \<mapsto> member_with_display_name i tx name)))"
| mem_leave: "mem_step maxm ms (ms(rid := (ms rid)(i := None)))"
| mem_vanish: "mem_step maxm ms (\<lambda>rid. (ms rid)(i := None))"
| mem_flag: "mem_step maxm ms (ms(rid := set_media i f (ms rid)))"

inductive mem_reach :: "nat \<Rightarrow> membership \<Rightarrow> bool" for maxm where
  mem_start: "mem_reach maxm (\<lambda>_. Map.empty)"
| mem_more: "mem_reach maxm ms \<Longrightarrow> mem_step maxm ms ms' \<Longrightarrow> mem_reach maxm ms'"

section \<open>Its properties\<close>

definition places_ok :: "nat \<Rightarrow> membership \<Rightarrow> bool" where
  "places_ok maxm ms \<longleftrightarrow> (\<forall>rid. finite (dom (ms rid)) \<and> card (dom (ms rid)) \<le> maxm) \<and>
     (\<forall>rid i m. ms rid i = Some m \<longrightarrow> mb_id m = i)"

lemma live_of_sub: "dom (live_of dead ms) \<subseteq> dom ms"
  by (auto simp: live_of_def split: option.splits)

lemma live_of_Some: "live_of dead ms i = Some m \<Longrightarrow> ms i = Some m"
  by (auto simp: live_of_def split: option.splits if_splits)

lemma dom_set_media [simp]: "dom (set_media i f ms) = dom ms"
  by (auto simp: set_media_def)

lemma member_with_display_name_id [simp]: "mb_id (member_with_display_name i tx name) = i"
  by (simp add: member_with_display_name_def)

lemma places_ok_room:
  assumes "places_ok maxm ms" "finite (dom r) \<and> card (dom r) \<le> maxm" "\<And>i m. r i = Some m \<Longrightarrow> mb_id m = i"
  shows "places_ok maxm (ms(rid := r))"
  using assms by (simp add: places_ok_def)

lemma places_ok_less:
  "places_ok maxm ms \<Longrightarrow> dom r \<subseteq> dom (ms rid) \<Longrightarrow> finite (dom r) \<and> card (dom r) \<le> maxm"
  unfolding places_ok_def by (meson card_mono finite_subset order_trans)

lemma places_ok_step: "mem_step maxm ms ms' \<Longrightarrow> places_ok maxm ms \<Longrightarrow> places_ok maxm ms'"
proof (induction rule: mem_step.induct)
  case (mem_prune ms rid dead)
  show ?case
    by (rule places_ok_room [OF mem_prune places_ok_less [OF mem_prune live_of_sub]])
      (use mem_prune in \<open>auto simp: places_ok_def dest: live_of_Some\<close>)
next
  case (mem_enter dead ms rid i tx name)
  let ?live = "live_of dead (ms rid)"
  have fin: "finite (dom ?live)"
    using places_ok_less [OF mem_enter(2) live_of_sub] by blast
  have "card (dom (?live(i \<mapsto> member_with_display_name i tx name))) \<le> Suc (card (dom ?live))"
    using fin by (simp add: card_insert_if)
  then have size: "finite (dom (?live(i \<mapsto> member_with_display_name i tx name))) \<and>
      card (dom (?live(i \<mapsto> member_with_display_name i tx name))) \<le> maxm"
    using fin mem_enter(1) by simp
  have "mb_id m = j" if "(?live(i \<mapsto> member_with_display_name i tx name)) j = Some m" for j m
  proof (cases "j = i")
    case False
    then have "ms rid j = Some m"
      using that live_of_Some [of dead "ms rid" j m] by simp
    then show ?thesis
      using mem_enter(2) by (simp add: places_ok_def)
  qed (use that in auto)
  from places_ok_room [OF mem_enter(2) size this] show ?case .
next
  case (mem_leave ms rid i)
  have "dom ((ms rid)(i := None)) \<subseteq> dom (ms rid)"
    by auto
  from places_ok_less [OF mem_leave this] show ?case
    by (rule places_ok_room [OF mem_leave]) (use mem_leave in \<open>simp add: places_ok_def split: if_splits\<close>)
next
  case (mem_vanish ms i)
  show ?case
    unfolding places_ok_def
  proof (intro conjI allI impI)
    fix rid
    have "dom ((ms rid)(i := None)) \<subseteq> dom (ms rid)"
      by auto
    from places_ok_less [OF mem_vanish this]
    show "finite (dom ((ms rid)(i := None)))" "card (dom ((ms rid)(i := None))) \<le> maxm"
      by blast+
  next
    fix rid j m assume "((ms rid)(i := None)) j = Some m"
    then have "ms rid j = Some m"
      by (simp split: if_splits)
    then show "mb_id m = j"
      using mem_vanish by (simp add: places_ok_def)
  qed
next
  case (mem_flag ms rid i f)
  have "finite (dom (set_media i f (ms rid))) \<and> card (dom (set_media i f (ms rid))) \<le> maxm"
    by (rule places_ok_less [OF mem_flag, of _ rid]) simp
  then show ?case
    using mem_flag by (intro places_ok_room [OF mem_flag]) (auto simp: places_ok_def set_media_def split: if_splits)
qed

lemma places_ok_reach: "mem_reach maxm ms \<Longrightarrow> places_ok maxm ms"
  by (induction rule: mem_reach.induct) (simp add: places_ok_def, blast intro: places_ok_step)

section \<open>The engine implements it\<close>

lemma live_members_of: "live_members dead st rid = live_of dead (abs_members st rid)"
  by (simp add: live_members_def [abs_def] live_of_def [abs_def])

lemma prune_refines:
  "state_inv st \<Longrightarrow> mem_step maxm (abs_members st) (abs_members (update_room rid (\<lambda>r. snd (prune_stale dead r)) st))"
  by (simp add: abs_prune live_members_of mem_prune)

lemma flag_refines: "mem_step maxm (abs_members st) (abs_members (update_room rid (update_media i f) st))"
  using mem_flag [of maxm "abs_members st" rid i f] by (simp add: abs_update_media set_media_def [abs_def])

lemma not_full_place: "\<not> room_full dead maxm rid st \<Longrightarrow> 0 < maxm \<Longrightarrow> card (dom (live_members dead st rid)) < maxm"
  by (auto simp: room_full_def live_members_def [abs_def] abs_members_def dom_def)

lemma join_refines:
  assumes "state_inv st" "0 < maxm"
  shows "mem_step maxm (abs_members st) (abs_members (snd (dispatch_join ser show dead p rid name tx maxm st)))"
proof -
  have new: "abs_members (snd (dispatch_join ser show dead p rid name tx maxm st)) = (abs_members st)(rid :=
      (if room_full dead maxm rid st then live_members dead st rid
       else (live_members dead st rid)(p \<mapsto> member_with_display_name p tx name)))"
    unfolding dispatch_join_def Let_def room_full_iff [OF assms(1)] by (simp add: abs_prune [OF assms(1)] abs_join case_prod_unfold)
  show ?thesis
  proof (cases "room_full dead maxm rid st")
    case True
    then show ?thesis
      by (simp add: new live_members_of mem_prune)
  next
    case False
    then show ?thesis
      using mem_enter [of dead "abs_members st" rid maxm p tx name] not_full_place [OF False assms(2)]
      by (simp add: new live_members_of)
  qed
qed

lemma chat_refines: "abs_members (update_room rid (push_chat raw maxh) st) = abs_members st"
  by (cases "state_room st rid") (simp_all add: abs_update_room fun_upd_idem abs_members_def)

lemma dispatch_refines:
  assumes inv: "state_inv st" and maxm: "0 < maxm"
  shows "mem_step maxm (abs_members st) (abs_members (snd (dispatch ser show dead sdp raw pid tx maxh maxm st)))"
proof (cases sdp)
  case (Join p rid name tok)
  then show ?thesis
    using join_refines [OF assms] by simp
next
  case (Leave p rid)
  then show ?thesis
    by (simp add: abs_leave mem_leave Let_def case_prod_unfold)
qed (simp_all add: Let_def unicast_def media_setters flag_refines chat_refines mem_idle split: option.split)

text \<open>
  Nobody compares the participant a message names with the participant of its connection: a \<open>Leave\<close> removes
  whomever it names, and a later \<open>Join\<close> puts whomever it names behind the sender's channel.
\<close>

lemma leave_names_anybody:
  "abs_members (snd (dispatch ser show dead (Leave victim rid) raw sender tx maxh maxm st)) rid victim = None"
  by (simp add: abs_leave Let_def case_prod_unfold)

text \<open>
  The contract of the hooks towards membership: a call of a hook is one step of the abstract system.
\<close>

locale membership_hooks = signaling_hooks +
  fixes maxm :: nat
  assumes places: "maxm = hk_max_room_members H" "0 < maxm"
    and message_refines:
      "state_inv st \<Longrightarrow> hk_on_message H closed sdp raw pid tx (h, st) = (handled, out, h', st') \<Longrightarrow>
        mem_step maxm (abs_members st) (abs_members st')"
    and disconnect_refines:
      "state_inv st \<Longrightarrow> hk_on_disconnect H pid affected (h, st) = (out, h', st') \<Longrightarrow> mem_step maxm (abs_members st) (abs_members st')"
begin

lemma conn_step_refines:
  assumes inv: "state_inv st" and step: "conn_step ser show H closed cn (h, st) = (out, cn', h', st')"
  shows "mem_step maxm (abs_members st) (abs_members st')"
proof (cases "cn_pc cn")
  case (Hooking sdp raw first)
  then show ?thesis
    using step message_refines [OF inv] mem_idle by (auto simp: conn_step_def Let_def split: option.splits prod.splits)
next
  case (Dispatching sdp raw first)
  then show ?thesis
    using step dispatch_refines [OF inv places(2), of ser "show" closed sdp raw "the (cn_pid cn)" "cn_tx cn" "hk_max_chat_history H"] mem_idle
    by (auto simp: conn_step_def Let_def places(1) split: option.splits prod.splits)
next
  case Disconnecting
  have "abs_members (snd (state_disconnect i st)) = (\<lambda>rid. (abs_members st rid)(i := None))" for i
    using abs_disconnect [OF inv] by (simp add: fun_eq_iff)
  then have "mem_step maxm (abs_members st) (abs_members (snd (state_disconnect i st)))" for i
    using mem_vanish [of maxm "abs_members st" i] by simp
  then show ?thesis
    using step Disconnecting mem_idle by (auto simp: conn_step_def Let_def split: option.splits prod.splits) (metis snd_conv)
next
  case (NotifyingHooks affected)
  then show ?thesis
    using step disconnect_refines [OF inv] mem_idle by (auto simp: conn_step_def Let_def split: option.splits prod.splits)
next
  case (Registering p rid name msg)
  then show ?thesis
    using step by (auto simp: conn_step_def Let_def set_connection_gen_def mem_idle)
qed (use step in \<open>auto simp: conn_step_def mem_idle split: option.splits prod.splits list.splits\<close>)

lemma sv_step_refines:
  assumes "state_inv (sv_state sv)"
  shows "mem_step maxm (abs_members (sv_state sv)) (abs_members (sv_state (snd (sv_step ser show de H e sv))))"
  using conn_step_refines [OF assms] mem_idle
  by (cases e) (auto simp: put_conn_def split: prod.splits)

lemma reachable_refines: "sv_reachable ser show de H h0 sv \<Longrightarrow> mem_reach maxm (abs_members (sv_state sv))"
proof (induction rule: sv_reachable.induct)
  case sv_init
  have "abs_members (sv_state (server_new h0)) = (\<lambda>_. Map.empty)"
    by (simp add: server_new_def fun_eq_iff)
  then show ?case
    using mem_start by simp
next
  case (sv_more sv e)
  then show ?case
    using mem_more sv_step_refines reachable_keeps by blast
qed

end

interpretation noop_members: membership_hooks noop_hooks True 25
  by unfold_locales (simp_all add: noop_hooks_def noop_on_message_def noop_on_disconnect_def mem_idle)

interpretation e2ee_members: membership_hooks "e2ee_noop_hooks timeout" True 25
  by unfold_locales (simp_all add: e2ee_noop_hooks_def noop_hooks_def noop_on_message_def noop_on_disconnect_def mem_idle)

end
