(* ===== verification/Sfu_Membership.thy ===== *)
theory Sfu_Membership
  imports Signaling_Refinement Sfu_Isolation
begin

text \<open>
  Membership and media together: the engine with the hooks of the media server still implements the membership
  system, and two ways in which the rooms of the media server part from the rooms of the signaling state.
\<close>

section \<open>The media server respects membership\<close>

lemma sfu_message_refines:
  assumes "state_inv st" "sfu_on_message env is_closed sdp raw pid tx (su, st) = (handled, out, su', st')"
  shows "mem_step maxm (abs_members st) (abs_members st')"
  using sfu_state_changes [OF assms(2)] prune_refines [OF assms(1)] flag_refines mem_idle by auto

interpretation sfu_members: membership_hooks "sfu_hooks env" False 25
  by unfold_locales
    (auto simp: sfu_hooks_def noop_hooks_def mem_idle dest: sfu_message_refines sfu_disconnect_state)

lemma system_members: "system_reach ser show de sv cs \<Longrightarrow> mem_reach 25 (abs_members (sv_state sv))"
proof (induction rule: system_reach.induct)
  case sys_start
  have "abs_members (sv_state (server_new sfu_new)) = (\<lambda>_. Map.empty)"
    by (simp add: server_new_def fun_eq_iff)
  then show ?case
    using mem_start by simp
next
  case (sys_signal sv cs env e)
  then show ?case
    using mem_more sfu_members.sv_step_refines system_signaling_keeps by blast
qed simp

text \<open>
  C5: The server implements the membership system: every step of a connection, with the hooks of the media
  server in place, is one step of it (a room drops dead members, somebody enters a room that has a place,
  somebody leaves, flags change, or nothing happens), whatever the media tasks do in between, and who is a
  member of what in a reachable server is a reachable state of that system.
\<close>

theorem server_refines_membership:
  assumes "system_reach ser show de sv cs"
  shows "mem_step 25 (abs_members (sv_state sv)) (abs_members (sv_state (snd (sv_step ser show de (sfu_hooks env) e sv)))) \<and>
    mem_reach 25 (abs_members (sv_state sv))"
  using sfu_members.sv_step_refines system_signaling_keeps [OF assms] system_members [OF assms] by blast

theorem server_refines_membership_witness:
  "mem_reach 25 (abs_members (sv_state pair_system)) \<and>
   mem_step 25 (abs_members (sv_state pair_system))
     (abs_members (sv_state (snd (sv_step (\<lambda>_. None) (\<lambda>_. []) pair_de (sfu_hooks demo_sfu_env) (Receive 0 None) pair_system))))"
  using server_refines_membership [OF pair_reach] by blast

section \<open>A refused participant gets media\<close>

text \<open>
  The hooks see a \<open>Join\<close> before \<open>dispatch\<close> decides about it, and only the first \<open>Join\<close> of a connection is
  checked against the capacity beforehand. A later one into a full room is refused with error 403, but its
  sender's next offer makes it a peer of that room: it gets and sends the media of the room.
\<close>

lemma live_of_twice [simp]: "live_of dead (live_of dead ms) = live_of dead ms"
  by (auto simp: live_of_def fun_eq_iff split: option.splits)

lemma room_full_pruned:
  assumes "state_inv st" "room_full dead maxm rid st"
  shows "room_full dead maxm rid (update_room rid (\<lambda>r. snd (prune_stale dead r)) st)"
  using assms by (simp add: room_full_def live_members_of abs_prune state_room_update)

lemma refused_join_gets_media:
  assumes inv: "state_inv st" and full: "room_full dead 25 rid st"
    and join: "sfu_on_message env dead (Join p rid name tok) raw pid tx (su, st) = (handled, out, su1, st1)"
    and ans: "ev_answer env (patch_sdp_directions sdp) = Some ans"
    and offer: "on_offer env sdp pid tx su1 = (out2, su2)"
  shows "\<not> handled \<and>
    fst (dispatch ser show dead (Join p rid name tok) raw pid tx maxh 25 st1) = send_msg ser tx (Error 403 ''room is full'') \<and>
    (\<exists>a peer. hm_get (su_rooms su2) rid = Some a \<and> hm_get (peers_at a su2) pid = Some peer \<and> sp_ws_tx peer = tx)"
proof -
  obtain st' where j: "on_join dead rid pid (su, st) = (su1, st')" "st1 = st'" "\<not> handled"
    using join by (auto simp: sfu_on_message_def split: prod.splits)
  have st1: "st1 = update_room rid (\<lambda>r. snd (prune_stale dead r)) st"
    using j by (auto simp: on_join_def Let_def)
  have "fst (dispatch_join ser show dead p rid name tx 25 st1) = send_msg ser tx (Error 403 ''room is full'')"
    using room_full_pruned [OF inv full] room_full_iff [OF state_inv_prune [OF inv], where rid = rid and closed = dead and maxm = 25]
    by (simp add: dispatch_join_def Let_def st1)
  moreover obtain a where a: "room_peers_for pid su1 = Some a" "hm_get (su_rooms su1) rid = Some a"
    using join_session(2) [OF j(1)] by blast
  have "su2 = spawn_media env pid (new_peer tx su1) a ans (install_peer pid (new_peer tx su1) a su1)"
    using offer ans a join_session(1) [OF j(1)] by (simp add: on_offer_def first_offer_def Let_def)
  then have "hm_get (su_rooms su2) rid = Some a \<and> hm_get (peers_at a su2) pid = Some (new_peer tx su1)"
    using a(2) spawn_media_shape [of env pid "new_peer tx su1" a ans "install_peer pid (new_peer tx su1) a su1"] by auto
  ultimately show ?thesis
    using j(3) by (auto simp: new_peer_def)
qed

section \<open>A room lost to a race\<close>

text \<open>
  Whether a room has become empty is decided with the signaling state, and the media server drops the room
  later, in \<open>on_disconnect\<close>. Somebody who joins in between loses the media room it has just entered: in the
  run below participant 2 is a member of the signaling room, its connection reads, but the media server has
  no room and its offer is ignored.
\<close>

definition lost_room_events :: "sv_event list" where
  "lost_room_events = [Accept 0, Receive 0 (Some ''j'')] @ replicate 5 (Advance 0 (\<lambda>_. False)) @
     [Receive 0 None, Advance 0 (\<lambda>_. False), Advance 0 (\<lambda>_. False)] @
     [Accept 1, Receive 1 (Some ''k'')] @ replicate 5 (Advance 1 (\<lambda>_. False)) @
     replicate 3 (Advance 0 (\<lambda>_. False)) @ [Receive 1 (Some ''p''), Advance 1 (\<lambda>_. False)]"

definition server_summary :: "sfu_server server \<Rightarrow> conn_pc list \<times> participant_id list \<times> (string, nat) hmap \<times> nat" where
  "server_summary sv = (map cn_pc (sv_conns sv), (case state_room (sv_state sv) ''a'' of Some r \<Rightarrow> hm_keys (rm_members r) | None \<Rightarrow> []),
     su_rooms (sv_hooks sv), length (su_tasks (sv_hooks sv)))"

lemma media_room_lost:
  "server_summary (system_run (\<lambda>_. None) (\<lambda>_. []) pair_de demo_sfu_env lost_room_events (server_new sfu_new)) =
     ([Finished, Reading], [ParticipantId 2], [], 0)"
  by code_simp

end
