(* ===== verification/Sfu_Interleaving.thy ===== *)
theory Sfu_Interleaving
  imports Sfu_System "HOL-Library.Multiset"
begin

text \<open>
  The hooks of \<open>seameet-sfu/src/lib.rs\<close> one lock region at a time. Between two \<open>await\<close> points on a lock a hook
  runs alone on what the lock protects; two nested read locks are one region, since the outer one keeps the
  rooms as they are. A running hook is a process with a program counter; processes of any participants and the
  rounds of the media tasks interleave freely.

  Shown here: a process that runs without interruption does what the atomic hook of \<open>Sfu_Server\<close> does, and
  whatever the interleaving, rooms never share their peers and every peer of a room is served by exactly one
  task, running or about to be spawned.
\<close>

section \<open>Processes\<close>

datatype hook_pc =
    OfferStart string
  | OfferSession string bool
  | OfferRoom string bool string
  | RenegSend string nat
  | RenegReply string
  | OfferAnswer string nat
  | InsertRoomPeer string nat sfu_peer
  | InsertAllPeers string nat sfu_peer
  | MarkSession string nat sfu_peer
  | SpawnMedia string nat sfu_peer
  | JoinStart string
  | JoinPruned string "participant_id list"
  | JoinRejoin string "participant_id list"
  | JoinEnsure string
  | JoinSession string
  | JoinCount string
  | LeaveStart "(string \<times> bool) list"
  | LeaveAllPeers "(string \<times> bool) list"
  | LeaveRooms "(string \<times> bool) list"
  | LeaveNotify string bool nat "(string \<times> bool) list"
  | LeaveRemove string bool nat "(string \<times> bool) list"
  | LeaveDrop string bool "(string \<times> bool) list"
  | LeaveSession
  | HookDone

record hook_proc =
  hp_pid :: participant_id
  hp_tx :: chan
  hp_pc :: hook_pc

definition offer_step :: "sfu_env \<Rightarrow> participant_id \<Rightarrow> chan \<Rightarrow> hook_pc \<Rightarrow> sfu_server \<Rightarrow> outbox \<times> hook_pc \<times> sfu_server" where
  "offer_step env pid self_tx pc su =
    (case pc of
       OfferStart sdp \<Rightarrow>
         ([], OfferSession sdp (case hm_get (su_sessions su) pid of Some s \<Rightarrow> se_has_media_task s | None \<Rightarrow> False), su)
     | OfferSession sdp has_media \<Rightarrow>
         ([], (case Option.bind (hm_get (su_sessions su) pid) se_current_room_id of
                 Some rid \<Rightarrow> OfferRoom sdp has_media rid | None \<Rightarrow> HookDone), su)
     | OfferRoom sdp has_media rid \<Rightarrow>
         ([], (case hm_get (su_rooms su) rid of
                 Some a \<Rightarrow> if has_media then RenegSend sdp a else OfferAnswer sdp a | None \<Rightarrow> HookDone), su)
     | RenegSend sdp a \<Rightarrow>
         (case hm_get (peers_at a su) pid of
            Some peer \<Rightarrow> ([], RenegReply sdp, (send_cmds [(sp_cmd_tx peer, RenegotiationOffer sdp (su_fresh su))] su)\<lparr>su_fresh := su_fresh su + 1\<rparr>)
          | None \<Rightarrow> ([], HookDone, su))
     | RenegReply sdp \<Rightarrow>
         ((case ev_reply env pid sdp of
             Some answer_sdp \<Rightarrow> if answer_sdp \<noteq> [] then send_msg (ev_ser env) self_tx (Answer pid pid ''sfu'' answer_sdp) else []
           | None \<Rightarrow> []), HookDone, su)
     | OfferAnswer sdp a \<Rightarrow>
         (case ev_answer env (patch_sdp_directions sdp) of
            Some answer_sdp \<Rightarrow>
              (send_msg (ev_ser env) self_tx (Answer pid pid ''sfu'' answer_sdp), InsertRoomPeer answer_sdp a (new_peer self_tx su),
               su\<lparr>su_next_peer_gen := su_next_peer_gen su + 1, su_fresh := su_fresh su + 2\<rparr>)
          | None \<Rightarrow> ([], HookDone, su))
     | InsertRoomPeer ans a peer \<Rightarrow> ([], InsertAllPeers ans a peer, put_peers a (hm_insert pid peer (peers_at a su)) su)
     | InsertAllPeers ans a peer \<Rightarrow> ([], MarkSession ans a peer, su\<lparr>su_all_peers := hm_insert pid peer (su_all_peers su)\<rparr>)
     | MarkSession ans a peer \<Rightarrow>
         ([], SpawnMedia ans a peer, su\<lparr>su_sessions := hm_modify pid (\<lambda>s. s\<lparr>se_has_media_task := True\<rparr>) (su_sessions su)\<rparr>)
     | SpawnMedia ans a peer \<Rightarrow> ([], HookDone, spawn_media env pid peer a ans su)
     | _ \<Rightarrow> ([], HookDone, su))"

definition join_step ::
  "(chan \<Rightarrow> bool) \<Rightarrow> participant_id \<Rightarrow> hook_pc \<Rightarrow> sfu_server \<times> signaling_state \<Rightarrow> hook_pc \<times> sfu_server \<times> signaling_state" where
  "join_step dead pid pc hs =
    (case hs of (su, st) \<Rightarrow>
      (case pc of
         JoinStart rid \<Rightarrow>
           (JoinPruned rid (case state_room st rid of Some r \<Rightarrow> fst (prune_stale dead r) | None \<Rightarrow> []), su,
            update_room rid (\<lambda>r. snd (prune_stale dead r)) st)
       | JoinPruned rid pruned \<Rightarrow> (JoinRejoin rid pruned, if pruned \<noteq> [] then notify_pruned rid pruned su else su, st)
       | JoinRejoin rid pruned \<Rightarrow> (JoinEnsure rid, notify_rejoin rid pruned pid su, st)
       | JoinEnsure rid \<Rightarrow> (JoinSession rid, ensure_room rid su, st)
       | JoinSession rid \<Rightarrow>
           (JoinCount rid, su\<lparr>su_sessions := hm_insert pid \<lparr>se_has_media_task = False, se_current_room_id = Some rid\<rparr> (su_sessions su)\<rparr>, st)
       | JoinCount rid \<Rightarrow> (HookDone, notify_count rid su, st)
       | _ \<Rightarrow> (HookDone, su, st)))"

definition leave_step :: "serialiser \<Rightarrow> participant_id \<Rightarrow> hook_pc \<Rightarrow> sfu_server \<Rightarrow> outbox \<times> hook_pc \<times> sfu_server" where
  "leave_step ser pid pc su =
    (case pc of
       LeaveStart affected \<Rightarrow> ([], LeaveAllPeers affected, su\<lparr>su_routes := filter (\<lambda>e. snd e \<noteq> pid) (su_routes su)\<rparr>)
     | LeaveAllPeers affected \<Rightarrow> ([], LeaveRooms affected, su\<lparr>su_all_peers := hm_remove pid (su_all_peers su)\<rparr>)
     | LeaveRooms affected \<Rightarrow>
         (case affected of
            (rid, e) # rest \<Rightarrow> ([], (case hm_get (su_rooms su) rid of Some a \<Rightarrow> LeaveNotify rid e a rest | None \<Rightarrow> LeaveDrop rid e rest), su)
          | [] \<Rightarrow> ([], LeaveSession, su))
     | LeaveNotify rid e a rest \<Rightarrow>
         (let p = peers_at a su; msg = ScreenShareStopped pid rid 0 in
          (ws_except ser pid msg p, LeaveRemove rid e a rest, send_cmds (if ser msg = None then [] else cmd_except pid (PeerLeftCmd pid) p) su))
     | LeaveRemove rid e a rest \<Rightarrow> ([], LeaveDrop rid e rest, put_peers a (hm_remove pid (peers_at a su)) su)
     | LeaveDrop rid e rest \<Rightarrow> ([], LeaveRooms rest, if e then su\<lparr>su_rooms := hm_remove rid (su_rooms su)\<rparr> else su)
     | LeaveSession \<Rightarrow> ([], HookDone, su\<lparr>su_sessions := hm_remove pid (su_sessions su)\<rparr>)
     | _ \<Rightarrow> ([], HookDone, su))"

definition is_join_pc :: "hook_pc \<Rightarrow> bool" where
  "is_join_pc pc = (case pc of JoinStart _ \<Rightarrow> True | JoinPruned _ _ \<Rightarrow> True | JoinRejoin _ _ \<Rightarrow> True | JoinEnsure _ \<Rightarrow> True
     | JoinSession _ \<Rightarrow> True | JoinCount _ \<Rightarrow> True | _ \<Rightarrow> False)"

definition is_leave_pc :: "hook_pc \<Rightarrow> bool" where
  "is_leave_pc pc = (case pc of LeaveStart _ \<Rightarrow> True | LeaveAllPeers _ \<Rightarrow> True | LeaveRooms _ \<Rightarrow> True | LeaveNotify _ _ _ _ \<Rightarrow> True
     | LeaveRemove _ _ _ _ \<Rightarrow> True | LeaveDrop _ _ _ \<Rightarrow> True | LeaveSession \<Rightarrow> True | _ \<Rightarrow> False)"

definition hook_step ::
  "sfu_env \<Rightarrow> (chan \<Rightarrow> bool) \<Rightarrow> hook_proc \<Rightarrow> sfu_server \<times> signaling_state \<Rightarrow> outbox \<times> hook_proc \<times> sfu_server \<times> signaling_state" where
  "hook_step env dead p hs =
    (case hs of (su, st) \<Rightarrow>
      if is_join_pc (hp_pc p)
      then case join_step dead (hp_pid p) (hp_pc p) (su, st) of (pc, su', st') \<Rightarrow> ([], p\<lparr>hp_pc := pc\<rparr>, su', st')
      else if is_leave_pc (hp_pc p)
      then case leave_step (ev_ser env) (hp_pid p) (hp_pc p) su of (out, pc, su') \<Rightarrow> (out, p\<lparr>hp_pc := pc\<rparr>, su', st)
      else case offer_step env (hp_pid p) (hp_tx p) (hp_pc p) su of (out, pc, su') \<Rightarrow> (out, p\<lparr>hp_pc := pc\<rparr>, su', st))"

fun hook_run ::
  "nat \<Rightarrow> sfu_env \<Rightarrow> (chan \<Rightarrow> bool) \<Rightarrow> hook_proc \<Rightarrow> sfu_server \<times> signaling_state \<Rightarrow>
    outbox \<times> hook_proc \<times> sfu_server \<times> signaling_state" where
  \<comment> \<open>a process that runs alone for a number of regions\<close>
  "hook_run 0 env dead p hs = ([], p, hs)"
| "hook_run (Suc n) env dead p hs =
    (case hook_step env dead p hs of (out, p', hs') \<Rightarrow>
      (case hook_run n env dead p' hs' of (out', r) \<Rightarrow> (out @ out', r)))"

section \<open>Alone, a process is the atomic hook\<close>

lemmas pc_kinds = is_join_pc_def is_leave_pc_def

lemma install_peer_unfold:
  "install_peer pid peer a su = (put_peers a (hm_insert pid peer (peers_at a su))
     (su\<lparr>su_next_peer_gen := su_next_peer_gen su + 1, su_fresh := su_fresh su + 2\<rparr>))
       \<lparr>su_all_peers := hm_insert pid peer (su_all_peers su),
        su_sessions := hm_modify pid (\<lambda>s. s\<lparr>se_has_media_task := True\<rparr>) (su_sessions su)\<rparr>"
  by (simp add: install_peer_def put_peers_def Let_def)

definition hook_new :: "participant_id \<Rightarrow> chan \<Rightarrow> hook_pc \<Rightarrow> hook_proc" where
  "hook_new pid tx pc = \<lparr>hp_pid = pid, hp_tx = tx, hp_pc = pc\<rparr>"

lemma hook_new_simps [simp]:
  "hp_pid (hook_new pid tx pc) = pid" "hp_tx (hook_new pid tx pc) = tx" "hp_pc (hook_new pid tx pc) = pc"
  "(hook_new pid tx pc)\<lparr>hp_pc := pc'\<rparr> = hook_new pid tx pc'"
  by (simp_all add: hook_new_def)

lemma run_done [simp]: "hook_run n env dead (hook_new pid tx HookDone) hs = ([], hook_new pid tx HookDone, hs)"
  by (induction n) (simp_all add: hook_step_def pc_kinds offer_step_def case_prod_unfold)

declare hook_run.simps(2) [simp del]

lemma run_offer:
  "\<not> is_join_pc pc \<Longrightarrow> \<not> is_leave_pc pc \<Longrightarrow> hook_run (Suc n) env dead (hook_new pid tx pc) (su, st) =
    (case offer_step env pid tx pc su of (out, pc', su') \<Rightarrow>
      (case hook_run n env dead (hook_new pid tx pc') (su', st) of (out', r) \<Rightarrow> (out @ out', r)))"
  by (simp add: hook_run.simps(2) hook_step_def case_prod_unfold)

lemma insert_alone:
  "hook_run (Suc (Suc (Suc (Suc 0)))) env dead (hook_new pid tx (InsertRoomPeer ans a (new_peer tx su)))
      (su\<lparr>su_next_peer_gen := Suc (su_next_peer_gen su), su_fresh := Suc (Suc (su_fresh su))\<rparr>, st) =
    ([], hook_new pid tx HookDone, spawn_media env pid (new_peer tx su) a ans (install_peer pid (new_peer tx su) a su), st)"
  by (simp add: run_offer pc_kinds offer_step_def install_peer_unfold put_peers_def peers_at_def)

lemma offer_alone:
  "hook_run 8 env dead (hook_new pid tx (OfferStart sdp)) (su, st) =
    (case on_offer env sdp pid tx su of (out, su') \<Rightarrow> (out, hook_new pid tx HookDone, su', st))"
proof -
  have steps: "(8::nat) = Suc (Suc (Suc (Suc (Suc (Suc (Suc (Suc 0)))))))"
    by simp
  have room: "room_peers_for pid su = (case Option.bind (hm_get (su_sessions su) pid) se_current_room_id of
      Some rid \<Rightarrow> hm_get (su_rooms su) rid | None \<Rightarrow> None)"
    by (simp add: room_peers_for_def split: option.split)
  show ?thesis
    unfolding steps
  proof (cases "room_peers_for pid su")
    case None
    then show "hook_run (Suc (Suc (Suc (Suc (Suc (Suc (Suc (Suc 0)))))))) env dead (hook_new pid tx (OfferStart sdp)) (su, st) =
        (case on_offer env sdp pid tx su of (out, su') \<Rightarrow> (out, hook_new pid tx HookDone, su', st))"
      unfolding room
      by (cases "Option.bind (hm_get (su_sessions su) pid) se_current_room_id")
        (simp_all add: run_offer pc_kinds offer_step_def on_offer_def room Let_def)
  next
    case (Some a)
    then obtain s rid where s: "hm_get (su_sessions su) pid = Some s" "se_current_room_id s = Some rid" "hm_get (su_rooms su) rid = Some a"
      by (auto simp: room_peers_for_def split: option.splits)
    show "hook_run (Suc (Suc (Suc (Suc (Suc (Suc (Suc (Suc 0)))))))) env dead (hook_new pid tx (OfferStart sdp)) (su, st) =
        (case on_offer env sdp pid tx su of (out, su') \<Rightarrow> (out, hook_new pid tx HookDone, su', st))"
    proof (cases "se_has_media_task s")
      case True
      then show ?thesis
        using s Some
        by (simp add: run_offer pc_kinds offer_step_def on_offer_def renegotiate_offer_def Let_def split: option.split)
    next
      case False
      show ?thesis
      proof (cases "ev_answer env (patch_sdp_directions sdp)")
        case None
        then show ?thesis
          using s Some False by (simp add: run_offer pc_kinds offer_step_def on_offer_def first_offer_def Let_def)
      next
        case (Some ans)
        have "hook_run (Suc (Suc (Suc (Suc (Suc (Suc (Suc (Suc 0)))))))) env dead (hook_new pid tx (OfferStart sdp)) (su, st) =
            (case hook_run (Suc (Suc (Suc (Suc 0)))) env dead (hook_new pid tx (InsertRoomPeer ans a (new_peer tx su)))
                (su\<lparr>su_next_peer_gen := Suc (su_next_peer_gen su), su_fresh := Suc (Suc (su_fresh su))\<rparr>, st) of
              (out, r) \<Rightarrow> (send_msg (ev_ser env) tx (Answer pid pid ''sfu'' ans) @ out, r))"
        proof -
          have st: "offer_step env pid tx (OfferStart sdp) su = ([], OfferSession sdp False, su)"
            "offer_step env pid tx (OfferSession sdp False) su = ([], OfferRoom sdp False rid, su)"
            "offer_step env pid tx (OfferRoom sdp False rid) su = ([], OfferAnswer sdp a, su)"
            "offer_step env pid tx (OfferAnswer sdp a) su = (send_msg (ev_ser env) tx (Answer pid pid ''sfu'' ans),
               InsertRoomPeer ans a (new_peer tx su), su\<lparr>su_next_peer_gen := Suc (su_next_peer_gen su), su_fresh := Suc (Suc (su_fresh su))\<rparr>)"
            using s False Some by (simp_all add: offer_step_def)
          have kinds: "\<not> is_join_pc (OfferStart sdp)" "\<not> is_leave_pc (OfferStart sdp)" "\<not> is_join_pc (OfferSession sdp False)"
            "\<not> is_leave_pc (OfferSession sdp False)" "\<not> is_join_pc (OfferRoom sdp False rid)" "\<not> is_leave_pc (OfferRoom sdp False rid)"
            "\<not> is_join_pc (OfferAnswer sdp a)" "\<not> is_leave_pc (OfferAnswer sdp a)"
            by (simp_all add: pc_kinds)
          show ?thesis
            by (simp only: run_offer kinds st not_False_eq_True prod.case append_Nil)
              (simp only: case_prod_unfold prod.collapse fst_conv snd_conv)
        qed
        then show ?thesis
          using \<open>room_peers_for pid su = Some a\<close> s False Some
          by (simp only: insert_alone) (simp add: on_offer_def first_offer_def Let_def)
      qed
    qed
  qed
qed

lemma join_alone:
  "hook_run 6 env dead (hook_new pid tx (JoinStart rid)) (su, st) =
    (case on_join dead rid pid (su, st) of (su', st') \<Rightarrow> ([], hook_new pid tx HookDone, su', st'))"
proof -
  have "(6::nat) = Suc (Suc (Suc (Suc (Suc (Suc 0)))))"
    by simp
  then show ?thesis
    by (simp only: hook_run.simps) (simp add: hook_step_def pc_kinds join_step_def on_join_def Let_def)
qed

lemma run_leave:
  "is_leave_pc pc \<Longrightarrow> hook_run (Suc n) env dead (hook_new pid tx pc) (su, st) =
    (case leave_step (ev_ser env) pid pc su of (out, pc', su') \<Rightarrow>
      (case hook_run n env dead (hook_new pid tx pc') (su', st) of (out', r) \<Rightarrow> (out @ out', r)))"
  by (cases pc) (simp_all add: hook_run.simps(2) hook_step_def pc_kinds case_prod_unfold)

lemma leave_room_out: "leave_room ser pid x (out, su) = (out @ fst (leave_room ser pid x ([], su)), snd (leave_room ser pid x ([], su)))"
  by (simp add: leave_room_def Let_def case_prod_unfold split: option.split prod.split)

lemma leave_rooms_out:
  "fold (leave_room ser pid) xs (out, su) = (out @ fst (fold (leave_room ser pid) xs ([], su)), snd (fold (leave_room ser pid) xs ([], su)))"
proof (induction xs arbitrary: out su)
  case (Cons x xs)
  show ?case
    using Cons [of "out @ fst (leave_room ser pid x ([], su))" "snd (leave_room ser pid x ([], su))"]
      Cons [of "fst (leave_room ser pid x ([], su))" "snd (leave_room ser pid x ([], su))"]
    by (simp add: leave_room_out [of ser pid x out su])
qed simp

lemma leave_rooms_alone:
  "\<exists>n. hook_run n env dead (hook_new pid tx (LeaveRooms affected)) (su, st) =
    (fst (fold (leave_room (ev_ser env) pid) affected ([], su)), hook_new pid tx LeaveSession,
     snd (fold (leave_room (ev_ser env) pid) affected ([], su)), st)"
proof (induction affected arbitrary: su)
  case Nil
  have "hook_run (Suc 0) env dead (hook_new pid tx (LeaveRooms [])) (su, st) = ([], hook_new pid tx LeaveSession, su, st)"
    by (simp add: run_leave pc_kinds leave_step_def)
  then show ?case
    by auto
next
  case (Cons x xs)
  obtain rid e where x: "x = (rid, e)"
    by (cases x)
  let ?l = "leave_room (ev_ser env) pid x ([], su)"
  obtain n where n: "hook_run n env dead (hook_new pid tx (LeaveRooms xs)) (snd ?l, st) =
      (fst (fold (leave_room (ev_ser env) pid) xs ([], snd ?l)), hook_new pid tx LeaveSession,
       snd (fold (leave_room (ev_ser env) pid) xs ([], snd ?l)), st)"
    using Cons by blast
  have total: "fold (leave_room (ev_ser env) pid) (x # xs) ([], su) =
      (fst ?l @ fst (fold (leave_room (ev_ser env) pid) xs ([], snd ?l)), snd (fold (leave_room (ev_ser env) pid) xs ([], snd ?l)))"
    using leave_rooms_out [of "ev_ser env" pid xs "fst ?l" "snd ?l"] by simp
  show ?case
  proof (cases "hm_get (su_rooms su) rid")
    case None
    then have l: "?l = ([], if e then su\<lparr>su_rooms := hm_remove rid (su_rooms su)\<rparr> else su)"
      by (simp add: leave_room_def x)
    have "hook_run (Suc (Suc n)) env dead (hook_new pid tx (LeaveRooms (x # xs))) (su, st) =
        (fst (fold (leave_room (ev_ser env) pid) (x # xs) ([], su)), hook_new pid tx LeaveSession,
         snd (fold (leave_room (ev_ser env) pid) (x # xs) ([], su)), st)"
      using n None unfolding total l by (simp add: run_leave pc_kinds leave_step_def x)
    then show ?thesis
      by blast
  next
    case (Some a)
    let ?p = "peers_at a su" and ?msg = "ScreenShareStopped pid rid 0"
    let ?su = "put_peers a (hm_remove pid ?p) (send_cmds (if ev_ser env ?msg = None then [] else cmd_except pid (PeerLeftCmd pid) ?p) su)"
    have l: "?l = (ws_except (ev_ser env) pid ?msg ?p, if e then ?su\<lparr>su_rooms := hm_remove rid (su_rooms ?su)\<rparr> else ?su)"
      using Some by (simp add: leave_room_def x Let_def)
    have "hook_run (Suc (Suc (Suc (Suc n)))) env dead (hook_new pid tx (LeaveRooms (x # xs))) (su, st) =
        (fst (fold (leave_room (ev_ser env) pid) (x # xs) ([], su)), hook_new pid tx LeaveSession,
         snd (fold (leave_room (ev_ser env) pid) (x # xs) ([], su)), st)"
      using n Some unfolding total l by (cases e) (simp_all add: run_leave pc_kinds leave_step_def x Let_def)
    then show ?thesis
      by blast
  qed
qed

lemma hook_run_add:
  "hook_run (m + n) env dead p hs =
    (case hook_run m env dead p hs of (out, p', hs') \<Rightarrow> (case hook_run n env dead p' hs' of (out', r) \<Rightarrow> (out @ out', r)))"
  by (induction m arbitrary: p hs) (simp_all add: hook_run.simps(2) case_prod_unfold)

lemma leave_alone:
  "\<exists>n. hook_run n env dead (hook_new pid tx (LeaveStart affected)) (su, st) =
    (case sfu_on_disconnect env pid affected (su, st) of (out, su', st') \<Rightarrow> (out, hook_new pid tx HookDone, su', st'))"
proof -
  let ?su = "su\<lparr>su_routes := filter (\<lambda>e. snd e \<noteq> pid) (su_routes su), su_all_peers := hm_remove pid (su_all_peers su)\<rparr>"
  obtain n where n: "hook_run n env dead (hook_new pid tx (LeaveRooms affected)) (?su, st) =
    (fst (fold (leave_room (ev_ser env) pid) affected ([], ?su)), hook_new pid tx LeaveSession,
     snd (fold (leave_room (ev_ser env) pid) affected ([], ?su)), st)"
    using leave_rooms_alone by blast
  have end_session: "hook_run (Suc 0) env dead (hook_new pid tx LeaveSession) (su', st) =
      ([], hook_new pid tx HookDone, su'\<lparr>su_sessions := hm_remove pid (su_sessions su')\<rparr>, st)" for su'
    by (simp add: run_leave pc_kinds leave_step_def)
  have last: "hook_run (Suc n) env dead (hook_new pid tx (LeaveRooms affected)) (?su, st) =
      (fst (fold (leave_room (ev_ser env) pid) affected ([], ?su)), hook_new pid tx HookDone,
       (snd (fold (leave_room (ev_ser env) pid) affected ([], ?su)))
         \<lparr>su_sessions := hm_remove pid (su_sessions (snd (fold (leave_room (ev_ser env) pid) affected ([], ?su))))\<rparr>, st)"
    using hook_run_add [of n "Suc 0" env dead "hook_new pid tx (LeaveRooms affected)" "(?su, st)"] by (simp add: n end_session)
  have "hook_run (Suc (Suc (Suc n))) env dead (hook_new pid tx (LeaveStart affected)) (su, st) =
    (case sfu_on_disconnect env pid affected (su, st) of (out, su', st') \<Rightarrow> (out, hook_new pid tx HookDone, su', st'))"
  proof -
    have st: "leave_step (ev_ser env) pid (LeaveStart affected) su = ([], LeaveAllPeers affected, su\<lparr>su_routes := filter (\<lambda>e. snd e \<noteq> pid) (su_routes su)\<rparr>)"
      "leave_step (ev_ser env) pid (LeaveAllPeers affected) (su\<lparr>su_routes := filter (\<lambda>e. snd e \<noteq> pid) (su_routes su)\<rparr>) = ([], LeaveRooms affected, ?su)"
      by (simp_all add: leave_step_def)
    have kinds: "is_leave_pc (LeaveStart affected)" "is_leave_pc (LeaveAllPeers affected)"
      by (simp_all add: pc_kinds)
    show ?thesis
      by (simp only: run_leave kinds st last prod.case append_Nil) (simp add: sfu_on_disconnect_def Let_def case_prod_unfold)
  qed
  then show ?thesis
    by blast
qed

section \<open>Every interleaving\<close>

definition starts_hook :: "hook_pc \<Rightarrow> bool" where
  "starts_hook pc = (case pc of OfferStart _ \<Rightarrow> True | JoinStart _ \<Rightarrow> True | LeaveStart _ \<Rightarrow> True | _ \<Rightarrow> False)"

definition in_regions :: "sdp_message \<Rightarrow> bool" where
  \<comment> \<open>the messages whose handling is split into regions above\<close>
  "in_regions sdp = (case sdp of Offer _ _ _ _ \<Rightarrow> True | Join _ _ _ _ \<Rightarrow> True | _ \<Rightarrow> False)"

text \<open>
  Hooks are called at any time, for any participant, any number at once; the engine changes the signaling state
  in between; the messages that only pass on commands are single steps.
\<close>

inductive fine_reach :: "sfu_server \<Rightarrow> signaling_state \<Rightarrow> hook_proc list \<Rightarrow> counters \<Rightarrow> bool" where
  fine_start: "fine_reach sfu_new state_new [] (\<lambda>_. 0)"
| fine_call: "fine_reach su st ps cs \<Longrightarrow> starts_hook pc \<Longrightarrow> fine_reach su st (ps @ [hook_new pid tx pc]) cs"
| fine_region: "fine_reach su st ps cs \<Longrightarrow> k < length ps \<Longrightarrow> hook_step env dead (ps ! k) (su, st) = (out, p, su', st') \<Longrightarrow>
    fine_reach su' st' (ps[k := p]) cs"
| fine_message: "fine_reach su st ps cs \<Longrightarrow> \<not> in_regions sdp \<Longrightarrow>
    sfu_on_message env dead sdp raw pid tx (su, st) = (handled, out, su', st') \<Longrightarrow> fine_reach su' st' ps cs"
| fine_engine: "fine_reach su st ps cs \<Longrightarrow> fine_reach su st' ps cs"
| fine_media: "fine_reach su st ps cs \<Longrightarrow> task_round menv rd i (su, cs) = (ws, su', cs') \<Longrightarrow> fine_reach su' st ps cs'"

section \<open>The invariant\<close>

text \<open>
  A process between the creation of an entry and the spawn of its task counts as that task. With these
  tasks added the server satisfies \<open>sfu_inv\<close> at every moment.
\<close>

definition pending :: "hook_pc \<Rightarrow> (nat \<times> sfu_peer) option" where
  "pending pc = (case pc of InsertRoomPeer _ a peer \<Rightarrow> Some (a, peer) | InsertAllPeers _ a peer \<Rightarrow> Some (a, peer)
     | MarkSession _ a peer \<Rightarrow> Some (a, peer) | SpawnMedia _ a peer \<Rightarrow> Some (a, peer) | _ \<Rightarrow> None)"

definition pending_task :: "hook_proc \<Rightarrow> (nat \<times> media_task) list" where
  "pending_task p = (case pending (hp_pc p) of
     Some (a, peer) \<Rightarrow> [(a, task_new (hp_pid p) (hp_tx p) [] (sp_gen peer) 0 0 0 0 0)] | None \<Rightarrow> [])"

definition pending_tasks :: "hook_proc list \<Rightarrow> (nat \<times> media_task) list" where
  "pending_tasks ps = concat (map pending_task ps)"

definition pc_addr :: "hook_pc \<Rightarrow> nat option" where
  "pc_addr pc = (case pc of OfferAnswer _ a \<Rightarrow> Some a | InsertRoomPeer _ a _ \<Rightarrow> Some a | LeaveNotify _ _ a _ \<Rightarrow> Some a
     | LeaveRemove _ _ a _ \<Rightarrow> Some a | _ \<Rightarrow> None)"

definition with_tasks :: "sfu_server \<Rightarrow> (nat \<times> media_task) list \<Rightarrow> sfu_server" where
  "with_tasks su ts = su\<lparr>su_tasks := su_tasks su @ ts\<rparr>"

definition fine_inv :: "sfu_server \<Rightarrow> hook_proc list \<Rightarrow> bool" where
  "fine_inv su ps \<longleftrightarrow> sfu_inv (with_tasks su (pending_tasks ps)) \<and>
     (\<forall>p \<in> set ps. \<forall>a. pc_addr (hp_pc p) = Some a \<longrightarrow> a < su_next_map su)"

lemma pending_tasks_simps [simp]:
  "pending_tasks [] = []" "pending_tasks (ps @ qs) = pending_tasks ps @ pending_tasks qs" "pending_tasks (p # ps) = pending_task p @ pending_tasks ps"
  by (simp_all add: pending_tasks_def)

definition task_key :: "nat \<times> media_task \<Rightarrow> nat \<times> participant_id \<times> nat" where
  "task_key e = (fst e, mt_pid (snd e), mt_gen (snd e))"

text \<open>The invariant looks at the rooms, participants and generations of the tasks only, in any order.\<close>

lemma sfu_inv_keys:
  assumes inv: "sfu_inv (su\<lparr>su_tasks := ts\<rparr>)" and keys: "mset (map task_key ts') = mset (map task_key ts)"
  shows "sfu_inv (su\<lparr>su_tasks := ts'\<rparr>)"
proof -
  have "mset (map (\<lambda>e. mt_gen (snd e)) ts') = image_mset (\<lambda>k. snd (snd k)) (mset (map task_key ts'))"
    "mset (map (\<lambda>e. mt_gen (snd e)) ts) = image_mset (\<lambda>k. snd (snd k)) (mset (map task_key ts))"
    by (simp_all add: task_key_def multiset.map_comp o_def)
  then have "mset (map (\<lambda>e. mt_gen (snd e)) ts') = mset (map (\<lambda>e. mt_gen (snd e)) ts)"
    using keys by simp
  then have gens: "distinct (map (\<lambda>e. mt_gen (snd e)) ts') = distinct (map (\<lambda>e. mt_gen (snd e)) ts)"
    by (rule mset_eq_imp_distinct_iff)
  have set: "task_key ` set ts' = task_key ` set ts"
    using keys by (metis set_image_mset set_mset_mset mset_map)
  have mem: "\<exists>u. (b, u) \<in> set ts2 \<and> mt_pid u = mt_pid t \<and> mt_gen u = mt_gen t"
    if "(b, t) \<in> set ts1" "task_key ` set ts1 = task_key ` set ts2" for b t ts1 ts2
  proof -
    have "task_key (b, t) \<in> task_key ` set ts2"
      using that by blast
    then show ?thesis
      by (auto simp: task_key_def)
  qed
  have "tasks_ok (su\<lparr>su_tasks := ts'\<rparr>)"
    unfolding tasks_ok_def
  proof (intro conjI allI impI)
    show "distinct (map (\<lambda>e. mt_gen (snd e)) (su_tasks (su\<lparr>su_tasks := ts'\<rparr>)))"
      using inv gens by (simp add: sfu_inv_def tasks_ok_def)
  next
    fix b t assume "(b, t) \<in> set (su_tasks (su\<lparr>su_tasks := ts'\<rparr>))"
    then obtain u where u: "(b, u) \<in> set ts" "mt_gen u = mt_gen t"
      using mem [of b t ts' ts] set by auto
    have "mt_gen u < su_next_peer_gen su" "b < su_next_map su"
      using inv u(1) by (auto simp: sfu_inv_def tasks_ok_def)
    then show "mt_gen t < su_next_peer_gen (su\<lparr>su_tasks := ts'\<rparr>)" "b < su_next_map (su\<lparr>su_tasks := ts'\<rparr>)"
      using u(2) by simp_all
  next
    fix b i peer assume "hm_get (peers_at b (su\<lparr>su_tasks := ts'\<rparr>)) i = Some peer"
    then have "\<exists>t. (b, t) \<in> set ts \<and> mt_pid t = i \<and> mt_gen t = sp_gen peer"
      using inv by (simp add: sfu_inv_def tasks_ok_def)
    then obtain t where t: "(b, t) \<in> set ts" "mt_pid t = i" "mt_gen t = sp_gen peer"
      by blast
    then show "\<exists>t. (b, t) \<in> set (su_tasks (su\<lparr>su_tasks := ts'\<rparr>)) \<and> mt_pid t = i \<and> mt_gen t = sp_gen peer"
      using mem [of b t ts ts'] set by auto
  qed
  then show ?thesis
    using inv by (simp add: sfu_inv_def rooms_ok_def)
qed

lemma pending_tasks_update:
  assumes "k < length ps"
  shows "mset (pending_tasks (ps[k := p])) + mset (pending_task (ps ! k)) = mset (pending_tasks ps) + mset (pending_task p)"
proof -
  have "pending_tasks ps = pending_tasks (take k ps) @ pending_task (ps ! k) @ pending_tasks (drop (Suc k) ps)"
    using id_take_nth_drop [OF assms] by (metis pending_tasks_simps(2,3))
  moreover have "pending_tasks (ps[k := p]) = pending_tasks (take k ps) @ pending_task p @ pending_tasks (drop (Suc k) ps)"
    using upd_conv_take_nth_drop [OF assms, of p] by simp
  ultimately show ?thesis
    by simp
qed

text \<open>Adding tasks commutes with what the regions do.\<close>

lemma with_tasks_regions:
  "sfu_inv (with_tasks (su\<lparr>su_cmds := cmds\<rparr>) ts) = sfu_inv (with_tasks su ts)"
  "sfu_inv (with_tasks (su\<lparr>su_fresh := n\<rparr>) ts) = sfu_inv (with_tasks su ts)"
  "sfu_inv (with_tasks (su\<lparr>su_sessions := ss\<rparr>) ts) = sfu_inv (with_tasks su ts)"
  "sfu_inv (with_tasks (su\<lparr>su_routes := rs\<rparr>) ts) = sfu_inv (with_tasks su ts)"
  "sfu_inv (with_tasks (send_cmds cs su) ts) = sfu_inv (with_tasks su ts)"
  by (simp_all add: with_tasks_def sfu_inv_def rooms_ok_def tasks_ok_def send_cmds_def)

lemma with_tasks_fields [simp]:
  "su_rooms (with_tasks su ts) = su_rooms su" "su_next_map (with_tasks su ts) = su_next_map su"
  "su_tasks (with_tasks su ts) = su_tasks su @ ts" "su_next_peer_gen (with_tasks su ts) = su_next_peer_gen su"
  "su_all_peers (with_tasks su ts) = su_all_peers su" "peers_at a (with_tasks su ts) = peers_at a su"
  by (simp_all add: with_tasks_def)

lemma with_tasks_commute:
  "with_tasks (put_peers a p su) ts = put_peers a p (with_tasks su ts)"
  "with_tasks (su\<lparr>su_all_peers := ap\<rparr>) ts = (with_tasks su ts)\<lparr>su_all_peers := ap\<rparr>"
  "with_tasks (su\<lparr>su_rooms := rs\<rparr>) ts = (with_tasks su ts)\<lparr>su_rooms := rs\<rparr>"
  "with_tasks (ensure_room rid su) ts = ensure_room rid (with_tasks su ts)"
  "with_tasks (send_cmds cs su) ts = send_cmds cs (with_tasks su ts)"
  by (simp_all add: with_tasks_def put_peers_def ensure_room_def send_cmds_def split: option.split)

text \<open>A region that neither creates nor completes an entry.\<close>

lemma pending_task_cong:
  "pending (hp_pc p) = pending (hp_pc q) \<Longrightarrow> hp_pid p = hp_pid q \<Longrightarrow> hp_tx p = hp_tx q \<Longrightarrow> pending_task p = pending_task q"
  unfolding pending_task_def by presburger

lemma fine_invD:
  assumes "fine_inv su ps"
  shows fine_sfu: "sfu_inv (with_tasks su (pending_tasks ps))"
    and fine_addr: "p \<in> set ps \<Longrightarrow> pc_addr (hp_pc p) = Some a \<Longrightarrow> a < su_next_map su"
  using assms by (simp_all add: fine_inv_def)

lemma fine_inv_same:
  assumes inv: "fine_inv su ps" and k: "k < length ps" and same: "pending pc = pending (hp_pc (ps ! k))"
    and su': "sfu_inv (with_tasks su' (pending_tasks ps))" "su_next_map su \<le> su_next_map su'"
    and addr: "\<And>a. pc_addr pc = Some a \<Longrightarrow> a < su_next_map su'"
  shows "fine_inv su' (ps[k := (ps ! k)\<lparr>hp_pc := pc\<rparr>])"
proof -
  let ?p = "(ps ! k)\<lparr>hp_pc := pc\<rparr>"
  have "pending_task ?p = pending_task (ps ! k)"
    by (rule pending_task_cong) (simp_all add: same)
  then have "pending_tasks (ps[k := ?p]) = pending_tasks ps"
    using k by (simp add: pending_tasks_def map_update) (metis list_update_id nth_map)
  moreover have "a < su_next_map su'" if "q \<in> set (ps[k := ?p])" "pc_addr (hp_pc q) = Some a" for q a
  proof (cases "q = ?p")
    case True
    then show ?thesis
      using that(2) addr by simp
  next
    case False
    then have "q \<in> set ps"
      using that(1) set_update_subset_insert [of ps k ?p] by blast
    then show ?thesis
      using fine_addr [OF inv _ that(2)] su'(2) by simp
  qed
  ultimately show ?thesis
    using su'(1) by (simp add: fine_inv_def)
qed

lemma pending_task_None: "pending (hp_pc p) = None \<Longrightarrow> pending_task p = []"
  by (simp add: pending_task_def)

lemma pending_served: "k < length ps \<Longrightarrow> pending (hp_pc (ps ! k)) = Some (a, peer) \<Longrightarrow>
  \<exists>t. (a, t) \<in> set (pending_tasks ps) \<and> mt_pid t = hp_pid (ps ! k) \<and> mt_gen t = sp_gen peer"
  using nth_mem [of k ps] by (force simp: pending_tasks_def pending_task_def task_new_def)

subsection \<open>Offers\<close>

lemma sfu_inv_served_entry:
  assumes inv: "sfu_inv su" and t: "(a, t) \<in> set (su_tasks su)" "mt_pid t = pid" "mt_gen t = sp_gen peer"
  shows "sfu_inv (put_peers a (hm_insert pid peer (peers_at a su)) su)"
proof -
  have "a < su_next_map su"
    using inv t(1) by (auto simp: sfu_inv_def tasks_ok_def)
  then have "rooms_ok (put_peers a (hm_insert pid peer (peers_at a su)) su)"
    using inv sfu_inv_wf(2) [OF inv, of a] by (simp add: sfu_inv_def rooms_ok_put)
  moreover have "tasks_ok (put_peers a (hm_insert pid peer (peers_at a su)) su)"
    using inv t unfolding sfu_inv_def tasks_ok_def by auto
  ultimately show ?thesis
    by (simp add: sfu_inv_def)
qed

lemma sfu_inv_new_task:
  assumes inv: "sfu_inv su" and t: "mt_gen t = su_next_peer_gen su" "a < su_next_map su"
  shows "sfu_inv (su\<lparr>su_next_peer_gen := su_next_peer_gen su + 1, su_fresh := f, su_tasks := (a, t) # su_tasks su\<rparr>)"
proof -
  have "tasks_ok (su\<lparr>su_next_peer_gen := su_next_peer_gen su + 1, su_fresh := f, su_tasks := (a, t) # su_tasks su\<rparr>)"
    using inv t unfolding sfu_inv_def tasks_ok_def by (fastforce simp: less_Suc_eq peers_at_def)
  then show ?thesis
    using inv by (simp add: sfu_inv_def rooms_ok_def)
qed

lemma fine_inv_answer:
  assumes inv: "fine_inv su ps" and k: "k < length ps" "hp_pc (ps ! k) = OfferAnswer sdp a"
  shows "fine_inv (su\<lparr>su_next_peer_gen := su_next_peer_gen su + 1, su_fresh := su_fresh su + 2\<rparr>)
    (ps[k := (ps ! k)\<lparr>hp_pc := InsertRoomPeer ans a (new_peer tx su)\<rparr>])"
proof -
  let ?p = "(ps ! k)\<lparr>hp_pc := InsertRoomPeer ans a (new_peer tx su)\<rparr>"
  let ?su = "su\<lparr>su_next_peer_gen := su_next_peer_gen su + 1, su_fresh := su_fresh su + 2\<rparr>"
  have a: "a < su_next_map su"
    using fine_addr [OF inv nth_mem [OF k(1)]] k(2) by (simp add: pc_addr_def)
  obtain t where t: "pending_task ?p = [(a, t)]" "mt_gen t = su_next_peer_gen su"
    by (simp add: pending_task_def pending_def new_peer_def task_new_def)
  have "pending_task (ps ! k) = []"
    using k(2) by (simp add: pending_task_def pending_def)
  then have pend: "mset (pending_tasks (ps[k := ?p])) = mset (pending_tasks ps) + mset [(a, t)]"
    using pending_tasks_update [OF k(1), of ?p] t(1) by simp
  have "sfu_inv (?su\<lparr>su_tasks := (a, t) # su_tasks su @ pending_tasks ps\<rparr>)"
    using sfu_inv_new_task [OF fine_sfu [OF inv], of t a "su_fresh su + 2"] t(2) a by (simp add: with_tasks_def)
  then have "sfu_inv (with_tasks ?su (pending_tasks (ps[k := ?p])))"
    unfolding with_tasks_def by (rule sfu_inv_keys) (simp add: pend)
  moreover have "pc_addr (hp_pc q) = Some b \<Longrightarrow> q \<in> set (ps[k := ?p]) \<Longrightarrow> b < su_next_map su" for q b
    using fine_addr [OF inv, of q b] a set_update_subset_insert [of ps k ?p] by (auto simp: pc_addr_def)
  ultimately show ?thesis
    by (simp add: fine_inv_def)
qed

lemma fine_inv_spawn:
  assumes inv: "fine_inv su ps" and k: "k < length ps" "hp_pc (ps ! k) = SpawnMedia ans a peer"
  shows "fine_inv (spawn_media env (hp_pid (ps ! k)) peer a ans su) (ps[k := (ps ! k)\<lparr>hp_pc := HookDone\<rparr>])"
proof -
  let ?p = "(ps ! k)\<lparr>hp_pc := HookDone\<rparr>"
  obtain t where t: "spawn_media env (hp_pid (ps ! k)) peer a ans su = su\<lparr>su_tasks := su_tasks su @ [(a, t)]\<rparr>"
    "mt_pid t = hp_pid (ps ! k)" "mt_gen t = sp_gen peer"
    using spawn_media_shape by blast
  have "map task_key (pending_task (ps ! k)) = [task_key (a, t)]" "pending_task ?p = []"
    using k(2) t(2,3) by (simp_all add: pending_task_def pending_def task_key_def task_new_def)
  then have "image_mset task_key (mset (pending_tasks ps)) = image_mset task_key (mset (pending_tasks (ps[k := ?p]))) + {#task_key (a, t)#}"
    using arg_cong [OF pending_tasks_update [OF k(1), of ?p], of "image_mset task_key"] by (simp flip: mset_map)
  then have keys: "mset (map task_key ((su_tasks su @ [(a, t)]) @ pending_tasks (ps[k := ?p]))) = mset (map task_key (su_tasks su @ pending_tasks ps))"
    by simp
  have "sfu_inv (su\<lparr>su_tasks := (su_tasks su @ [(a, t)]) @ pending_tasks (ps[k := ?p])\<rparr>)"
    using sfu_inv_keys [OF _ keys] fine_sfu [OF inv] by (simp add: with_tasks_def)
  moreover have "pc_addr (hp_pc q) = Some b \<Longrightarrow> q \<in> set (ps[k := ?p]) \<Longrightarrow> b < su_next_map su" for q b
    using fine_addr [OF inv, of q b] set_update_subset_insert [of ps k ?p] by (auto simp: pc_addr_def)
  ultimately show ?thesis
    by (simp add: fine_inv_def t(1) with_tasks_def)
qed

lemma fine_inv_offer:
  assumes inv: "fine_inv su ps" and k: "k < length ps"
    and kind: "\<not> is_join_pc (hp_pc (ps ! k))" "\<not> is_leave_pc (hp_pc (ps ! k))"
    and step: "offer_step env (hp_pid (ps ! k)) tx (hp_pc (ps ! k)) su = (out, pc, su')"
  shows "fine_inv su' (ps[k := (ps ! k)\<lparr>hp_pc := pc\<rparr>])"
proof -
  note ok = fine_sfu [OF inv]
  have room: "a < su_next_map su" if "hm_get (su_rooms su) rid = Some a" for rid a
    using sfu_inv_room [OF ok] that by simp
  have addr: "pc_addr (hp_pc (ps ! k)) = Some a \<Longrightarrow> a < su_next_map su" for a
    using fine_addr [OF inv nth_mem [OF k]] .
  show ?thesis
  proof (cases "hp_pc (ps ! k)")
    case (OfferAnswer sdp a)
    show ?thesis
    proof (cases "ev_answer env (patch_sdp_directions sdp)")
      case None
      then have "su' = su" "pc = HookDone"
        using step OfferAnswer by (simp_all add: offer_step_def)
      then show ?thesis
        using OfferAnswer ok by (intro fine_inv_same [OF inv k]) (simp_all add: pending_def pc_addr_def)
    next
      case (Some ans)
      then have "su' = su\<lparr>su_next_peer_gen := su_next_peer_gen su + 1, su_fresh := su_fresh su + 2\<rparr>"
        "pc = InsertRoomPeer ans a (new_peer tx su)"
        using step OfferAnswer by (simp_all add: offer_step_def)
      then show ?thesis
        using fine_inv_answer [OF inv k OfferAnswer] by simp
    qed
  next
    case (InsertRoomPeer ans a peer)
    then obtain t where t: "(a, t) \<in> set (pending_tasks ps)" "mt_pid t = hp_pid (ps ! k)" "mt_gen t = sp_gen peer"
      using pending_served [OF k, of a peer] by (auto simp: pending_def)
    have eq: "su' = put_peers a (hm_insert (hp_pid (ps ! k)) peer (peers_at a su)) su" "pc = InsertAllPeers ans a peer"
      using step InsertRoomPeer by (simp_all add: offer_step_def)
    have "sfu_inv (with_tasks su' (pending_tasks ps))"
      using sfu_inv_served_entry [OF ok _ t(2,3), of a] t(1) by (simp add: eq with_tasks_commute)
    then show ?thesis
      using InsertRoomPeer eq(2) by (intro fine_inv_same [OF inv k]) (simp_all add: eq pending_def pc_addr_def)
  next
    case (InsertAllPeers ans a peer)
    have eq: "su' = su\<lparr>su_all_peers := hm_insert (hp_pid (ps ! k)) peer (su_all_peers su)\<rparr>" "pc = MarkSession ans a peer"
      using step InsertAllPeers by (simp_all add: offer_step_def)
    have "sfu_inv (with_tasks su' (pending_tasks ps))"
      using sfu_inv_wf(1) [OF ok] by (simp add: eq with_tasks_commute sfu_inv_all_peers [OF ok])
    then show ?thesis
      using InsertAllPeers eq(2) by (intro fine_inv_same [OF inv k]) (simp_all add: eq pending_def pc_addr_def)
  next
    case (MarkSession ans a peer)
    have eq: "su' = su\<lparr>su_sessions := hm_modify (hp_pid (ps ! k)) (\<lambda>s. s\<lparr>se_has_media_task := True\<rparr>) (su_sessions su)\<rparr>"
      "pc = SpawnMedia ans a peer"
      using step MarkSession by (simp_all add: offer_step_def)
    show ?thesis
      using MarkSession ok by (intro fine_inv_same [OF inv k]) (simp_all add: eq with_tasks_regions pending_def pc_addr_def)
  next
    case (SpawnMedia ans a peer)
    then show ?thesis
      using step fine_inv_spawn [OF inv k SpawnMedia, of env] by (auto simp: offer_step_def)
  next
    case (RenegSend sdp a)
    have "(\<exists>cs n. su' = (send_cmds cs su)\<lparr>su_fresh := n\<rparr>) \<or> su' = su" "pending pc = None" "pc_addr pc = None"
      using step RenegSend by (auto simp: offer_step_def pending_def pc_addr_def split: option.splits)
    then show ?thesis
      using RenegSend ok by (intro fine_inv_same [OF inv k]) (auto simp: with_tasks_regions pending_def)
  next
    case (OfferRoom sdp has_media rid)
    then have "su' = su" "pending pc = None" "pc_addr pc = Some a \<Longrightarrow> hm_get (su_rooms su) rid = Some a" for a
      using step by (auto simp: offer_step_def pending_def pc_addr_def split: option.splits if_splits)
    then show ?thesis
      using OfferRoom ok room by (intro fine_inv_same [OF inv k]) (simp_all add: pending_def)
  next
    case (OfferSession sdp has_media)
    then have "su' = su" "pending pc = None" "pc_addr pc = None"
      using step by (auto simp: offer_step_def pending_def pc_addr_def split: option.splits)
    then show ?thesis
      using OfferSession ok by (intro fine_inv_same [OF inv k]) (simp_all add: pending_def)
  qed (use step ok kind in \<open>intro fine_inv_same [OF inv k]; simp add: offer_step_def pending_def pc_addr_def pc_kinds;
        force simp: pending_def pc_addr_def\<close>)+
qed

subsection \<open>Joins, disconnections, other messages\<close>

lemma fine_inv_join:
  assumes inv: "fine_inv su ps" and k: "k < length ps" and kind: "is_join_pc (hp_pc (ps ! k))"
    and step: "join_step dead (hp_pid (ps ! k)) (hp_pc (ps ! k)) (su, st) = (pc, su', st')"
  shows "fine_inv su' (ps[k := (ps ! k)\<lparr>hp_pc := pc\<rparr>])"
proof -
  note ok = fine_sfu [OF inv]
  have new: "su_next_map su \<le> su_next_map (ensure_room rid su)" for rid
    by (simp add: ensure_room_def split: option.split)
  have "pending pc = None" "pending (hp_pc (ps ! k)) = None" "pc_addr pc = None"
    using step kind by (auto simp: join_step_def pending_def pc_addr_def pc_kinds split: hook_pc.splits)
  moreover have "(\<exists>cs. su' = send_cmds cs su) \<or> (\<exists>rid. su' = ensure_room rid su) \<or> (\<exists>ss. su' = su\<lparr>su_sessions := ss\<rparr>) \<or> su' = su"
  proof (cases "hp_pc (ps ! k)")
    case (JoinPruned rid pruned)
    then show ?thesis
      using step notify_only_sends(1) [of rid pruned su] by (auto simp: join_step_def split: if_splits)
  next
    case (JoinRejoin rid pruned)
    then show ?thesis
      using step notify_only_sends(2) [of rid pruned "hp_pid (ps ! k)" su] by (auto simp: join_step_def)
  next
    case (JoinCount rid)
    then show ?thesis
      using step notify_only_sends(3) [of rid su] by (auto simp: join_step_def)
  qed (use step kind in \<open>auto simp: join_step_def pc_kinds\<close>)
  ultimately show ?thesis
    using ok new sfu_inv_ensure_room [OF ok] by (intro fine_inv_same [OF inv k]) (auto simp: with_tasks_regions with_tasks_commute)
qed

lemma fine_inv_leave:
  assumes inv: "fine_inv su ps" and k: "k < length ps" and kind: "is_leave_pc (hp_pc (ps ! k))"
    and step: "leave_step ser (hp_pid (ps ! k)) (hp_pc (ps ! k)) su = (out, pc, su')"
  shows "fine_inv su' (ps[k := (ps ! k)\<lparr>hp_pc := pc\<rparr>])"
proof -
  note ok = fine_sfu [OF inv]
  have next_map: "su_next_map su' = su_next_map su" and pend: "pending pc = None" "pending (hp_pc (ps ! k)) = None"
    using step kind by (auto simp: leave_step_def pending_def pc_kinds Let_def split: hook_pc.splits list.splits option.splits)
  have addr: "a < su_next_map su" if pca: "pc_addr pc = Some a" for a
  proof (cases "hp_pc (ps ! k)")
    case (LeaveRooms affected)
    then obtain rid where "hm_get (su_rooms su) rid = Some a"
      using step pca by (auto simp: leave_step_def pc_addr_def split: list.splits option.splits)
    then show ?thesis
      using sfu_inv_room [OF ok] by simp
  next
    case (LeaveNotify rid e b rest)
    then have "b = a"
      using step that by (auto simp: leave_step_def pc_addr_def Let_def)
    then show ?thesis
      using fine_addr [OF inv nth_mem [OF k]] LeaveNotify by (simp add: pc_addr_def)
  qed (use step kind that in \<open>auto simp: leave_step_def pc_addr_def pc_kinds\<close>)
  have "sfu_inv (with_tasks su' (pending_tasks ps))"
  proof (cases "hp_pc (ps ! k)")
    case (LeaveAllPeers affected)
    then show ?thesis
      using step sfu_inv_wf(1) [OF ok] by (auto simp: leave_step_def with_tasks_commute intro!: sfu_inv_all_peers [OF ok])
  next
    case (LeaveRemove rid e a rest)
    then have "a < su_next_map su"
      using fine_addr [OF inv nth_mem [OF k]] by (simp add: pc_addr_def)
    then show ?thesis
      using step LeaveRemove sfu_inv_wf(2) [OF ok, of a]
      by (auto simp: leave_step_def with_tasks_commute intro!: sfu_inv_fewer_peers [OF ok] split: if_splits)
  next
    case (LeaveDrop rid e rest)
    then show ?thesis
      using step ok sfu_inv_drop_room [OF ok, of rid] by (auto simp: leave_step_def with_tasks_commute split: if_splits)
  qed (use step kind ok in \<open>auto simp: leave_step_def with_tasks_regions pc_kinds Let_def split: list.splits\<close>)
  then show ?thesis
    using next_map pend addr by (intro fine_inv_same [OF inv k]) simp_all
qed

lemma message_sends_only:
  assumes "\<not> in_regions sdp" "sfu_on_message env dead sdp raw pid tx (su, st) = (handled, out, su', st')"
  shows "su' = su \<or> (\<exists>cs. su' = send_cmds cs su)"
  using assms by (cases sdp) (auto simp: in_regions_def sfu_on_message_def on_screen_share_def on_mute_audio_def Let_def split: prod.splits)

lemma fine_inv_su:
  assumes "fine_inv su ps" "sfu_inv (with_tasks su' (pending_tasks ps))" "su_next_map su' = su_next_map su"
  shows "fine_inv su' ps"
  using assms by (simp add: fine_inv_def)

subsection \<open>Rounds of the media tasks\<close>

lemma apply_effects_tasks: "su_tasks (fold apply_effect es su) = su_tasks su"
  "fold apply_effect es (with_tasks su ts) = with_tasks (fold apply_effect es su) ts"
proof -
  have one: "su_tasks (apply_effect e su) = su_tasks su" "apply_effect e (with_tasks su ts) = with_tasks (apply_effect e su) ts" for e su
    by (cases e; simp add: with_tasks_def send_cmds_def)+
  show "su_tasks (fold apply_effect es su) = su_tasks su"
    by (induction es arbitrary: su) (simp_all add: one)
  show "fold apply_effect es (with_tasks su ts) = with_tasks (fold apply_effect es su) ts"
    by (induction es arbitrary: su) (simp_all add: one)
qed

lemma end_task_with:
  "i < length (su_tasks su) \<Longrightarrow> end_task i (with_tasks su ts) = with_tasks (end_task i su) ts"
  by (simp add: end_task_def nth_append with_tasks_def put_peers_def peers_at_def split: prod.split)

lemma task_round_with:
  assumes i: "i < length (su_tasks su)" and round: "task_round menv rd i (su, cs) = (ws, su', cs')"
  shows "task_round menv rd i (with_tasks su ts, cs) = (ws, with_tasks su' ts, cs')"
proof -
  have upd: "(with_tasks s ts)\<lparr>su_tasks := (su_tasks su @ ts)[i := e]\<rparr> = with_tasks (s\<lparr>su_tasks := (su_tasks su)[i := e]\<rparr>) ts" for s e
    using i by (simp add: with_tasks_def list_update_append)
  show ?thesis
    using i round
    by (auto simp: task_round_def nth_append apply_effects_tasks upd end_task_with Let_def split: prod.splits if_splits)
qed

lemma round_next_map: "task_round menv rd i (su, cs) = (ws, su', cs') \<Longrightarrow> su_next_map su' = su_next_map su"
proof -
  have one: "su_next_map (apply_effect e su) = su_next_map su" for e su
    by (cases e) simp_all
  have "su_next_map (fold apply_effect es su) = su_next_map su" for es su
    by (induction es arbitrary: su) (simp_all add: one)
  then show "task_round menv rd i (su, cs) = (ws, su', cs') \<Longrightarrow> su_next_map su' = su_next_map su"
    by (auto simp: task_round_def end_task_def Let_def split: prod.splits if_splits)
qed

section \<open>The theorems\<close>

lemma fine_inv_call:
  assumes "fine_inv su ps" "starts_hook pc"
  shows "fine_inv su (ps @ [hook_new pid tx pc])"
proof -
  have "pending pc = None" "pc_addr pc = None"
    using assms(2) by (auto simp: starts_hook_def pending_def pc_addr_def split: hook_pc.splits)
  then show ?thesis
    using assms(1) by (auto simp: fine_inv_def pending_task_None)
qed

lemma fine_inv_region:
  assumes inv: "fine_inv su ps" and k: "k < length ps" and step: "hook_step env dead (ps ! k) (su, st) = (out, p, su', st')"
  shows "fine_inv su' (ps[k := p])"
proof -
  let ?pc = "hp_pc (ps ! k)"
  consider (join) "is_join_pc ?pc" | (leave) "\<not> is_join_pc ?pc" "is_leave_pc ?pc" | (offer) "\<not> is_join_pc ?pc" "\<not> is_leave_pc ?pc"
    by blast
  then show ?thesis
  proof cases
    case join
    then obtain pc where "join_step dead (hp_pid (ps ! k)) ?pc (su, st) = (pc, su', st')" "p = (ps ! k)\<lparr>hp_pc := pc\<rparr>"
      using step by (auto simp: hook_step_def split: prod.splits)
    then show ?thesis
      using fine_inv_join [OF inv k join] by simp
  next
    case leave
    then obtain pc where "leave_step (ev_ser env) (hp_pid (ps ! k)) ?pc su = (out, pc, su')" "p = (ps ! k)\<lparr>hp_pc := pc\<rparr>"
      using step by (auto simp: hook_step_def split: prod.splits)
    then show ?thesis
      using fine_inv_leave [OF inv k leave(2)] by simp
  next
    case offer
    then obtain pc where "offer_step env (hp_pid (ps ! k)) (hp_tx (ps ! k)) ?pc su = (out, pc, su')" "p = (ps ! k)\<lparr>hp_pc := pc\<rparr>"
      using step by (auto simp: hook_step_def split: prod.splits)
    then show ?thesis
      using fine_inv_offer [OF inv k offer] by simp
  qed
qed

lemma fine_inv_round:
  assumes inv: "fine_inv su ps" and round: "task_round menv rd i (su, cs) = (ws, su', cs')"
  shows "fine_inv su' ps"
proof (cases "i < length (su_tasks su)")
  case True
  then show ?thesis
    using sfu_inv_task_round [OF fine_sfu [OF inv] task_round_with [OF True round]] round_next_map [OF round] inv
    by (simp add: fine_inv_su)
next
  case False
  then show ?thesis
    using inv round by (simp add: task_round_def)
qed

lemma fine_reach_inv: "fine_reach su st ps cs \<Longrightarrow> fine_inv su ps"
proof (induction rule: fine_reach.induct)
  case fine_start
  show ?case
    using sfu_inv_new by (simp add: fine_inv_def with_tasks_def sfu_new_def)
next
  case (fine_call su st ps cs pc pid tx)
  then show ?case
    by (simp add: fine_inv_call)
next
  case (fine_region su st ps cs k env dead out p su' st')
  then show ?case
    by (metis fine_inv_region)
next
  case (fine_message su st ps cs sdp env dead raw pid tx handled out su' st')
  then have "su' = su \<or> (\<exists>cs. su' = send_cmds cs su)"
    by (metis message_sends_only)
  then show ?case
    using fine_message.IH fine_sfu [OF fine_message.IH]
    by (auto intro!: fine_inv_su [OF fine_message.IH] simp: with_tasks_regions)
next
  case (fine_engine su st ps cs st')
  then show ?case
    by simp
next
  case (fine_media su st ps cs menv rd i ws su' cs')
  then show ?case
    using fine_inv_round by blast
qed

text \<open>
  A hook of the media server whose lock regions are not interrupted does what the hook modelled in one piece
  does: an offer in eight regions, a join in six, a disconnection in as many as its rooms need, with the same
  messages sent and the same state left.
\<close>

lemma uninterrupted_hooks_atomic:
  "hook_run 8 env dead (hook_new pid tx (OfferStart sdp)) (su, st) =
     (case on_offer env sdp pid tx su of (out, su') \<Rightarrow> (out, hook_new pid tx HookDone, su', st)) \<and>
   hook_run 6 env dead (hook_new pid tx (JoinStart rid)) (su, st) =
     (case on_join dead rid pid (su, st) of (su', st') \<Rightarrow> ([], hook_new pid tx HookDone, su', st')) \<and>
   (\<exists>n. hook_run n env dead (hook_new pid tx (LeaveStart affected)) (su, st) =
     (case sfu_on_disconnect env pid affected (su, st) of (out, su', st') \<Rightarrow> (out, hook_new pid tx HookDone, su', st')))"
  by (intro conjI offer_alone join_alone leave_alone)

lemma fine_inv_served:
  assumes "fine_inv su ps"
  shows "(\<forall>rid rid' a. hm_get (su_rooms su) rid = Some a \<longrightarrow> hm_get (su_rooms su) rid' = Some a \<longrightarrow> rid = rid') \<and>
    (\<forall>a pid peer. hm_get (peers_at a su) pid = Some peer \<longrightarrow>
      (\<exists>t. (a, t) \<in> set (su_tasks su) \<and> mt_pid t = pid \<and> mt_gen t = sp_gen peer) \<or>
      (\<exists>p \<in> set ps. \<exists>peer'. pending (hp_pc p) = Some (a, peer') \<and> hp_pid p = pid \<and> sp_gen peer' = sp_gen peer)) \<and>
    (list_all (\<lambda>p. pending (hp_pc p) = None) ps \<longrightarrow> sfu_inv su)"
proof (intro conjI allI impI)
  note inv = fine_sfu [OF assms]
  fix rid rid' a assume "hm_get (su_rooms su) rid = Some a" "hm_get (su_rooms su) rid' = Some a"
  then show "rid = rid'"
    using inv unfolding sfu_inv_def rooms_ok_def with_tasks_fields by blast
next
  note inv = fine_sfu [OF assms]
  fix a pid peer assume "hm_get (peers_at a su) pid = Some peer"
  then obtain t where t: "(a, t) \<in> set (su_tasks su) \<or> (a, t) \<in> set (pending_tasks ps)" "mt_pid t = pid" "mt_gen t = sp_gen peer"
    using inv unfolding sfu_inv_def tasks_ok_def with_tasks_fields by (metis Un_iff set_append)
  show "(\<exists>t. (a, t) \<in> set (su_tasks su) \<and> mt_pid t = pid \<and> mt_gen t = sp_gen peer) \<or>
      (\<exists>p \<in> set ps. \<exists>peer'. pending (hp_pc p) = Some (a, peer') \<and> hp_pid p = pid \<and> sp_gen peer' = sp_gen peer)"
  proof (cases "(a, t) \<in> set (su_tasks su)")
    case False
    then obtain p where p: "p \<in> set ps" "(a, t) \<in> set (pending_task p)"
      using t(1) by (auto simp: pending_tasks_def)
    then show ?thesis
      using t(2,3) by (fastforce simp: pending_task_def task_new_def split: option.splits)
  qed (use t in blast)
next
  assume "list_all (\<lambda>p. pending (hp_pc p) = None) ps"
  then have "pending_tasks ps = []"
    by (simp add: pending_tasks_def list_all_iff pending_task_None)
  then show "sfu_inv su"
    using fine_sfu [OF assms] by (simp add: with_tasks_def)
qed

text \<open>
  However the lock regions of concurrent hooks and the rounds of the media tasks interleave: no two rooms
  share their peers; every peer of a room is served by a running task of its participant and generation or by
  an offer that is about to spawn it; and whenever no offer is in between, the server's full invariant holds.
\<close>

lemma interleaved_hooks_invariant:
  assumes "fine_reach su st ps cs"
  shows "(\<forall>rid rid' a. hm_get (su_rooms su) rid = Some a \<longrightarrow> hm_get (su_rooms su) rid' = Some a \<longrightarrow> rid = rid') \<and>
    (\<forall>a pid peer. hm_get (peers_at a su) pid = Some peer \<longrightarrow>
      (\<exists>t. (a, t) \<in> set (su_tasks su) \<and> mt_pid t = pid \<and> mt_gen t = sp_gen peer) \<or>
      (\<exists>p \<in> set ps. \<exists>peer'. pending (hp_pc p) = Some (a, peer') \<and> hp_pid p = pid \<and> sp_gen peer' = sp_gen peer)) \<and>
    (list_all (\<lambda>p. pending (hp_pc p) = None) ps \<longrightarrow> sfu_inv su)"
  using fine_inv_served [OF fine_reach_inv [OF assms]] .

subsection \<open>Two participants at the same time\<close>

fun schedule :: "sfu_env \<Rightarrow> (chan \<Rightarrow> bool) \<Rightarrow> nat list \<Rightarrow> hook_proc list \<times> sfu_server \<times> signaling_state \<Rightarrow>
    hook_proc list \<times> sfu_server \<times> signaling_state" where
  \<comment> \<open>the processes named in the list run their next region in turn\<close>
  "schedule env dead [] s = s"
| "schedule env dead (k # ks) (ps, su, st) =
    schedule env dead ks (if k < length ps
      then case hook_step env dead (ps ! k) (su, st) of (out, p, su', st') \<Rightarrow> (ps[k := p], su', st') else (ps, su, st))"

lemma schedule_reach:
  "fine_reach su st ps cs \<Longrightarrow> schedule env dead ks (ps, su, st) = (ps', su', st') \<Longrightarrow> fine_reach su' st' ps' cs"
proof (induction ks arbitrary: ps su st)
  case (Cons k ks)
  then show ?case
    by (cases "k < length ps") (auto split: prod.splits intro: fine_region)
qed simp

definition two_joins :: "hook_proc list" where
  "two_joins = [hook_new (ParticipantId 1) 1 (JoinStart ''a''), hook_new (ParticipantId 2) 2 (JoinStart ''a'')]"

definition two_offers :: "nat list \<Rightarrow> hook_proc list \<times> sfu_server \<times> signaling_state" where
  \<comment> \<open>both participants join the room, their regions in turn, then both send an offer\<close>
  "two_offers ks = (case schedule demo_sfu_env (\<lambda>_. False) [0, 1, 0, 1, 0, 1, 0, 1, 0, 1, 0, 1] (two_joins, sfu_new, state_new) of
     (ps, su, st) \<Rightarrow> schedule demo_sfu_env (\<lambda>_. False) ks
       (ps @ [hook_new (ParticipantId 1) 1 (OfferStart ''v=0''), hook_new (ParticipantId 2) 2 (OfferStart ''v=0'')], su, st))"

lemma two_offers_reach: "two_offers ks = (ps, su, st) \<Longrightarrow> fine_reach su st ps (\<lambda>_. 0)"
proof -
  assume run: "two_offers ks = (ps, su, st)"
  obtain ps1 su1 st1 where joins: "schedule demo_sfu_env (\<lambda>_. False) [0, 1, 0, 1, 0, 1, 0, 1, 0, 1, 0, 1] (two_joins, sfu_new, state_new) = (ps1, su1, st1)"
    by (metis surj_pair)
  have start: "fine_reach sfu_new state_new two_joins (\<lambda>_. 0)"
    using fine_call [OF fine_call [OF fine_start, of "JoinStart ''a''" "ParticipantId 1" 1], of "JoinStart ''a''" "ParticipantId 2" 2]
    by (simp add: two_joins_def starts_hook_def)
  have "fine_reach su1 st1 (ps1 @ [hook_new (ParticipantId 1) 1 (OfferStart ''v=0''), hook_new (ParticipantId 2) 2 (OfferStart ''v=0'')]) (\<lambda>_. 0)"
    using fine_call [OF fine_call [OF schedule_reach [OF start joins], of "OfferStart ''v=0''" "ParticipantId 1" 1],
        of "OfferStart ''v=0''" "ParticipantId 2" 2]
    by (simp add: starts_hook_def)
  then show ?thesis
    using run unfolding two_offers_def joins prod.case by (rule schedule_reach)
qed

definition half_way :: "nat list" where
  "half_way = [2, 3, 2, 3, 2, 3, 2, 3, 3, 2, 3, 3, 3]"

lemma two_offers_half_way:
  "case two_offers half_way of (ps, su, st) \<Rightarrow>
     map (\<lambda>e. (fst e, sp_gen (snd e))) (peers_at 0 su) = [(ParticipantId 2, 2), (ParticipantId 1, 1)] \<and>
     map (\<lambda>e. (fst e, mt_gen (snd e))) (su_tasks su) = [(0, 2)]"
  by code_simp

lemma two_offers_done:
  "case two_offers (half_way @ [2, 2, 2]) of (ps, su, st) \<Rightarrow>
     list_all (\<lambda>p. pending (hp_pc p) = None) ps \<and> map (\<lambda>e. (fst e, mt_gen (snd e))) (su_tasks su) = [(0, 2), (0, 1)]"
  by code_simp

theorem interleaved_hooks_invariant_witness:
  "(case two_offers half_way of (ps, su, st) \<Rightarrow>
      \<exists>p \<in> set ps. \<exists>peer. pending (hp_pc p) = Some (0, peer) \<and> hp_pid p = ParticipantId 1 \<and> sp_gen peer = 1) \<and>
   sfu_inv (fst (snd (two_offers (half_way @ [2, 2, 2]))))"
proof
  obtain ps su st where run: "two_offers half_way = (ps, su, st)"
    by (metis surj_pair)
  have peers: "map (\<lambda>e. (fst e, sp_gen (snd e))) (peers_at 0 su) = [(ParticipantId 2, 2), (ParticipantId 1, 1)]"
    and tasks: "map (\<lambda>e. (fst e, mt_gen (snd e))) (su_tasks su) = [(0, 2)]"
    using two_offers_half_way unfolding run by simp_all
  obtain peer where peer: "hm_get (peers_at 0 su) (ParticipantId 1) = Some peer" "sp_gen peer = 1"
    using peers by (auto simp: map_eq_Cons_conv)
  have "mt_gen t \<noteq> 1" if "(0, t) \<in> set (su_tasks su)" for t
    using tasks that by auto
  with interleaved_hooks_invariant [OF two_offers_reach [OF run], THEN conjunct2, THEN conjunct1, rule_format, OF peer(1)] peer(2)
  show "case two_offers half_way of (ps, su, st) \<Rightarrow>
      \<exists>p \<in> set ps. \<exists>peer. pending (hp_pc p) = Some (0, peer) \<and> hp_pid p = ParticipantId 1 \<and> sp_gen peer = 1"
    unfolding run by auto
next
  obtain ps su st where run: "two_offers (half_way @ [2, 2, 2]) = (ps, su, st)"
    by (metis surj_pair)
  have "list_all (\<lambda>p. pending (hp_pc p) = None) ps"
    using two_offers_done unfolding run by simp
  then have "sfu_inv su"
    using interleaved_hooks_invariant [OF two_offers_reach [OF run], THEN conjunct2, THEN conjunct2, rule_format] by blast
  then show "sfu_inv (fst (snd (two_offers (half_way @ [2, 2, 2]))))"
    by (simp add: run)
qed

end
