(* ===== verification/Sfu_Regions.thy ===== *)
theory Sfu_Regions
  imports Sfu_Membership Sfu_Interleaving
begin

text \<open>
  The whole server, lock region by lock region: the connections of \<open>seameet-signaling/src/engine.rs\<close>, the hooks of
  \<open>seameet-sfu/src/lib.rs\<close> cut as in \<open>Sfu_Interleaving\<close>, and the media tasks. A connection that calls a hook of several
  regions owns a process until the hook returns; between any two regions everybody else may run. A connection
  also ends when its first offer finds no socket to learn the local address with (\<open>expect\<close> in \<open>local_ip\<close>).
\<close>

section \<open>Connections with a hook in progress\<close>

record region_server =
  rg_sv :: "sfu_server server"
  rg_procs :: "hook_proc option list"

definition message_start :: "sdp_message \<Rightarrow> hook_pc option" where
  "message_start sdp =
    (case sdp of Offer _ _ _ offer_sdp \<Rightarrow> Some (OfferStart offer_sdp) | Join _ room_id _ _ \<Rightarrow> Some (JoinStart room_id) | _ \<Rightarrow> None)"

definition hook_start :: "connection \<Rightarrow> (participant_id \<times> hook_pc) option" where
  "hook_start cn =
    (case cn_pid cn of
       None \<Rightarrow> None
     | Some pid \<Rightarrow>
        (case cn_pc cn of
           Hooking sdp _ _ \<Rightarrow> map_option (Pair pid) (message_start sdp)
         | NotifyingHooks affected \<Rightarrow> Some (pid, LeaveStart affected)
         | _ \<Rightarrow> None))"

definition hook_end :: "sfu_env \<Rightarrow> connection \<Rightarrow> connection" where
  \<comment> \<open>what the connection does when the hook returns: an offer is handled, a join goes on to \<open>dispatch\<close>\<close>
  "hook_end env cn =
    (case cn_pc cn of
       Hooking sdp raw first \<Rightarrow>
         (case sdp of Offer _ _ _ _ \<Rightarrow> after_dispatch (sfu_hooks env) first cn | _ \<Rightarrow> goto (Dispatching sdp raw first) cn)
     | NotifyingHooks _ \<Rightarrow> goto Finished cn
     | _ \<Rightarrow> cn)"

definition put_region :: "nat \<Rightarrow> connection \<Rightarrow> hook_proc option \<Rightarrow> sfu_server \<Rightarrow> signaling_state \<Rightarrow> region_server \<Rightarrow> region_server" where
  "put_region k cn p su st r = \<lparr>rg_sv = put_conn k cn su st (rg_sv r), rg_procs = (rg_procs r)[k := p]\<rparr>"

definition region_advance ::
  "serialiser \<Rightarrow> (participant_id \<Rightarrow> string) \<Rightarrow> sfu_env \<Rightarrow> nat \<Rightarrow> (chan \<Rightarrow> bool) \<Rightarrow> region_server \<Rightarrow> region_server" where
  "region_advance ser show env k dead r =
    (let sv = rg_sv r; cn = sv_conns sv ! k; su = sv_hooks sv; st = sv_state sv in
     case rg_procs r ! k of
       Some p \<Rightarrow>
         if hp_pc p = HookDone then put_region k (hook_end env cn) None su st r
         else (case hook_step env dead p (su, st) of (out, p', su', st') \<Rightarrow> put_region k cn (Some p') su' st' r)
     | None \<Rightarrow>
        (case hook_start cn of
           Some (pid, pc) \<Rightarrow> put_region k cn (Some (hook_new pid (cn_tx cn) pc)) su st r
         | None \<Rightarrow>
            (case conn_step ser show (sfu_hooks env) dead cn (su, st) of (out, cn', su', st') \<Rightarrow> put_region k cn' None su' st' r)))"

definition no_socket :: "nat \<Rightarrow> region_server \<Rightarrow> region_server" where
  "no_socket k r =
    (case rg_procs r ! k of
       Some p \<Rightarrow>
         (case hp_pc p of
            OfferAnswer _ _ \<Rightarrow> put_region k (goto Crashed (sv_conns (rg_sv r) ! k)) None (sv_hooks (rg_sv r)) (sv_state (rg_sv r)) r
          | _ \<Rightarrow> r)
     | None \<Rightarrow> r)"

datatype region_event = Event sv_event | NoSocket nat

fun region_step ::
  "serialiser \<Rightarrow> (participant_id \<Rightarrow> string) \<Rightarrow> (string \<Rightarrow> sdp_message option) \<Rightarrow> sfu_env \<Rightarrow> region_event \<Rightarrow> region_server \<Rightarrow>
    region_server" where
  "region_step ser show de env (Event (Accept tx)) r =
     \<lparr>rg_sv = snd (sv_step ser show de (sfu_hooks env) (Accept tx) (rg_sv r)), rg_procs = rg_procs r @ [None]\<rparr>"
| "region_step ser show de env (Event (Advance k dead)) r =
     (if k < length (sv_conns (rg_sv r)) then region_advance ser show env k dead r else r)"
| "region_step ser show de env (Event e) r = r\<lparr>rg_sv := snd (sv_step ser show de (sfu_hooks env) e (rg_sv r))\<rparr>"
| "region_step ser show de env (NoSocket k) r = (if k < length (sv_conns (rg_sv r)) then no_socket k r else r)"

definition region_new :: region_server where
  "region_new = \<lparr>rg_sv = server_new sfu_new, rg_procs = []\<rparr>"

definition region_hooks :: "sfu_server \<Rightarrow> region_server \<Rightarrow> region_server" where
  "region_hooks su r = r\<lparr>rg_sv := (rg_sv r)\<lparr>sv_hooks := su\<rparr>\<rparr>"

inductive region_reach ::
  "serialiser \<Rightarrow> (participant_id \<Rightarrow> string) \<Rightarrow> (string \<Rightarrow> sdp_message option) \<Rightarrow> region_server \<Rightarrow> counters \<Rightarrow> bool"
  for ser "show" de where
  region_start: "region_reach ser show de region_new (\<lambda>_. 0)"
| region_signal: "region_reach ser show de r cs \<Longrightarrow> region_reach ser show de (region_step ser show de env e r) cs"
| region_media: "region_reach ser show de r cs \<Longrightarrow> task_round menv rd i (sv_hooks (rg_sv r), cs) = (ws, su', cs') \<Longrightarrow>
    region_reach ser show de (region_hooks su' r) cs'"

section \<open>What a region changes\<close>

text \<open>Of the signaling state, a region of a hook changes at most one room, by pruning it.\<close>

lemma hook_step_state:
  assumes "hook_step env dead p (su, st) = (out, p', su', st')"
  shows "st' = st \<or> (\<exists>rid. st' = update_room rid (\<lambda>r. snd (prune_stale dead r)) st)"
  using assms by (auto simp: hook_step_def join_step_def split: prod.splits if_splits hook_pc.splits)

lemma start_pc: "hook_start cn = Some (pid, pc) \<Longrightarrow> starts_hook pc"
  by (auto simp: hook_start_def message_start_def starts_hook_def split: option.splits conn_pc.splits sdp_message.splits)

lemma message_start_None: "message_start sdp = None \<longleftrightarrow> \<not> in_regions sdp"
  by (cases sdp) (simp_all add: message_start_def in_regions_def)

text \<open>A step of a connection outside the calls of several regions only sends commands, if it touches the media server at all.\<close>

lemma plain_step_sends:
  assumes "hook_start cn = None" "conn_step ser show (sfu_hooks env) dead cn (su, st) = (out, cn', su', st')"
  shows "su' = su \<or> (\<exists>cs. su' = send_cmds cs su)"
proof (cases "cn_pc cn")
  case (Hooking sdp raw first)
  show ?thesis
  proof (cases "cn_pid cn")
    case (Some pid)
    then have "\<not> in_regions sdp"
      using assms(1) Hooking by (simp add: hook_start_def message_start_None)
    then show ?thesis
      using assms(2) Hooking Some message_sends_only [of sdp env dead raw pid "cn_tx cn" su st]
      by (auto simp: conn_step_def sfu_hooks_def Let_def split: prod.splits)
  qed (use assms(2) Hooking in \<open>simp add: conn_step_def\<close>)
next
  case (NotifyingHooks affected)
  then show ?thesis
    using assms by (auto simp: conn_step_def hook_start_def split: option.splits)
qed (use assms(2) in \<open>auto simp: conn_step_def Let_def split: option.splits prod.splits list.splits\<close>)

lemma sfu_hooks_plain:
  "hk_on_authenticate (sfu_hooks env) pid rid tok su = (Inr (), su)" "hk_on_rate_check (sfu_hooks env) pid su = (True, su)"
  by (simp_all add: sfu_hooks_def noop_hooks_def on_authenticate_default_def on_rate_check_default_def)

lemma recv_same_hook: "conn_recv ser de (sfu_hooks env) received cn su = (out, cn', su') \<Longrightarrow> su' = su"
  by (auto simp: conn_recv_def first_join_def joined_message_def sfu_hooks_plain Let_def
      split: option.splits sdp_message.splits if_splits outcome.splits)

section \<open>The invariant\<close>

definition idle_proc :: hook_proc where
  "idle_proc = hook_new (ParticipantId 0) 0 HookDone"

definition procs_of :: "region_server \<Rightarrow> hook_proc list" where
  "procs_of r = map (\<lambda>x. case x of Some p \<Rightarrow> p | None \<Rightarrow> idle_proc) (rg_procs r)"

definition region_inv :: "region_server \<Rightarrow> bool" where
  "region_inv r \<longleftrightarrow> length (rg_procs r) = length (sv_conns (rg_sv r)) \<and> fine_inv (sv_hooks (rg_sv r)) (procs_of r) \<and>
     state_inv (sv_state (rg_sv r)) \<and> within_limits False 25 1000 (sv_state (rg_sv r)) \<and>
     mem_reach 25 (abs_members (sv_state (rg_sv r)))"

lemma idle_pending: "pending (hp_pc idle_proc) = None" "pc_addr (hp_pc idle_proc) = None"
  by (simp_all add: idle_proc_def pending_def pc_addr_def)

lemma fine_inv_idle:
  assumes inv: "fine_inv su ps" and k: "k < length ps" "pending (hp_pc (ps ! k)) = None"
    and p: "pending (hp_pc p) = None" "pc_addr (hp_pc p) = None"
  shows "fine_inv su (ps[k := p])"
proof -
  have "pending_task p = []" "pending_task (ps ! k) = []"
    using k(2) p(1) by (simp_all add: pending_task_None)
  then have "pending_tasks (ps[k := p]) = pending_tasks ps"
    using k(1) by (simp add: pending_tasks_def map_update) (metis list_update_id nth_map)
  moreover have "a < su_next_map su" if "q \<in> set (ps[k := p])" "pc_addr (hp_pc q) = Some a" for q a
  proof (cases "q = p")
    case False
    then have "q \<in> set ps"
      using that(1) set_update_subset_insert [of ps k p] by blast
    then show ?thesis
      using fine_addr [OF inv _ that(2)] by simp
  qed (use that p in simp)
  ultimately show ?thesis
    using fine_sfu [OF inv] by (simp add: fine_inv_def)
qed

lemma fine_inv_sends:
  assumes "fine_inv su ps" "su' = su \<or> (\<exists>cs. su' = send_cmds cs su)"
  shows "fine_inv su' ps"
  using assms fine_sfu [OF assms(1)] by (auto intro!: fine_inv_su [OF assms(1)] simp: with_tasks_regions)

lemma signaling_kept:
  assumes "state_inv st \<and> within_limits False 25 1000 st \<and> mem_reach 25 (abs_members st)"
    and "st' = st \<or> (\<exists>rid. st' = update_room rid (\<lambda>r. snd (prune_stale dead r)) st)"
  shows "state_inv st' \<and> within_limits False 25 1000 st' \<and> mem_reach 25 (abs_members st')"
  using assms(2)
proof
  assume "\<exists>rid. st' = update_room rid (\<lambda>r. snd (prune_stale dead r)) st"
  then show ?thesis
    using assms(1) state_inv_prune limits_prune mem_more [OF _ prune_refines] by blast
qed (use assms(1) in simp)

lemma plain_step_signaling:
  assumes "state_inv st \<and> within_limits False 25 1000 st \<and> mem_reach 25 (abs_members st)"
    and "conn_step ser show (sfu_hooks env) dead cn (su, st) = (out, cn', su', st')"
  shows "state_inv st' \<and> within_limits False 25 1000 st' \<and> mem_reach 25 (abs_members st')"
  using assms(1) sfu.conn_step_keeps [of st env, unfolded sfu_limits, OF _ _ assms(2)]
    mem_more [OF _ sfu_members.conn_step_refines [OF _ assms(2)]] by blast

lemma put_region_simps [simp]:
  "sv_hooks (rg_sv (put_region k cn p su st r)) = su" "sv_state (rg_sv (put_region k cn p su st r)) = st"
  "sv_conns (rg_sv (put_region k cn p su st r)) = (sv_conns (rg_sv r))[k := cn]" "rg_procs (put_region k cn p su st r) = (rg_procs r)[k := p]"
  by (simp_all add: put_region_def put_conn_def)

lemma procs_put: "procs_of (put_region k cn p su st r) = (procs_of r)[k := (case p of Some q \<Rightarrow> q | None \<Rightarrow> idle_proc)]"
  by (simp add: procs_of_def map_update)

lemma procs_nth: "k < length (rg_procs r) \<Longrightarrow> procs_of r ! k = (case rg_procs r ! k of Some p \<Rightarrow> p | None \<Rightarrow> idle_proc)"
  by (simp add: procs_of_def)

lemma region_inv_advance:
  assumes inv: "region_inv r" and k: "k < length (sv_conns (rg_sv r))"
  shows "region_inv (region_advance ser show env k dead r)"
proof -
  let ?su = "sv_hooks (rg_sv r)" and ?st = "sv_state (rg_sv r)" and ?cn = "sv_conns (rg_sv r) ! k"
  have fine: "fine_inv ?su (procs_of r)" and len: "length (rg_procs r) = length (sv_conns (rg_sv r))"
    and sig: "state_inv ?st \<and> within_limits False 25 1000 ?st \<and> mem_reach 25 (abs_members ?st)"
    using inv by (simp_all add: region_inv_def)
  have kp: "k < length (procs_of r)" "k < length (rg_procs r)"
    using k len by (simp_all add: procs_of_def)
  show ?thesis
  proof (cases "rg_procs r ! k")
    case (Some p)
    have pk: "procs_of r ! k = p"
      using procs_nth [OF kp(2)] Some by simp
    show ?thesis
    proof (cases "hp_pc p = HookDone")
      case True
      have "pending (hp_pc (procs_of r ! k)) = None"
        by (simp add: pk True pending_def)
      then have "fine_inv ?su ((procs_of r)[k := idle_proc])"
        using fine_inv_idle [OF fine kp(1)] idle_pending by blast
      then show ?thesis
        using Some True sig len by (simp add: region_advance_def region_inv_def procs_put Let_def)
    next
      case False
      obtain out p' su' st' where step: "hook_step env dead p (?su, ?st) = (out, p', su', st')"
        by (metis surj_pair)
      have "fine_inv su' ((procs_of r)[k := p'])"
        using fine_inv_region [OF fine kp(1)] step pk by simp
      moreover note signaling_kept [OF sig hook_step_state [OF step]]
      ultimately show ?thesis
        using Some False len by (simp add: region_advance_def region_inv_def procs_put step Let_def)
    qed
  next
    case None
    have idle: "procs_of r ! k = idle_proc"
      using procs_nth [OF kp(2)] None by simp
    show ?thesis
    proof (cases "hook_start ?cn")
      case (Some start)
      obtain pid pc where start: "start = (pid, pc)"
        by fastforce
      have "pending pc = None" "pc_addr pc = None"
        using start_pc [of ?cn pid pc] Some start by (auto simp: starts_hook_def pending_def pc_addr_def split: hook_pc.splits)
      then have "fine_inv ?su ((procs_of r)[k := hook_new pid (cn_tx ?cn) pc])"
        using fine_inv_idle [OF fine kp(1)] idle idle_pending by simp
      then show ?thesis
        using None Some start sig len by (simp add: region_advance_def region_inv_def procs_put Let_def)
    next
      case none: None
      obtain out cn' su' st' where step: "conn_step ser show (sfu_hooks env) dead ?cn (?su, ?st) = (out, cn', su', st')"
        by (metis surj_pair)
      have "fine_inv su' (procs_of r)"
        using fine_inv_sends [OF fine plain_step_sends [OF none step]] .
      then have "fine_inv su' ((procs_of r)[k := idle_proc])"
        using idle by (metis list_update_id)
      moreover note plain_step_signaling [OF sig step]
      ultimately show ?thesis
        using None none len by (simp add: region_advance_def region_inv_def procs_put step Let_def)
    qed
  qed
qed

lemma put_region_same:
  "k < length (rg_procs r) \<Longrightarrow> put_region k (sv_conns (rg_sv r) ! k) (rg_procs r ! k) (sv_hooks (rg_sv r)) (sv_state (rg_sv r)) r = r"
  by (simp add: put_region_def put_conn_def)

lemma put_region_twice: "put_region k cn p su st (put_region k cn' p' su' st' r) = put_region k cn p su st r"
  by (simp add: put_region_def put_conn_def)

lemma region_inv_no_socket:
  assumes inv: "region_inv r" and k: "k < length (sv_conns (rg_sv r))"
  shows "region_inv (no_socket k r)"
proof (cases "\<exists>p sdp a. rg_procs r ! k = Some p \<and> hp_pc p = OfferAnswer sdp a")
  case True
  then obtain p sdp a where p: "rg_procs r ! k = Some p" "hp_pc p = OfferAnswer sdp a"
    by blast
  have kp: "k < length (procs_of r)" "k < length (rg_procs r)"
    using k inv by (simp_all add: procs_of_def region_inv_def)
  have "pending (hp_pc (procs_of r ! k)) = None"
    using p procs_nth [OF kp(2)] by (simp add: pending_def)
  then have "fine_inv (sv_hooks (rg_sv r)) ((procs_of r)[k := idle_proc])"
    using fine_inv_idle [OF _ kp(1)] inv idle_pending by (simp add: region_inv_def)
  then show ?thesis
    using inv p by (simp add: no_socket_def region_inv_def procs_put)
next
  case False
  then show ?thesis
    using inv by (auto simp: no_socket_def split: option.split hook_pc.split)
qed

lemma region_inv_same_shared:
  assumes "region_inv r" "sv_hooks sv = sv_hooks (rg_sv r)" "sv_state sv = sv_state (rg_sv r)"
    and "length ps = length (sv_conns sv)" "procs_of (r\<lparr>rg_procs := ps\<rparr>) = procs_of r \<or>
      procs_of (r\<lparr>rg_procs := ps\<rparr>) = procs_of r @ [idle_proc]"
  shows "region_inv \<lparr>rg_sv = sv, rg_procs = ps\<rparr>"
proof -
  have "fine_inv (sv_hooks (rg_sv r)) (procs_of (r\<lparr>rg_procs := ps\<rparr>))"
    using assms(1,5) idle_pending by (auto simp: region_inv_def fine_inv_def pending_task_None)
  then show ?thesis
    using assms(1-4) by (simp add: region_inv_def procs_of_def)
qed

lemma region_inv_step:
  assumes inv: "region_inv r"
  shows "region_inv (region_step ser show de env e r)"
proof (cases e)
  case (NoSocket k)
  then show ?thesis
    using region_inv_no_socket [OF inv] inv by simp
next
  case (Event ev)
  show ?thesis
  proof (cases ev)
    case (Accept tx)
    then show ?thesis
      using Event inv region_inv_same_shared [OF inv, of "snd (sv_step ser show de (sfu_hooks env) (Accept tx) (rg_sv r))" "rg_procs r @ [None]"]
      by (simp add: region_inv_def procs_of_def)
  next
    case (Advance k dead)
    then show ?thesis
      using Event region_inv_advance [OF inv] inv by simp
  next
    case (Receive k received)
    let ?sv = "snd (sv_step ser show de (sfu_hooks env) (Receive k received) (rg_sv r))"
    have "sv_hooks ?sv = sv_hooks (rg_sv r)" "sv_state ?sv = sv_state (rg_sv r)" "length (sv_conns ?sv) = length (sv_conns (rg_sv r))"
      by (auto simp: put_conn_def dest: recv_same_hook split: prod.split)
    moreover have "region_step ser show de env e r = \<lparr>rg_sv = ?sv, rg_procs = rg_procs r\<rparr>"
      using Event Receive by simp
    ultimately show ?thesis
      using inv region_inv_same_shared [OF inv, of ?sv "rg_procs r"] by (simp add: region_inv_def)
  next
    case (DeadlineFired k)
    let ?sv = "snd (sv_step ser show de (sfu_hooks env) (DeadlineFired k) (rg_sv r))"
    have "sv_hooks ?sv = sv_hooks (rg_sv r)" "sv_state ?sv = sv_state (rg_sv r)" "length (sv_conns ?sv) = length (sv_conns (rg_sv r))"
      by (auto simp: put_conn_def split: prod.split)
    moreover have "region_step ser show de env e r = \<lparr>rg_sv = ?sv, rg_procs = rg_procs r\<rparr>"
      using Event DeadlineFired by simp
    ultimately show ?thesis
      using inv region_inv_same_shared [OF inv, of ?sv "rg_procs r"] by (simp add: region_inv_def)
  qed
qed

lemma region_inv_media:
  assumes inv: "region_inv r" and round: "task_round menv rd i (sv_hooks (rg_sv r), cs) = (ws, su', cs')"
  shows "region_inv (region_hooks su' r)"
proof -
  have fine: "fine_inv (sv_hooks (rg_sv r)) (procs_of r)"
    using inv by (simp add: region_inv_def)
  have "fine_inv su' (procs_of r)"
    using fine_inv_round [OF fine round] .
  then show ?thesis
    using inv by (simp add: region_inv_def region_hooks_def procs_of_def)
qed

lemma region_reach_inv: "region_reach ser show de r cs \<Longrightarrow> region_inv r"
proof (induction rule: region_reach.induct)
  case region_start
  have "mem_reach 25 (abs_members (state_new :: signaling_state))"
    using system_members [OF sys_start] by (simp add: server_new_def)
  then show ?case
    using fine_reach_inv [OF fine_start] state_inv_new
    by (simp add: region_inv_def region_new_def server_new_def procs_of_def) (simp add: within_limits_def state_new_def)
next
  case (region_signal r cs env e)
  then show ?case
    by (simp add: region_inv_step)
next
  case (region_media r cs menv rd i ws su' cs')
  then show ?case
    using region_inv_media by blast
qed

section \<open>The theorems\<close>

text \<open>
  C6: However the whole server runs, lock region by lock region, with connections that end in a panic: no room of the
  signaling state has more than 25 members or 1000 stored messages and the reverse index covers every membership; who
  is a member of what is a reachable state of the abstract membership system; no two rooms of the media server share
  their peers; and every peer is served by a running task of its participant and generation, or by a first offer of
  that participant that is about to spawn it.
\<close>

theorem region_system_invariant:
  assumes "region_reach ser show de r cs"
  shows "state_inv (sv_state (rg_sv r)) \<and> mem_reach 25 (abs_members (sv_state (rg_sv r))) \<and>
    (\<forall>rid room. state_room (sv_state (rg_sv r)) rid = Some room \<longrightarrow> member_count room \<le> 25 \<and> length (rm_chat_history room) \<le> 1000) \<and>
    (\<forall>rid rid' a. hm_get (su_rooms (sv_hooks (rg_sv r))) rid = Some a \<longrightarrow> hm_get (su_rooms (sv_hooks (rg_sv r))) rid' = Some a \<longrightarrow> rid = rid') \<and>
    (\<forall>a pid peer. hm_get (peers_at a (sv_hooks (rg_sv r))) pid = Some peer \<longrightarrow>
      (\<exists>t. (a, t) \<in> set (su_tasks (sv_hooks (rg_sv r))) \<and> mt_pid t = pid \<and> mt_gen t = sp_gen peer) \<or>
      (\<exists>p peer'. Some p \<in> set (rg_procs r) \<and> pending (hp_pc p) = Some (a, peer') \<and> hp_pid p = pid \<and> sp_gen peer' = sp_gen peer))"
proof -
  have inv: "region_inv r"
    by (rule region_reach_inv [OF assms])
  then have served: "fine_inv (sv_hooks (rg_sv r)) (procs_of r)"
    by (simp add: region_inv_def)
  have proc: "Some p \<in> set (rg_procs r)" if mem: "p \<in> set (procs_of r)" and pend: "pending (hp_pc p) = Some x" for p x
  proof -
    obtain q where q: "q \<in> set (rg_procs r)" "p = (case q of Some p \<Rightarrow> p | None \<Rightarrow> idle_proc)"
      using mem unfolding procs_of_def set_map by blast
    have "q = Some p"
    proof (cases q)
      case None
      then show ?thesis
        using q(2) pend idle_pending(1) by simp
    qed (use q(2) in simp)
    then show ?thesis
      using q(1) by simp
  qed
  have "state_inv (sv_state (rg_sv r))" "mem_reach 25 (abs_members (sv_state (rg_sv r)))" "within_limits False 25 1000 (sv_state (rg_sv r))"
    using inv by (simp_all add: region_inv_def)
  moreover note fine_inv_served [OF served, THEN conjunct1]
  moreover have "(\<exists>t. (a, t) \<in> set (su_tasks (sv_hooks (rg_sv r))) \<and> mt_pid t = pid \<and> mt_gen t = sp_gen peer) \<or>
      (\<exists>p peer'. Some p \<in> set (rg_procs r) \<and> pending (hp_pc p) = Some (a, peer') \<and> hp_pid p = pid \<and> sp_gen peer' = sp_gen peer)"
    if "hm_get (peers_at a (sv_hooks (rg_sv r))) pid = Some peer" for a pid peer
    using fine_inv_served [OF served, THEN conjunct2, THEN conjunct1, rule_format, OF that] proc by blast
  ultimately show ?thesis
    by (auto simp: within_limits_iff state_room_def room_limits_def)
qed

section \<open>Atomic runs are runs\<close>

text \<open>
  When nobody interrupts a hook, its regions add up to the step of \<open>conn_step\<close> that calls it, so every run of the
  server with atomic hooks (\<open>system_reach\<close>) is one of these runs, with no hook in progress at its end.
\<close>

lemma hook_call_atomic:
  assumes start: "hook_start cn = Some (pid, pc)" and step: "conn_step ser show (sfu_hooks env) dead cn (su, st) = (out, cn', su', st')"
  shows "cn' = hook_end env cn \<and>
    (\<exists>n. hook_run n env dead (hook_new pid (cn_tx cn) pc) (su, st) = (fst (hook_run n env dead (hook_new pid (cn_tx cn) pc) (su, st)),
      hook_new pid (cn_tx cn) HookDone, su', st'))"
proof -
  have pid: "cn_pid cn = Some pid"
    using start by (simp add: hook_start_def split: option.splits conn_pc.splits)
  show ?thesis
  proof (cases "cn_pc cn")
    case (Hooking sdp raw first)
    then have pc: "message_start sdp = Some pc"
      using start pid by (auto simp: hook_start_def)
    show ?thesis
    proof (cases sdp)
      case (Offer p q rid offer_sdp)
      then show ?thesis
        using step Hooking pid pc
        by (auto simp: conn_step_def sfu_hooks_def sfu_on_message_def message_start_def hook_end_def Let_def offer_alone
            split: prod.splits intro: exI [of _ "8"])
    next
      case (Join p rid name tok)
      then show ?thesis
        using step Hooking pid pc
        by (auto simp: conn_step_def sfu_hooks_def sfu_on_message_def message_start_def hook_end_def Let_def join_alone
            split: prod.splits intro: exI [of _ "6"])
    qed (use pc in \<open>simp_all add: message_start_def\<close>)
  next
    case (NotifyingHooks affected)
    obtain n where "hook_run n env dead (hook_new pid (cn_tx cn) (LeaveStart affected)) (su, st) =
        (case sfu_on_disconnect env pid affected (su, st) of (out, su', st') \<Rightarrow> (out, hook_new pid (cn_tx cn) HookDone, su', st'))"
      using leave_alone by blast
    then show ?thesis
      using step NotifyingHooks pid start
      by (auto simp: conn_step_def sfu_hooks_def hook_start_def hook_end_def Let_def split: prod.splits intro: exI [of _ n])
  qed (use start pid in \<open>simp_all add: hook_start_def\<close>)
qed

lemma step_done: "hp_pc p = HookDone \<Longrightarrow> hook_step env dead p hs = ([], p, hs)"
  by (cases hs) (simp add: hook_step_def pc_kinds offer_step_def)

lemma region_reach_run:
  "region_reach ser show de r cs \<Longrightarrow> k < length (sv_conns (rg_sv r)) \<Longrightarrow> k < length (rg_procs r) \<Longrightarrow> rg_procs r ! k = Some p \<Longrightarrow>
    hook_run n env dead p (sv_hooks (rg_sv r), sv_state (rg_sv r)) = (out, p', su', st') \<Longrightarrow>
    region_reach ser show de (put_region k (sv_conns (rg_sv r) ! k) (Some p') su' st' r) cs"
proof (induction n arbitrary: r p out)
  case 0
  then have "put_region k (sv_conns (rg_sv r) ! k) (Some p') su' st' r = r"
    using put_region_same [OF 0(3)] by simp
  then show ?case
    using 0(1) by simp
next
  case (Suc n)
  obtain o1 p1 su1 st1 where step: "hook_step env dead p (sv_hooks (rg_sv r), sv_state (rg_sv r)) = (o1, p1, su1, st1)"
    by (metis surj_pair)
  then obtain o2 where rest: "hook_run n env dead p1 (su1, st1) = (o2, p', su', st')"
    using Suc.prems(5) by (auto simp: hook_run.simps(2) split: prod.splits)
  show ?case
  proof (cases "hp_pc p = HookDone")
    case True
    then have "p1 = p" "su1 = sv_hooks (rg_sv r)" "st1 = sv_state (rg_sv r)"
      using step step_done [OF True] by simp_all
    then show ?thesis
      using Suc.IH [OF Suc.prems(1-4)] rest by simp
  next
    case False
    let ?r1 = "put_region k (sv_conns (rg_sv r) ! k) (Some p1) su1 st1 r"
    have "region_step ser show de env (Event (Advance k dead)) r = ?r1"
      using Suc.prems(2,4) False step by (simp add: region_advance_def Let_def)
    then have "region_reach ser show de ?r1 cs"
      using region_signal [OF Suc.prems(1), of env "Event (Advance k dead)"] by simp
    from Suc.IH [OF this _ _ _, of p1 o2] show ?thesis
      using Suc.prems(2,3) rest by (simp add: put_region_twice)
  qed
qed

lemma region_reach_call:
  assumes reach: "region_reach ser show de r cs" and k: "k < length (sv_conns (rg_sv r))" "k < length (rg_procs r)" "rg_procs r ! k = None"
    and start: "hook_start (sv_conns (rg_sv r) ! k) = Some (pid, pc)"
    and step: "conn_step ser show (sfu_hooks env) dead (sv_conns (rg_sv r) ! k) (sv_hooks (rg_sv r), sv_state (rg_sv r)) = (out, cn', su', st')"
  shows "region_reach ser show de (put_region k cn' None su' st' r) cs"
proof -
  let ?cn = "sv_conns (rg_sv r) ! k" and ?su = "sv_hooks (rg_sv r)" and ?st = "sv_state (rg_sv r)"
  let ?p = "hook_new pid (cn_tx ?cn) pc" and ?done = "hook_new pid (cn_tx ?cn) HookDone"
  let ?r1 = "put_region k ?cn (Some ?p) ?su ?st r" and ?r2 = "put_region k ?cn (Some ?done) su' st' r"
  obtain n out' where run: "hook_run n env dead ?p (?su, ?st) = (out', ?done, su', st')" and cn': "cn' = hook_end env ?cn"
    using hook_call_atomic [OF start step] by blast
  have "region_step ser show de env (Event (Advance k dead)) r = ?r1"
    using k start by (simp add: region_advance_def Let_def)
  then have r1: "region_reach ser show de ?r1 cs"
    using region_signal [OF reach, of env "Event (Advance k dead)"] by simp
  have r2: "region_reach ser show de ?r2 cs"
    using region_reach_run [OF r1, of k ?p n env dead out' ?done su' st'] run k by (simp add: put_region_twice)
  have "region_step ser show de env (Event (Advance k dead)) ?r2 = put_region k (hook_end env ?cn) None su' st' ?r2"
    using k by (simp add: region_advance_def Let_def)
  then show ?thesis
    using region_signal [OF r2, of env "Event (Advance k dead)"] by (simp add: cn' put_region_twice)
qed

lemma system_reach_regions:
  "system_reach ser show de sv cs \<Longrightarrow> region_reach ser show de \<lparr>rg_sv = sv, rg_procs = replicate (length (sv_conns sv)) None\<rparr> cs"
proof (induction rule: system_reach.induct)
  case sys_start
  have "region_new = \<lparr>rg_sv = server_new sfu_new, rg_procs = replicate (length (sv_conns (server_new sfu_new))) None\<rparr>"
    by (simp add: region_new_def server_new_def)
  then show ?case
    using region_start by simp
next
  case (sys_media sv cs menv rd i ws su' cs')
  then show ?case
    using region_media [OF sys_media.IH, of menv rd i ws su' cs'] by (simp add: region_hooks_def)
next
  case (sys_signal sv cs env e)
  let ?r = "\<lparr>rg_sv = sv, rg_procs = replicate (length (sv_conns sv)) None\<rparr>"
  let ?sv = "snd (sv_step ser show de (sfu_hooks env) e sv)"
  note step = region_signal [OF sys_signal.IH, of env "Event e"]
  show ?case
  proof (cases e)
    case (Accept tx)
    then show ?thesis
      using step by (simp add: replicate_append_same)
  next
    case (Receive k received)
    have "length (sv_conns ?sv) = length (sv_conns sv)"
      by (auto simp: Receive put_conn_def split: prod.split)
    then show ?thesis
      using step Receive by simp
  next
    case (DeadlineFired k)
    have "length (sv_conns ?sv) = length (sv_conns sv)"
      by (auto simp: DeadlineFired put_conn_def split: prod.split)
    then show ?thesis
      using step DeadlineFired by simp
  next
    case (Advance k dead)
    show ?thesis
    proof (cases "k < length (sv_conns sv)")
      case False
      then show ?thesis
        using sys_signal.IH Advance by simp
    next
      case True
      obtain out cn' su' st' where cstep: "conn_step ser show (sfu_hooks env) dead (sv_conns sv ! k) (sv_hooks sv, sv_state sv) = (out, cn', su', st')"
        by (metis surj_pair)
      have "(replicate (length (sv_conns sv)) (None :: hook_proc option))[k := None] = replicate (length (sv_conns sv)) None"
        using True by (metis list_update_id nth_replicate)
      then have goal: "\<lparr>rg_sv = ?sv, rg_procs = replicate (length (sv_conns ?sv)) None\<rparr> = put_region k cn' None su' st' ?r"
        using True cstep Advance by (simp add: put_region_def put_conn_def)
      show ?thesis
      proof (cases "hook_start (sv_conns sv ! k)")
        case None
        then have "region_step ser show de env (Event e) ?r = put_region k cn' None su' st' ?r"
          using True Advance cstep by (simp add: region_advance_def Let_def)
        then show ?thesis
          using step unfolding goal by simp
      next
        case (Some start)
        then obtain pid pc where "hook_start (sv_conns sv ! k) = Some (pid, pc)"
          by (cases start) simp
        then show ?thesis
          using region_reach_call [OF sys_signal.IH, of k pid pc env dead out cn' su' st'] True cstep unfolding goal by simp
      qed
    qed
  qed
qed



section \<open>Two connections at the same time\<close>

fun region_run :: "(string \<Rightarrow> sdp_message option) \<Rightarrow> region_event list \<Rightarrow> region_server \<Rightarrow> region_server" where
  "region_run de [] r = r"
| "region_run de (e # es) r = region_run de es (region_step (\<lambda>_. None) (\<lambda>_. []) de demo_sfu_env e r)"

lemma region_run_reach:
  "region_reach (\<lambda>_. None) (\<lambda>_. []) de r cs \<Longrightarrow> region_reach (\<lambda>_. None) (\<lambda>_. []) de (region_run de es r) cs"
  by (induction es arbitrary: r) (simp_all add: region_signal)

definition joined_pair :: "sfu_server server" where
  \<comment> \<open>two connections have joined the same room\<close>
  "joined_pair = system_run (\<lambda>_. None) (\<lambda>_. []) pair_de demo_sfu_env
     ([Accept 0, Receive 0 (Some ''j'')] @ replicate 5 (Advance 0 (\<lambda>_. False)) @
      [Accept 1, Receive 1 (Some ''k'')] @ replicate 5 (Advance 1 (\<lambda>_. False))) (server_new sfu_new)"

definition offer_turns :: "region_event list \<Rightarrow> region_server" where
  "offer_turns es = region_run pair_de ([Event (Receive 0 (Some ''o'')), Event (Receive 1 (Some ''p''))] @ es)
     \<lparr>rg_sv = joined_pair, rg_procs = replicate (length (sv_conns joined_pair)) None\<rparr>"

lemma offer_turns_reach: "region_reach (\<lambda>_. None) (\<lambda>_. []) pair_de (offer_turns es) (\<lambda>_. 0)"
  unfolding offer_turns_def joined_pair_def
  by (intro region_run_reach system_reach_regions system_run_reach sys_start)

definition both_offer :: region_server where
  \<comment> \<open>both send their offers and run in turns, and are stopped before they spawn their tasks\<close>
  "both_offer = offer_turns (concat (replicate 6 [Event (Advance 0 (\<lambda>_. False)), Event (Advance 1 (\<lambda>_. False))]))"

definition peers_summary :: "sfu_server \<Rightarrow> (participant_id \<times> nat) list \<times> nat" where
  "peers_summary su = (map (\<lambda>e. (fst e, sp_gen (snd e))) (peers_at 0 su), length (su_tasks su))"

lemma both_offer_summary:
  "peers_summary (sv_hooks (rg_sv both_offer)) =
    ([(ParticipantId 1, 1), (ParticipantId 2, 2)], 0)"
  by code_simp

theorem region_system_invariant_witness:
  "\<exists>p peer. Some p \<in> set (rg_procs both_offer) \<and> pending (hp_pc p) = Some (0, peer) \<and> hp_pid p = ParticipantId 2 \<and> sp_gen peer = 2"
proof -
  obtain peer where peer: "hm_get (peers_at 0 (sv_hooks (rg_sv both_offer))) (ParticipantId 2) = Some peer" "sp_gen peer = 2"
    using both_offer_summary by (auto simp: peers_summary_def map_eq_Cons_conv)
  show ?thesis
    using region_system_invariant [OF offer_turns_reach, of "concat (replicate 6 [Event (Advance 0 (\<lambda>_. False)), Event (Advance 1 (\<lambda>_. False))])", folded both_offer_def, THEN conjunct2, THEN conjunct2, THEN conjunct2, THEN conjunct2, rule_format, OF peer(1)]
      both_offer_summary peer(2) by (simp add: peers_summary_def)
qed

text \<open>
  The other outcome: a first offer that finds no socket takes its connection down with it. Its participant stays a
  member of the room, and nothing disconnects it.
\<close>

definition no_socket_left :: region_server where
  "no_socket_left = offer_turns (replicate 4 (Event (Advance 0 (\<lambda>_. False))) @ [NoSocket 0] @ replicate 3 (Event (Advance 0 (\<lambda>_. True))))"

definition conns_summary :: "sfu_server server \<Rightarrow> conn_pc list \<times> participant_id list option" where
  "conns_summary sv = (map cn_pc (sv_conns sv), map_option (\<lambda>room. map fst (rm_members room)) (state_room (sv_state sv) ''a''))"

lemma no_socket_left_member:
  "conns_summary (rg_sv no_socket_left) =
    ([Crashed, Hooking (Offer (ParticipantId 2) None ''a'' ''v=0'') ''p'' False], Some [ParticipantId 1, ParticipantId 2])"
  by code_simp

end
