(* ===== verification/Codec_Audio_Video.thy ===== *)
theory Codec_Audio_Video
  imports Core_Types Bytes
begin

text \<open>
  The crate \<open>seameet-codec\<close>: the passthrough audio codec (\<open>passthrough.rs\<close>), and the Opus and VP8 codecs of
  the default build, which are stubs (\<open>audio/mod.rs\<close>, \<open>video/mod.rs\<close>). The builds with the features
  \<open>opus-ffi\<close> and \<open>vp8-ffi\<close> are in \<open>Codec_Ffi\<close>.

  Arithmetic on \<open>u32\<close> wraps, as in a release build; a remainder by zero panics in every build.
\<close>

section \<open>Passthrough\<close>

definition u32_from_le_bytes :: "u8 \<Rightarrow> u8 \<Rightarrow> u8 \<Rightarrow> u8 \<Rightarrow> u32" where
  "u32_from_le_bytes a b c d = u32_from_be_bytes d c b a"

definition u16_from_le_bytes :: "u8 \<Rightarrow> u8 \<Rightarrow> u16" where
  "u16_from_le_bytes a b = u16_from_be_bytes b a"

definition chunks_exact :: "nat \<Rightarrow> 'a list \<Rightarrow> 'a list list" where
  "chunks_exact n xs = take (length xs div n) (chunks n xs)"

definition passthrough_encode :: "pcm_frame \<Rightarrow> encoded_audio sea_result" where
  "passthrough_encode input =
     Inr (EncodedAudio (u32_to_le_bytes (pf_sample_rate input) @ u16_to_le_bytes (pf_channels input) @
       concat (map u32_to_le_bytes (pf_samples input))))"

definition passthrough_decode :: "encoded_audio \<Rightarrow> pcm_frame sea_result" where
  "passthrough_decode input =
    (let data = ea_bytes input in
     if length data < 6 then Inl (Codec ''AudioPassthrough: payload too short'')
     else
       let sample_rate = u32_from_le_bytes (data ! 0) (data ! 1) (data ! 2) (data ! 3);
           channels = u16_from_le_bytes (data ! 4) (data ! 5);
           sample_bytes = drop 6 data in
       if length sample_bytes mod 4 \<noteq> 0 then Inl (Codec ''AudioPassthrough: sample data not aligned to f32'')
       else Inr \<lparr>pf_samples = map (\<lambda>c. u32_from_le_bytes (c ! 0) (c ! 1) (c ! 2) (c ! 3)) (chunks_exact 4 sample_bytes),
                 pf_sample_rate = sample_rate, pf_channels = channels\<rparr>)"

section \<open>Opus\<close>

record opus_encoder_config =
  oc_sample_rate :: u32
  oc_channels :: u16
  oc_bitrate :: u32
  oc_frame_ms :: u32

definition VALID_SAMPLE_RATES :: "u32 list" where
  "VALID_SAMPLE_RATES = [8000, 12000, 16000, 24000, 48000]"

definition opus_default_config :: opus_encoder_config where
  "opus_default_config = \<lparr>oc_sample_rate = 48000, oc_channels = 1, oc_bitrate = 64000, oc_frame_ms = 20\<rparr>"

definition validate_config :: "opus_encoder_config \<Rightarrow> unit sea_result" where
  "validate_config config =
    (if oc_sample_rate config \<notin> set VALID_SAMPLE_RATES
     then Inl (Codec (''unsupported sample rate: '' @ show_nat (unat (oc_sample_rate config)) @
            ''. Valid rates: [8000, 12000, 16000, 24000, 48000]''))
     else if oc_channels config = 0 \<or> oc_channels config > 2
     then Inl (Codec (''unsupported channel count: '' @ show_nat (unat (oc_channels config)) @ ''. Must be 1 or 2''))
     else Inr ())"

definition opus_encoder_new :: "opus_encoder_config \<Rightarrow> opus_encoder_config sea_result" where
  \<comment> \<open>encoder and decoder hold nothing but their configuration\<close>
  "opus_encoder_new config = (case validate_config config of Inl e \<Rightarrow> Inl e | Inr _ \<Rightarrow> Inr config)"

definition opus_encode :: "opus_encoder_config \<Rightarrow> pcm_frame \<Rightarrow> encoded_audio sea_result" where
  "opus_encode config input = Inr (EncodedAudio [0, 0, 0])"

definition opus_decoder_new :: "opus_encoder_config \<Rightarrow> opus_encoder_config sea_result" where
  "opus_decoder_new config = (case validate_config config of Inl e \<Rightarrow> Inl e | Inr _ \<Rightarrow> Inr config)"

definition opus_decode :: "opus_encoder_config \<Rightarrow> encoded_audio \<Rightarrow> pcm_frame sea_result" where
  "opus_decode config input =
    (let frame_samples = unat (oc_sample_rate config div 1000 * oc_frame_ms config) * unat (oc_channels config) in
     Inr \<lparr>pf_samples = replicate frame_samples 0, pf_sample_rate = oc_sample_rate config, pf_channels = oc_channels config\<rparr>)"

section \<open>VP8\<close>

record vp8_encoder_config =
  vc_width :: u32
  vc_height :: u32
  vc_bitrate_kbps :: u32
  vc_keyframe_interval :: u32

definition vp8_default_config :: vp8_encoder_config where
  "vp8_default_config = \<lparr>vc_width = 640, vc_height = 480, vc_bitrate_kbps = 1000, vc_keyframe_interval = 60\<rparr>"

record vp8_encoder =
  ve_config :: vp8_encoder_config
  ve_frame_count :: u32

definition vp8_encoder_new :: "vp8_encoder_config \<Rightarrow> vp8_encoder sea_result" where
  "vp8_encoder_new config =
    (if vc_width config = 0 \<or> vc_height config = 0 then Inl (Codec ''VP8 width and height must be > 0'')
     else Inr \<lparr>ve_config = config, ve_frame_count = 0\<rparr>)"

definition vp8_encode :: "video_frame \<Rightarrow> vp8_encoder \<Rightarrow> (encoded_video sea_result \<times> vp8_encoder) outcome" where
  "vp8_encode input e =
    (if vc_keyframe_interval (ve_config e) = 0 then Panic
     else
       let is_keyframe = (ve_frame_count e mod vc_keyframe_interval (ve_config e) = 0) in
       Ret (Inr \<lparr>ev_data = [0, 0, 0, 0], ev_is_keyframe = is_keyframe, ev_pts = vf_pts input\<rparr>,
            e\<lparr>ve_frame_count := ve_frame_count e + 1\<rparr>))"

definition vp8_decode :: "vp8_encoder_config \<Rightarrow> encoded_video \<Rightarrow> video_frame sea_result" where
  "vp8_decode config input =
    (let size = unat (vc_width config * vc_height config * 3) in
     Inr \<lparr>vf_data = replicate size 0, vf_width = vc_width config, vf_height = vc_height config, vf_pts = ev_pts input\<rparr>)"

section \<open>Lossless codecs\<close>

text \<open>What the pipelines need of the traits \<open>Encoder\<close> and \<open>Decoder\<close> to reproduce audio: decoding undoes encoding.\<close>

locale lossless_audio =
  fixes encode :: "pcm_frame \<Rightarrow> encoded_audio sea_result" and decode :: "encoded_audio \<Rightarrow> pcm_frame sea_result"
  assumes encode_ok: "\<exists>b. encode f = Inr b" and decode_encode: "encode f = Inr b \<Longrightarrow> decode b = Inr f"
begin

lemma encode_inj: "encode f = encode g \<Longrightarrow> f = g"
  by (metis encode_ok decode_encode sum.inject(2))

end

lemma u32_le_bytes: "u32_to_le_bytes w = [ucast w, ucast (drop_bit 8 w), ucast (drop_bit 16 w), ucast (drop_bit 24 w)]"
  by (simp add: u32_to_le_bytes_def put_u32_def)

lemma u16_le_bytes: "u16_to_le_bytes w = [ucast w, ucast (drop_bit 8 w)]"
  by (simp add: u16_to_le_bytes_def put_u16_def)

lemma le_roundtrip [codec_simps]:
  "u32_from_le_bytes (ucast w) (ucast (drop_bit 8 w)) (ucast (drop_bit 16 w)) (ucast (drop_bit 24 w)) = w"
  "u16_from_le_bytes (ucast v) (ucast (drop_bit 8 v)) = v"
  by (simp_all add: u32_from_le_bytes_def u16_from_le_bytes_def)

lemma le_bytes_roundtrip [codec_simps]:
  "u32_to_le_bytes (u32_from_le_bytes a b c d) = [a, b, c, d]" "u16_to_le_bytes (u16_from_le_bytes a b) = [a, b]"
  by (simp_all add: u32_from_le_bytes_def u16_from_le_bytes_def u32_to_le_bytes_def u16_to_le_bytes_def)

lemma chunks_exact_4: "chunks_exact 4 (a # b # c # d # xs) = [a, b, c, d] # chunks_exact 4 xs"
proof -
  have "(4 + length xs) div 4 = Suc (length xs div 4)"
    by simp
  then show ?thesis
    by (simp add: chunks_exact_def chunks.simps [of 4 "a # b # c # d # xs"] del: div_add_self1 div_add_self2)
qed

lemma chunks_exact_Nil [simp]: "chunks_exact n [] = []"
  by (simp add: chunks_exact_def)

abbreviation le_sample :: "u8 list \<Rightarrow> u32" where
  "le_sample c \<equiv> u32_from_le_bytes (c ! 0) (c ! 1) (c ! 2) (c ! 3)"

lemma decode_samples: "map le_sample (chunks_exact 4 (concat (map u32_to_le_bytes ws))) = ws"
  by (induction ws) (simp_all add: u32_le_bytes chunks_exact_4 le_roundtrip)

lemma length_samples: "length (concat (map u32_to_le_bytes ws)) = 4 * length ws"
  by (induction ws) (simp_all add: u32_le_bytes)

lemma encode_samples: "length bs mod 4 = 0 \<Longrightarrow> concat (map u32_to_le_bytes (map le_sample (chunks_exact 4 bs))) = bs"
proof (induction "length bs" arbitrary: bs rule: less_induct)
  case less
  show ?case
  proof (cases "bs = []")
    case False
    then have "4 \<le> length bs"
      using less.prems by (cases "length bs < 4") auto
    then obtain a b c d rest where bs: "bs = a # b # c # d # rest"
      by (auto simp: Suc_le_length_iff numeral_eq_Suc)
    then have "length rest mod 4 = 0"
      using less.prems by (simp add: mod_add_self2 [of "length rest" 4, symmetric] del: mod_add_self2)
    then show ?thesis
      using less.hyps [of rest] by (simp add: bs chunks_exact_4 le_bytes_roundtrip)
  qed simp
qed

lemma passthrough_exact_aux: "passthrough_decode b = Inr f \<longleftrightarrow> passthrough_encode f = Inr b"
proof
  assume enc: "passthrough_encode f = Inr b"
  let ?r = "pf_sample_rate f" and ?c = "pf_channels f" and ?s = "concat (map u32_to_le_bytes (pf_samples f))"
  have "ea_bytes b = [ucast ?r, ucast (drop_bit 8 ?r), ucast (drop_bit 16 ?r), ucast (drop_bit 24 ?r), ucast ?c, ucast (drop_bit 8 ?c)] @ ?s"
    using enc by (auto simp: passthrough_encode_def u32_le_bytes u16_le_bytes)
  then show "passthrough_decode b = Inr f"
    by (simp add: passthrough_decode_def Let_def le_roundtrip length_samples decode_samples [simplified])
next
  assume dec: "passthrough_decode b = Inr f"
  then have len: "6 \<le> length (ea_bytes b)"
    by (auto simp: passthrough_decode_def Let_def split: if_splits)
  then obtain r0 r1 r2 r3 c0 c1 rest where bytes: "ea_bytes b = r0 # r1 # r2 # r3 # c0 # c1 # rest"
    by (auto simp: Suc_le_length_iff numeral_eq_Suc)
  have "length rest mod 4 = 0"
    and f: "f = \<lparr>pf_samples = map le_sample (chunks_exact 4 rest), pf_sample_rate = u32_from_le_bytes r0 r1 r2 r3,
      pf_channels = u16_from_le_bytes c0 c1\<rparr>"
    using dec by (auto simp: passthrough_decode_def Let_def bytes split: if_splits)
  then show "passthrough_encode f = Inr b"
    using encode_samples [of rest] bytes by (cases b) (simp add: passthrough_encode_def le_bytes_roundtrip)
qed

text \<open>
  The passthrough codec is exact: a payload decodes to a frame precisely when it is the encoding of that
  frame, so every frame survives the round trip bit by bit and nothing else is accepted.
\<close>

lemma passthrough_exact: "passthrough_decode b = Inr f \<longleftrightarrow> passthrough_encode f = Inr b"
  by (rule passthrough_exact_aux)

interpretation passthrough: lossless_audio passthrough_encode passthrough_decode
  by unfold_locales (simp add: passthrough_encode_def, simp only: passthrough_exact_aux)

section \<open>The stubs\<close>

text \<open>An Opus decoder that could be built yields silence of the configured length, unless the product overflows.\<close>

lemma opus_decode_silence:
  assumes "opus_decoder_new config = Inr d" "unat (oc_frame_ms config) < 2 ^ 32 div 48"
  shows "\<exists>f. opus_decode d b = Inr f \<and> set (pf_samples f) \<subseteq> {0} \<and>
    length (pf_samples f) = unat (oc_sample_rate config) div 1000 * unat (oc_frame_ms config) * unat (oc_channels config)"
proof -
  have d: "d = config" "oc_sample_rate config \<in> set VALID_SAMPLE_RATES"
    using assms(1) by (auto simp: opus_decoder_new_def validate_config_def split: if_splits)
  have "unat (oc_sample_rate config) div 1000 \<le> 48"
    using d(2) by (auto simp: VALID_SAMPLE_RATES_def)
  then have "unat (oc_sample_rate config) div 1000 * unat (oc_frame_ms config) \<le> 48 * unat (oc_frame_ms config)"
    by (rule mult_le_mono1)
  also have "\<dots> < 2 ^ 32"
    using assms(2) by simp
  finally have "unat (oc_sample_rate config) div 1000 * unat (oc_frame_ms config) < 2 ^ 32" .
  then show ?thesis
    by (auto simp: opus_decode_def d Let_def unat_word_ariths unat_div mod_simps)
qed

text \<open>
  The VP8 encoder checks its dimensions and not its keyframe interval: with an interval of zero every call panics.
\<close>

lemma vp8_encode_panics_iff: "vp8_encode input e = Panic \<longleftrightarrow> vc_keyframe_interval (ve_config e) = 0"
  by (simp add: vp8_encode_def Let_def)

lemma vp8_new_accepts_zero_interval:
  "vp8_encoder_new (vp8_default_config\<lparr>vc_keyframe_interval := 0\<rparr>) =
     Inr \<lparr>ve_config = vp8_default_config\<lparr>vc_keyframe_interval := 0\<rparr>, ve_frame_count = 0\<rparr>"
  by (simp add: vp8_encoder_new_def vp8_default_config_def)

end
