(* ===== verification/Codec_Ffi.thy ===== *)
theory Codec_Ffi
  imports Codec_Audio_Video
begin

text \<open>
  The crate \<open>seameet-codec\<close> with the features \<open>opus-ffi\<close> and \<open>vp8-ffi\<close>: the second halves of \<open>audio/mod.rs\<close>
  and \<open>video/mod.rs\<close>.

  The crate \<open>audiopus\<close> over \<open>libopus\<close> is not under the repository: its calls are the fields of an
  \<open>opus_library\<close>. A call that fills a buffer gets its contents and returns the new contents; \<open>Vec::truncate\<close>
  is \<open>take\<close>. An error of the library is the text it displays. The state of a coder is of any type.
\<close>

section \<open>The library\<close>

datatype opus_rate = Hz8000 | Hz12000 | Hz16000 | Hz24000 | Hz48000
datatype opus_channels = Mono | Stereo

record ('e, 'd) opus_library =
  ol_encoder_new :: "opus_rate \<Rightarrow> opus_channels \<Rightarrow> string + 'e"
  ol_set_bitrate :: "int \<Rightarrow> 'e \<Rightarrow> (string + unit) \<times> 'e"
  ol_encode :: "f32 list \<Rightarrow> u8 list \<Rightarrow> 'e \<Rightarrow> (string + nat) \<times> u8 list \<times> 'e"
  ol_decoder_new :: "opus_rate \<Rightarrow> opus_channels \<Rightarrow> string + 'd"
  ol_decode_float :: "u8 list option \<Rightarrow> f32 list \<Rightarrow> bool \<Rightarrow> 'd \<Rightarrow> (string + nat) \<times> f32 list \<times> 'd"

definition to_sample_rate :: "u32 \<Rightarrow> opus_rate sea_result" where
  "to_sample_rate sr =
    (if sr = 8000 then Inr Hz8000
     else if sr = 12000 then Inr Hz12000
     else if sr = 16000 then Inr Hz16000
     else if sr = 24000 then Inr Hz24000
     else if sr = 48000 then Inr Hz48000
     else Inl (Codec (''unsupported sample rate: '' @ show_nat (unat sr))))"

definition to_channels :: "u16 \<Rightarrow> opus_channels sea_result" where
  "to_channels ch =
    (if ch = 1 then Inr Mono
     else if ch = 2 then Inr Stereo
     else Inl (Codec (''unsupported channels: '' @ show_nat (unat ch))))"

section \<open>Opus\<close>

record 'e ffi_opus_encoder =
  fe_config :: opus_encoder_config
  fe_encoder :: 'e

record 'd ffi_opus_decoder =
  fo_config :: opus_encoder_config
  fo_decoder :: 'd

definition coder_args :: "opus_encoder_config \<Rightarrow> (opus_rate \<times> opus_channels) sea_result" where
  \<comment> \<open>the first three lines of both constructors, with their \<open>?\<close>\<close>
  "coder_args config =
    (case validate_config config of Inl e \<Rightarrow> Inl e | Inr _ \<Rightarrow>
      (case to_sample_rate (oc_sample_rate config) of Inl e \<Rightarrow> Inl e | Inr sr \<Rightarrow>
        (case to_channels (oc_channels config) of Inl e \<Rightarrow> Inl e | Inr ch \<Rightarrow> Inr (sr, ch))))"

definition ffi_encoder_new :: "('e, 'd) opus_library \<Rightarrow> opus_encoder_config \<Rightarrow> 'e ffi_opus_encoder sea_result" where
  "ffi_encoder_new lib config =
    (case coder_args config of Inl e \<Rightarrow> Inl e | Inr (sr, ch) \<Rightarrow>
      (case ol_encoder_new lib sr ch of
         Inl e \<Rightarrow> Inl (Codec (''opus encoder init: '' @ e))
       | Inr enc \<Rightarrow>
          (case ol_set_bitrate lib (sint (oc_bitrate config)) enc of
             (Inl e, _) \<Rightarrow> Inl (Codec (''opus set bitrate: '' @ e))
           | (Inr _, enc') \<Rightarrow> Inr \<lparr>fe_config = config, fe_encoder = enc'\<rparr>)))"

definition ffi_encode ::
  "('e, 'd) opus_library \<Rightarrow> pcm_frame \<Rightarrow> 'e ffi_opus_encoder \<Rightarrow> encoded_audio sea_result \<times> 'e ffi_opus_encoder" where
  "ffi_encode lib input s =
    (case ol_encode lib (pf_samples input) (replicate 4000 0) (fe_encoder s) of
       (Inl e, _, enc) \<Rightarrow> (Inl (Codec (''opus encode: '' @ e)), s\<lparr>fe_encoder := enc\<rparr>)
     | (Inr n, out, enc) \<Rightarrow> (Inr (EncodedAudio (take n out)), s\<lparr>fe_encoder := enc\<rparr>))"

definition ffi_decoder_new :: "('e, 'd) opus_library \<Rightarrow> opus_encoder_config \<Rightarrow> 'd ffi_opus_decoder sea_result" where
  "ffi_decoder_new lib config =
    (case coder_args config of Inl e \<Rightarrow> Inl e | Inr (sr, ch) \<Rightarrow>
      (case ol_decoder_new lib sr ch of
         Inl e \<Rightarrow> Inl (Codec (''opus decoder init: '' @ e))
       | Inr dec \<Rightarrow> Inr \<lparr>fo_config = config, fo_decoder = dec\<rparr>))"

definition ffi_decode ::
  "('e, 'd) opus_library \<Rightarrow> encoded_audio \<Rightarrow> 'd ffi_opus_decoder \<Rightarrow> pcm_frame sea_result \<times> 'd ffi_opus_decoder" where
  "ffi_decode lib input s =
    (let config = fo_config s;
         frame_samples = unat (oc_sample_rate config div 1000 * oc_frame_ms config) * unat (oc_channels config);
         data = (if ea_bytes input = [] then None else Some (ea_bytes input)) in
     case ol_decode_float lib data (replicate frame_samples 0) False (fo_decoder s) of
       (Inl e, _, dec) \<Rightarrow> (Inl (Codec (''opus decode: '' @ e)), s\<lparr>fo_decoder := dec\<rparr>)
     | (Inr n, pcm, dec) \<Rightarrow>
        (Inr \<lparr>pf_samples = take (n * unat (oc_channels config)) pcm, pf_sample_rate = oc_sample_rate config,
              pf_channels = oc_channels config\<rparr>, s\<lparr>fo_decoder := dec\<rparr>))"

section \<open>VP8\<close>

definition ffi_vp8_encoder_new :: "vp8_encoder_config \<Rightarrow> vp8_encoder_config sea_result" where
  "ffi_vp8_encoder_new config =
    (if vc_width config = 0 \<or> vc_height config = 0 then Inl (Codec ''VP8 width and height must be > 0'') else Inr config)"

definition ffi_vp8_encode :: "video_frame \<Rightarrow> vp8_encoder_config \<Rightarrow> encoded_video sea_result" where
  "ffi_vp8_encode input config = Inl (Codec ''vp8-ffi encode not yet implemented'')"

definition vp8_decoder_new :: "vp8_encoder_config \<Rightarrow> vp8_encoder_config sea_result" where
  \<comment> \<open>the same in both builds\<close>
  "vp8_decoder_new config = Inr config"

definition ffi_vp8_decode :: "encoded_video \<Rightarrow> vp8_encoder_config \<Rightarrow> video_frame sea_result" where
  "ffi_vp8_decode input config = Inl (Codec ''vp8-ffi decode not yet implemented'')"

section \<open>The two builds accept the same configurations\<close>

text \<open>
  The conversions never fail on a configuration that \<open>validate_config\<close> has accepted, so a configuration the
  default build refuses is refused with the same error, and any other is only refused by the library.
\<close>

lemma validated_converts:
  assumes "validate_config config = Inr ()"
  shows "\<exists>sr ch. to_sample_rate (oc_sample_rate config) = Inr sr \<and> to_channels (oc_channels config) = Inr ch"
proof -
  have sr: "oc_sample_rate config \<in> set VALID_SAMPLE_RATES" and ch: "oc_channels config \<noteq> 0" "\<not> oc_channels config > 2"
    using assms by (auto simp: validate_config_def split: if_splits)
  have "oc_channels config = 1 \<or> oc_channels config = 2"
    using ch by unat_arith
  then show ?thesis
    using sr by (auto simp: VALID_SAMPLE_RATES_def to_sample_rate_def to_channels_def)
qed

lemma coder_args_iff:
  "(\<exists>a. coder_args config = Inr a) \<longleftrightarrow> opus_encoder_new config = Inr config"
  "coder_args config = Inl e \<longleftrightarrow> opus_encoder_new config = Inl e"
  using validated_converts [of config]
  by (auto simp: coder_args_def opus_encoder_new_def split: sum.split)

lemma ffi_new_accepts:
  "ffi_encoder_new lib config = Inr s \<Longrightarrow> opus_encoder_new config = Inr config \<and> fe_config s = config"
  "ffi_decoder_new lib config = Inr s' \<Longrightarrow> opus_decoder_new config = Inr config \<and> fo_config s' = config"
  using coder_args_iff(1) [of config]
  by (auto simp: ffi_encoder_new_def ffi_decoder_new_def opus_encoder_new_def opus_decoder_new_def split: sum.splits prod.splits)

section \<open>Sizes\<close>

text \<open>
  With a library that keeps the size of the buffers it is given, an encoded packet has at most 4000 bytes, and
  a decoded frame at most the samples of the configured frame.
\<close>

lemma ffi_encode_bounded:
  assumes "\<And>xs buf e. length (fst (snd (ol_encode lib xs buf e))) = length buf" "ffi_encode lib f s = (Inr p, s')"
  shows "length (ea_bytes p) \<le> 4000"
  using assms(1) [of "pf_samples f" "replicate 4000 0" "fe_encoder s"] assms(2)
  by (auto simp: ffi_encode_def split: prod.splits sum.splits)

lemma ffi_decode_bounded:
  assumes "\<And>x buf fec d. length (fst (snd (ol_decode_float lib x buf fec d))) = length buf" "ffi_decode lib p s = (Inr f, s')"
  shows "length (pf_samples f) \<le> unat (oc_sample_rate (fo_config s) div 1000 * oc_frame_ms (fo_config s)) * unat (oc_channels (fo_config s))"
  using assms(1) [of "if ea_bytes p = [] then None else Some (ea_bytes p)" "replicate (unat (oc_sample_rate (fo_config s) div 1000 *
      oc_frame_ms (fo_config s)) * unat (oc_channels (fo_config s))) 0" False "fo_decoder s"] assms(2)
  by (auto simp: ffi_decode_def Let_def split: prod.splits sum.splits)

text \<open>With the feature \<open>vp8-ffi\<close> no frame can be encoded or decoded.\<close>

lemma ffi_vp8_never: "ffi_vp8_encode f c \<noteq> Inr e" "ffi_vp8_decode e c \<noteq> Inr f"
  by (simp_all add: ffi_vp8_encode_def ffi_vp8_decode_def)

end
