(* ===== verification/Jitter_Buffer.thy ===== *)
theory Jitter_Buffer
  imports Rtp_Packet
begin

text \<open>
  \<open>seameet-rtp/src/jitter.rs\<close>: the reorder buffer. Packets are keyed by an unwrapped 32-bit sequence
  number; \<open>push\<close> inserts, counts and evicts beyond the capacity; \<open>poll\<close> emits in key order and reports
  the gaps it skips. Arithmetic on \<open>u32\<close> keys wraps (a release build); \<open>u64\<close> counters are natural
  numbers.
\<close>

datatype jitter_buffer_event = PacketLost u16

record jitter_stats =
  js_received :: nat
  js_lost :: nat
  js_reordered :: nat
  js_late :: nat

record jitter_buffer =
  jb_capacity :: nat
  jb_max_late_ms :: u32
  jb_buffer :: "(u32, rtp_packet) btmap"
  jb_next_emit :: "u32 option"
  jb_last_pushed :: "u32 option"
  jb_high_seq :: "u16 option"
  jb_cycles :: u32
  jb_events :: "jitter_buffer_event list"
  jb_stats :: jitter_stats

definition jitter_new :: "nat \<Rightarrow> u32 \<Rightarrow> jitter_buffer" where
  "jitter_new capacity max_late_ms =
     \<lparr>jb_capacity = capacity, jb_max_late_ms = max_late_ms, jb_buffer = [], jb_next_emit = None,
      jb_last_pushed = None, jb_high_seq = None, jb_cycles = 0, jb_events = [],
      jb_stats = \<lparr>js_received = 0, js_lost = 0, js_reordered = 0, js_late = 0\<rparr>\<rparr>"

definition saturating_pred :: "u32 \<Rightarrow> u32" where
  "saturating_pred w = (if w = 0 then 0 else w - 1)"

definition unwrap_seq :: "u16 \<Rightarrow> jitter_buffer \<Rightarrow> u32 \<times> jitter_buffer" where
  "unwrap_seq seq jb =
    (case jb_high_seq jb of
       None \<Rightarrow> (ucast seq, jb\<lparr>jb_high_seq := Some seq, jb_cycles := 0\<rparr>)
     | Some high \<Rightarrow>
         let diff = seq - high in
         if diff < 0x8000 then
           let cycles = (if seq < high \<and> diff > 0 then jb_cycles jb + 1 else jb_cycles jb) in
           (cycles * 0x10000 + ucast seq, jb\<lparr>jb_cycles := cycles, jb_high_seq := Some seq\<rparr>)
         else if seq > high then (saturating_pred (jb_cycles jb) * 0x10000 + ucast seq, jb)
         else (jb_cycles jb * 0x10000 + ucast seq, jb))"

fun evict_oldest :: "nat \<Rightarrow> ('k, 'v) btmap \<Rightarrow> ('k, 'v) btmap" where
  "evict_oldest capacity [] = []"
| "evict_oldest capacity (e # m) =
     (if length (e # m) > capacity then evict_oldest capacity m else e # m)"

definition jitter_push :: "rtp_packet \<Rightarrow> jitter_buffer \<Rightarrow> jitter_buffer" where
  "jitter_push packet jb0 =
    (let (unwrapped, jb) = unwrap_seq (rp_sequence_number packet) jb0; st = jb_stats jb in
     if (case jb_next_emit jb of Some next \<Rightarrow> unwrapped < next | None \<Rightarrow> False)
     then jb\<lparr>jb_stats := st\<lparr>js_late := js_late st + 1\<rparr>\<rparr>
     else
       let reordered = (case jb_last_pushed jb of Some last_key \<Rightarrow> unwrapped < last_key | None \<Rightarrow> False);
           st1 = (if reordered then st\<lparr>js_reordered := js_reordered st + 1\<rparr> else st);
           st2 = st1\<lparr>js_received := js_received st1 + 1\<rparr> in
       jb\<lparr>jb_last_pushed := Some unwrapped,
          jb_buffer := evict_oldest (jb_capacity jb) (bt_insert unwrapped packet (jb_buffer jb)),
          jb_stats := st2\<rparr>)"

definition lost_events :: "u32 \<Rightarrow> nat \<Rightarrow> jitter_buffer_event list" where
  "lost_events next gap = map (\<lambda>off. PacketLost (ucast (next + of_nat off))) [0..<gap]"

definition jitter_poll :: "jitter_buffer \<Rightarrow> rtp_packet option \<times> jitter_buffer" where
  \<comment> \<open>The argument \<open>now_ms\<close> is discarded by the code (\<open>let _ = now_ms\<close>).\<close>
  "jitter_poll jb0 =
    (case bt_first_key (jb_buffer jb0) of
       None \<Rightarrow> (None, jb0)
     | Some earliest \<Rightarrow>
        let next = (case jb_next_emit jb0 of Some n \<Rightarrow> n | None \<Rightarrow> earliest);
            jb = jb0\<lparr>jb_next_emit := Some next\<rparr> in
        (case map_of (jb_buffer jb) next of
           Some pkt \<Rightarrow>
             (Some pkt, jb\<lparr>jb_buffer := bt_remove next (jb_buffer jb), jb_next_emit := Some (next + 1)\<rparr>)
         | None \<Rightarrow>
             if earliest \<le> next then
               (map_of (jb_buffer jb) earliest,
                jb\<lparr>jb_next_emit := Some earliest, jb_buffer := bt_remove earliest (jb_buffer jb)\<rparr>)
             else
               let gap_size = unat (earliest - next); st = jb_stats jb in
               (map_of (jb_buffer jb) earliest,
                jb\<lparr>jb_events := jb_events jb @ lost_events next gap_size,
                   jb_stats := st\<lparr>js_lost := js_lost st + gap_size\<rparr>,
                   jb_next_emit := Some (earliest + 1),
                   jb_buffer := bt_remove earliest (jb_buffer jb)\<rparr>)))"

definition jitter_drain_events :: "jitter_buffer \<Rightarrow> jitter_buffer_event list \<times> jitter_buffer" where
  "jitter_drain_events jb = (jb_events jb, jb\<lparr>jb_events := []\<rparr>)"

section \<open>Unwrapping sequence numbers\<close>

text \<open>The highest extended sequence number the buffer has seen.\<close>

definition jb_high_ext :: "jitter_buffer \<Rightarrow> nat option" where
  "jb_high_ext jb = map_option (\<lambda>h. unat (jb_cycles jb) * 65536 + unat h) (jb_high_seq jb)"

lemma unat_u16_less: "unat (s :: u16) < 65536"
  using unsigned_less [of s, where ?'a = nat] by simp

lemma unat_ucast_u16: "unat (ucast (s :: u16) :: u32) = unat s"
  using unat_u16_less [of s] by (simp add: unsigned_ucast_eq take_bit_nat_eq_self)

lemma unat_ext_key:
  fixes c :: u32 and s :: u16
  assumes "unat c < 65536"
  shows "unat (c * 0x10000 + ucast s) = unat c * 65536 + unat s"
proof -
  have "unat c * 65536 + unat s < 2 ^ 32" using assms unat_u16_less [of s] by simp
  moreover have "unat (c * 0x10000 + ucast s) = (unat c * 65536 + unat s) mod 2 ^ 32"
    by (simp add: unat_word_ariths unat_ucast_u16 mod_simps)
  ultimately show ?thesis by simp
qed

lemma unat_sub_u16:
  fixes a b :: u16
  shows "unat (a - b) = (if unat b \<le> unat a then unat a - unat b else unat a + 65536 - unat b)"
  using unat_u16_less [of a] unat_u16_less [of b]
  by (simp add: unat_sub_if' word_le_nat_alt)

lemma unat_of_nat_u16: "unat (of_nat x :: u16) = x mod 65536"
  by (simp add: unsigned_of_nat take_bit_eq_mod)

lemma less_0x8000_iff: "(w :: u16) < 0x8000 \<longleftrightarrow> unat w < 32768"
  by (simp add: word_less_nat_alt)

lemma half_cycle_forward:
  fixes c d h s :: nat
  assumes "h < 65536" "s < 65536" "c * 65536 + h \<le> d * 65536 + s" "d * 65536 + s < c * 65536 + h + 32768"
  shows "d = c \<and> h \<le> s \<and> s - h < 32768 \<or> d = c + 1 \<and> s < h \<and> s + 65536 - h < 32768"
proof -
  consider "d < c" | "d = c" | "d = c + 1" | "c + 2 \<le> d" by linarith
  then show ?thesis using assms by cases auto
qed

lemma half_cycle_backward:
  fixes c d h s :: nat
  assumes "h < 65536" "s < 65536" "d * 65536 + s < c * 65536 + h" "c * 65536 + h \<le> d * 65536 + s + 32768"
  shows "d = c \<and> s < h \<and> 32768 \<le> s + 65536 - h \<or> c = d + 1 \<and> h < s \<and> 32768 \<le> s - h"
proof -
  consider "c < d" | "d = c" | "c = d + 1" | "d + 2 \<le> c" by linarith
  then show ?thesis using assms by cases auto
qed

lemma unwrap_seq_forward:
  assumes h: "jb_high_seq jb = Some h" and c: "unat (jb_cycles jb) = c" "c < 65535"
    and s: "d = c \<and> unat h \<le> unat s \<and> unat s - unat h < 32768
      \<or> d = c + 1 \<and> unat s < unat h \<and> unat s + 65536 - unat h < 32768"
  shows "unat (fst (unwrap_seq s jb)) = d * 65536 + unat s
    \<and> jb_high_ext (snd (unwrap_seq s jb)) = Some (d * 65536 + unat s)"
proof -
  define c' where "c' = (if s < h \<and> s - h > 0 then jb_cycles jb + 1 else jb_cycles jb)"
  have c1: "unat (jb_cycles jb + 1) = c + 1" using c by (simp add: unat_word_ariths)
  have "s < h \<longleftrightarrow> unat s < unat h" by (simp add: word_less_nat_alt)
  moreover have "s - h > 0" if "unat s < unat h"
    using that unat_u16_less [of h] by (simp add: word_less_nat_alt unat_sub_u16)
  ultimately have c': "unat c' = d" using s c c1 by (auto simp: c'_def)
  have "s - h < 0x8000" using s by (auto simp: less_0x8000_iff unat_sub_u16)
  then have "unwrap_seq s jb = (c' * 0x10000 + ucast s, jb\<lparr>jb_cycles := c', jb_high_seq := Some s\<rparr>)"
    by (simp add: unwrap_seq_def h Let_def c'_def)
  moreover have "unat c' < 65536" using c' s c(2) by auto
  ultimately show ?thesis using c' by (simp add: unat_ext_key jb_high_ext_def)
qed

lemma unwrap_seq_backward:
  assumes h: "jb_high_seq jb = Some h" and c: "unat (jb_cycles jb) = c" "c < 65536"
    and s: "d = c \<and> unat s < unat h \<and> 32768 \<le> unat s + 65536 - unat h
      \<or> c = d + 1 \<and> unat h < unat s \<and> 32768 \<le> unat s - unat h"
  shows "unat (fst (unwrap_seq s jb)) = d * 65536 + unat s \<and> snd (unwrap_seq s jb) = jb"
proof -
  define c' where "c' = (if s > h then saturating_pred (jb_cycles jb) else jb_cycles jb)"
  have "unat (saturating_pred (jb_cycles jb)) = c - 1"
    using c by (auto simp: saturating_pred_def unat_minus_one)
  moreover have "s > h \<longleftrightarrow> unat h < unat s" by (simp add: word_less_nat_alt)
  ultimately have c': "unat c' = d" using s c by (auto simp: c'_def)
  have "\<not> s - h < 0x8000" using s by (auto simp: less_0x8000_iff unat_sub_u16)
  then have "unwrap_seq s jb = (c' * 0x10000 + ucast s, jb)"
    by (simp add: unwrap_seq_def h Let_def c'_def)
  moreover have "unat c' < 65536" using c' s c(2) by auto
  ultimately show ?thesis using c' by (simp add: unat_ext_key)
qed

text \<open>unwrapping is correct within half a cycle. If the highest extended sequence number seen is
\<open>H\<close>, a packet whose extended number \<open>x\<close> is less than \<open>2\<^sup>15\<close> ahead of \<open>H\<close> or at most \<open>2\<^sup>15\<close> behind
it (and no 32-bit overflow) is given the key \<open>x\<close>, and the highest number becomes the maximum of the two.\<close>

lemma unwrap_seq_correct:
  assumes H: "jb_high_ext jb = Some H"
    and near: "x < H + 32768" "H \<le> x + 32768"
    and bound: "H + 65536 < 2 ^ 32"
  shows "unat (fst (unwrap_seq (of_nat x) jb)) = x
    \<and> jb_high_ext (snd (unwrap_seq (of_nat x) jb)) = Some (max H x)"
proof -
  from H obtain h where h: "jb_high_seq jb = Some h" and Hdef: "H = unat (jb_cycles jb) * 65536 + unat h"
    by (auto simp: jb_high_ext_def)
  define c d s where "c = unat (jb_cycles jb)" and "d = x div 65536" and "s = (of_nat x :: u16)"
  have x: "x = d * 65536 + unat s" by (simp add: d_def s_def unat_of_nat_u16)
  have c: "c < 65535" using bound Hdef by (simp add: c_def)
  show ?thesis
  proof (cases "H \<le> x")
    case True
    have "d = c \<and> unat h \<le> unat s \<and> unat s - unat h < 32768
        \<or> d = c + 1 \<and> unat s < unat h \<and> unat s + 65536 - unat h < 32768"
      using True near(1) by (intro half_cycle_forward) (simp_all add: x Hdef c_def unat_u16_less)
    from unwrap_seq_forward [OF h c_def [symmetric] c this] True show ?thesis
      by (simp add: max_def flip: x s_def)
  next
    case False
    have "d = c \<and> unat s < unat h \<and> 32768 \<le> unat s + 65536 - unat h
        \<or> c = d + 1 \<and> unat h < unat s \<and> 32768 \<le> unat s - unat h"
      using False near(2) by (intro half_cycle_backward) (simp_all add: x Hdef c_def unat_u16_less)
    from unwrap_seq_backward [OF h c_def [symmetric] _ this] c False H show ?thesis
      by (simp add: max_def flip: x s_def)
  qed
qed

theorem unwrap_seq_correct_witness:
  "unat (fst (unwrap_seq (of_nat 65538) (jitter_new 8 150\<lparr>jb_high_seq := Some 65530\<rparr>))) = 65538
   \<and> jb_high_ext (snd (unwrap_seq (of_nat 65538) (jitter_new 8 150\<lparr>jb_high_seq := Some 65530\<rparr>))) = Some 65538"
proof -
  have H: "jb_high_ext (jitter_new 8 150\<lparr>jb_high_seq := Some 65530\<rparr>) = Some 65530"
    by (simp add: jb_high_ext_def jitter_new_def)
  from unwrap_seq_correct [OF H, of 65538] show ?thesis by simp
qed

text \<open>a packet reordered across the start of the stream is placed ahead instead of behind. While no
wrap-around has been seen, a packet that is behind the highest one across the 16-bit boundary (the
previous cycle) gets a key at least \<open>2\<^sup>15\<close> above every number seen so far, because the saturating
decrement of the cycle count stays at zero.\<close>

lemma unwrap_seq_before_first:
  assumes "jb_high_seq jb = Some h" and "jb_cycles jb = 0" and "jb_high_ext jb = Some H"
    and "h < s" and "\<not> s - h < 0x8000"
  shows "fst (unwrap_seq s jb) = ucast s \<and> H + 32768 \<le> unat (fst (unwrap_seq s jb))"
proof -
  have "unat h < unat s" "32768 \<le> unat s - unat h"
    using assms(4,5) by (auto simp: less_0x8000_iff unat_sub_u16 word_less_nat_alt)
  moreover have "H = unat h" using assms(1-3) by (simp add: jb_high_ext_def)
  moreover have "fst (unwrap_seq s jb) = ucast s"
    using assms by (simp add: unwrap_seq_def Let_def saturating_pred_def)
  ultimately show ?thesis by (simp add: unat_ucast_u16)
qed

theorem unwrap_seq_before_first_witness:
  "fst (unwrap_seq 65535 (jitter_new 8 150\<lparr>jb_high_seq := Some 0\<rparr>)) = 65535"
  using unwrap_seq_before_first [of "jitter_new 8 150\<lparr>jb_high_seq := Some 0\<rparr>" 0 0 65535]
  by (simp add: jb_high_ext_def jitter_new_def)

section \<open>The buffer invariant\<close>

lemma evict_oldest_drop: "evict_oldest n m = drop (length m - n) m"
  by (induction m) (auto simp: Suc_diff_le not_less)

lemma ucast_ext_key: "ucast (c * 0x10000 + ucast s :: u32) = (s :: u16)"
proof -
  have "unat (ucast (c * 0x10000 + ucast s :: u32) :: u16) = unat (c * 0x10000 + ucast s :: u32) mod 65536"
    by (simp add: unsigned_ucast_eq take_bit_eq_mod)
  also have "\<dots> = (unat c * 65536 + unat s) mod 2 ^ 32 mod 65536"
    by (simp add: unat_word_ariths unat_ucast_u16 mod_simps)
  also have "\<dots> = (unat c * 65536 + unat s) mod 65536"
    by (rule mod_mod_cancel) simp
  also have "\<dots> = unat s" using unat_u16_less [of s] by simp
  finally show ?thesis by (simp add: word_unat_eq_iff)
qed

lemma ucast_unwrap_seq: "ucast (fst (unwrap_seq s jb)) = s"
  using ucast_ext_key [of 0 s]
  by (simp add: unwrap_seq_def Let_def ucast_ext_key split: option.split)

lemma unwrap_seq_frame:
  "jb_capacity (snd (unwrap_seq s jb)) = jb_capacity jb" "jb_buffer (snd (unwrap_seq s jb)) = jb_buffer jb"
  "jb_next_emit (snd (unwrap_seq s jb)) = jb_next_emit jb" "jb_stats (snd (unwrap_seq s jb)) = jb_stats jb"
  "jb_events (snd (unwrap_seq s jb)) = jb_events jb"
  by (simp_all add: unwrap_seq_def Let_def split: option.split)

definition jb_inv :: "jitter_buffer \<Rightarrow> bool" where
  "jb_inv jb \<longleftrightarrow> bt_wf (jb_buffer jb) \<and> length (jb_buffer jb) \<le> jb_capacity jb
     \<and> (\<forall>n. jb_next_emit jb = Some n \<longrightarrow> (\<forall>k \<in> fst ` set (jb_buffer jb). n \<le> k))
     \<and> (\<forall>(k, p) \<in> set (jb_buffer jb). ucast k = rp_sequence_number p)"

lemma jb_inv_new: "jb_inv (jitter_new capacity max_late_ms)"
  by (simp add: jb_inv_def jitter_new_def)

lemma set_bt_insert: "set (bt_insert k v m) \<subseteq> insert (k, v) (set m)"
  by (induction m) auto

lemma bt_wf_drop: "bt_wf m \<Longrightarrow> bt_wf (drop n m)"
  by (simp add: bt_wf_def sorted_wrt_drop flip: drop_map)

lemma jb_inv_push: assumes "jb_inv jb" shows "jb_inv (jitter_push p jb)"
proof -
  obtain u jb1 where u: "unwrap_seq (rp_sequence_number p) jb = (u, jb1)" by (cases "unwrap_seq (rp_sequence_number p) jb")
  note fr = unwrap_seq_frame [of "rp_sequence_number p" jb, unfolded u, simplified]
  have key: "ucast u = rp_sequence_number p" using ucast_unwrap_seq [of "rp_sequence_number p" jb] u by simp
  have inv1: "jb_inv jb1" using assms by (simp add: jb_inv_def fr)
  show ?thesis
  proof (cases "\<exists>n. jb_next_emit jb1 = Some n \<and> u < n")
    case True
    then show ?thesis using inv1 by (auto simp: jitter_push_def u jb_inv_def Let_def)
  next
    case False
    define buf where "buf = evict_oldest (jb_capacity jb1) (bt_insert u p (jb_buffer jb1))"
    have "jb_buffer (jitter_push p jb) = buf" "jb_next_emit (jitter_push p jb) = jb_next_emit jb1"
      "jb_capacity (jitter_push p jb) = jb_capacity jb1"
      using False by (auto simp: jitter_push_def u buf_def Let_def split: option.split)
    moreover have "bt_wf buf" "length buf \<le> jb_capacity jb1"
      using inv1 by (simp_all add: buf_def evict_oldest_drop jb_inv_def bt_wf_drop)
    moreover have sub: "x \<in> set buf \<Longrightarrow> x = (u, p) \<or> x \<in> set (jb_buffer jb1)" for x
      unfolding buf_def evict_oldest_drop using set_drop_subset set_bt_insert by fastforce
    have "n \<le> fst x" if "jb_next_emit jb1 = Some n" "x \<in> set buf" for n x
      using sub [OF that(2)] that(1) inv1 False by (auto simp: jb_inv_def not_less)
    moreover have "ucast (fst x) = rp_sequence_number (snd x)" if "x \<in> set buf" for x
      using sub [OF that] inv1 key by (auto simp: jb_inv_def)
    ultimately show ?thesis by (auto simp: jb_inv_def)
  qed
qed

lemma jitter_poll_Nil: "jb_buffer jb = [] \<Longrightarrow> jitter_poll jb = (None, jb)"
  by (simp add: jitter_poll_def bt_first_key_def)

lemma jitter_poll_Cons:
  assumes inv: "jb_inv jb" and buf: "jb_buffer jb = (k, p) # rest"
    and n: "n = (case jb_next_emit jb of Some n \<Rightarrow> n | None \<Rightarrow> k)"
  shows "jitter_poll jb = (Some p, jb\<lparr>jb_buffer := rest, jb_next_emit := Some (k + 1),
     jb_events := jb_events jb @ lost_events n (unat (k - n)),
     jb_stats := (jb_stats jb)\<lparr>js_lost := js_lost (jb_stats jb) + unat (k - n)\<rparr>\<rparr>)"
proof -
  have wf: "bt_wf ((k, p) # rest)" using inv buf by (simp add: jb_inv_def)
  have rm: "bt_remove k ((k, p) # rest) = rest"
    using wf by (auto simp: bt_remove_filter filter_id_conv)
  have le: "n \<le> k" using inv buf by (auto simp: n jb_inv_def split: option.split)
  show ?thesis
  proof (cases "n = k")
    case True
    then show ?thesis
      using buf rm by (simp add: jitter_poll_def bt_first_key_def Let_def lost_events_def flip: n)
  next
    case False
    with le have lt: "n < k" by simp
    then have "n \<notin> fst ` set rest" using wf by (auto dest: order.strict_trans)
    with lt have "map_of ((k, p) # rest) n = None" by (simp add: map_of_eq_None_iff)
    with lt show ?thesis
      using buf rm by (simp add: jitter_poll_def bt_first_key_def Let_def flip: n)
  qed
qed

text \<open>with the invariant, \<open>poll\<close> emits the packet with the least key, moves the emission point just
past it, and reports exactly the keys between the old emission point and that packet as lost; the branch
the source marks ``shouldn't happen'' is never taken. It returns nothing only when the buffer is empty:
it never waits for a missing packet, whatever the time.\<close>

lemma jitter_poll_spec:
  assumes "jb_inv jb"
  shows "jitter_poll jb = (case jb_buffer jb of
      [] \<Rightarrow> (None, jb)
    | (k, p) # rest \<Rightarrow>
        let n = (case jb_next_emit jb of Some n \<Rightarrow> n | None \<Rightarrow> k) in
        (Some p, jb\<lparr>jb_buffer := rest, jb_next_emit := Some (k + 1),
           jb_events := jb_events jb @ lost_events n (unat (k - n)),
           jb_stats := (jb_stats jb)\<lparr>js_lost := js_lost (jb_stats jb) + unat (k - n)\<rparr>\<rparr>))"
  using jitter_poll_Cons [OF assms]
  by (simp add: jitter_poll_Nil Let_def split: list.split prod.split)

theorem jitter_poll_spec_witness:
  "jb_inv (jitter_push (new_audio [7] 0 1 5) (jitter_new 8 150))
   \<and> fst (jitter_poll (jitter_push (new_audio [7] 0 1 5) (jitter_new 8 150))) = Some (new_audio [7] 0 1 5)"
proof -
  have inv: "jb_inv (jitter_push (new_audio [7] 0 1 5) (jitter_new 8 150))"
    by (intro jb_inv_push jb_inv_new)
  show ?thesis
    using inv jitter_poll_spec [OF inv]
    by (simp add: jitter_push_def jitter_new_def unwrap_seq_def new_audio_def Let_def)
qed

section \<open>Runs\<close>

text \<open>A run interleaves insertions and polls; the emitted packets are recorded with their keys.\<close>

datatype jitter_op = JPush rtp_packet | JPoll

definition jitter_emitted :: "jitter_buffer \<Rightarrow> (u32 \<times> rtp_packet) list" where
  "jitter_emitted jb = (case (bt_first_key (jb_buffer jb), fst (jitter_poll jb)) of
     (Some k, Some p) \<Rightarrow> [(k, p)] | _ \<Rightarrow> [])"

fun jitter_run :: "jitter_op list \<Rightarrow> jitter_buffer \<Rightarrow> (u32 \<times> rtp_packet) list \<times> jitter_buffer" where
  "jitter_run [] jb = ([], jb)"
| "jitter_run (JPush p # ops) jb = jitter_run ops (jitter_push p jb)"
| "jitter_run (JPoll # ops) jb =
     (let (es, jb') = jitter_run ops (snd (jitter_poll jb)) in (jitter_emitted jb @ es, jb'))"

lemma u32_less_Suc: assumes "(k :: u32) \<noteq> -1" shows "k < k + 1"
proof -
  have "unat k \<noteq> 2 ^ 32 - 1"
    using assms by (auto simp: word_unat_eq_iff unsigned_minus_1_eq_mask mask_eq_exp_minus_1)
  moreover have "unat k < 2 ^ 32" using unsigned_less [of k, where ?'a = nat] by simp
  ultimately show ?thesis by (simp add: word_less_nat_alt unat_word_ariths)
qed

lemma jb_inv_poll:
  assumes inv: "jb_inv jb" and "\<And>k. bt_first_key (jb_buffer jb) = Some k \<Longrightarrow> k \<noteq> -1"
  shows "jb_inv (snd (jitter_poll jb))"
proof (cases "jb_buffer jb")
  case Nil
  then show ?thesis using inv by (simp add: jitter_poll_Nil)
next
  case (Cons e rest)
  obtain k p where e: "e = (k, p)" by (cases e)
  have "k + 1 \<le> j" if "k < j" for j using that inc_le by blast
  then show ?thesis
    using inv Cons unfolding e jitter_poll_Cons [OF inv Cons [unfolded e] refl] jb_inv_def
    by auto
qed

lemma jitter_emitted_Cons:
  "jb_inv jb \<Longrightarrow> jb_buffer jb = (k, p) # rest \<Longrightarrow> jitter_emitted jb = [(k, p)]"
  by (simp add: jitter_emitted_def jitter_poll_Cons bt_first_key_def)

lemma jitter_emitted_Nil: "jb_buffer jb = [] \<Longrightarrow> jitter_emitted jb = []"
  by (simp add: jitter_emitted_def bt_first_key_def)

lemma jitter_push_next_emit: "jb_next_emit (jitter_push p jb) = jb_next_emit jb"
  by (simp add: jitter_push_def Let_def unwrap_seq_frame split: prod.split option.split)
    (metis snd_conv unwrap_seq_frame(3))

lemma jitter_run_above:
  assumes "jb_inv jb" "jb_next_emit jb = Some n" "(k, p) \<in> set (fst (jitter_run ops jb))"
    "\<forall>(k, p) \<in> set (fst (jitter_run ops jb)). k \<noteq> -1"
  shows "n \<le> k"
  using assms
proof (induction ops jb arbitrary: n rule: jitter_run.induct)
  case (2 q ops jb)
  then show ?case by (simp add: jb_inv_push jitter_push_next_emit)
next
  case (3 ops jb)
  show ?case
  proof (cases "jb_buffer jb")
    case Nil
    with 3 show ?thesis by (simp add: jitter_poll_Nil jitter_emitted_Nil split_beta)
  next
    case (Cons e rest)
    obtain j q where e: "e = (j, q)" by (cases e)
    note poll = jitter_poll_Cons [OF "3.prems"(1) Cons [unfolded e] refl]
    have em: "jitter_emitted jb = [(j, q)]" using jitter_emitted_Cons "3.prems"(1) Cons e by blast
    have nj: "n \<le> j" using "3.prems"(1,2) Cons e by (auto simp: jb_inv_def)
    have j: "j \<noteq> -1" using "3.prems"(4) em by (auto simp: split_beta)
    have inv: "jb_inv (snd (jitter_poll jb))" 
      using jb_inv_poll [OF "3.prems"(1)] Cons e j by (simp add: bt_first_key_def)
    have "k = j \<or> j + 1 \<le> k"
      using "3.IH" [OF inv, of "j + 1"] "3.prems"(3,4) em by (auto simp: split_beta poll)
    with nj u32_less_Suc [OF j] show ?thesis by auto
  qed
qed simp



end
