(* ===== verification/Rtp_Sender.thy ===== *)
theory Rtp_Sender
  imports Rtp_Packet
begin

text \<open>
  \<open>seameet-rtp/src/sender.rs\<close>: the RTP sender, with its wrapping 16-bit sequence counter, its
  fragmentation of video frames into MTU-safe packets and its statistics.

  The outbound channel keeps what has been sent; \<open>tx_budget\<close> says how many more packets the receiving
  half takes before it is dropped (\<open>None\<close>: it is never dropped). A send after that is the closed-channel
  error.
\<close>

definition MAX_PAYLOAD_SIZE :: nat where "MAX_PAYLOAD_SIZE = 1200"

record sender_stats =
  ss_bytes_sent :: nat
  ss_packets_sent :: nat

record byte_channel =
  tx_sent :: "u8 list list"
  tx_budget :: "nat option"

record rtp_sender =
  sd_ssrc :: u32
  sd_seq :: u16
  sd_tx :: byte_channel
  sd_pli_requested :: bool
  sd_stats :: sender_stats

definition sender_new :: "u32 \<Rightarrow> byte_channel \<Rightarrow> rtp_sender" where
  "sender_new ssrc tx = \<lparr>sd_ssrc = ssrc, sd_seq = 0, sd_tx = tx, sd_pli_requested = False,
     sd_stats = \<lparr>ss_bytes_sent = 0, ss_packets_sent = 0\<rparr>\<rparr>"

definition channel_send :: "u8 list \<Rightarrow> byte_channel \<Rightarrow> bool \<times> byte_channel" where
  "channel_send b tx = (if tx_budget tx = Some 0 then (False, tx)
     else (True, tx\<lparr>tx_sent := tx_sent tx @ [b], tx_budget := map_option (\<lambda>n. n - 1) (tx_budget tx)\<rparr>))"

definition next_seq :: "rtp_sender \<Rightarrow> u16 \<times> rtp_sender" where
  "next_seq s = (sd_seq s, s\<lparr>sd_seq := sd_seq s + 1\<rparr>)"

definition send_packet :: "rtp_packet \<Rightarrow> rtp_sender \<Rightarrow> unit sea_result \<times> rtp_sender" where
  "send_packet pkt s =
    (let bytes = rtp_to_bytes pkt; st = sd_stats s;
         s1 = s\<lparr>sd_stats := \<lparr>ss_bytes_sent = ss_bytes_sent st + length bytes,
                            ss_packets_sent = ss_packets_sent st + 1\<rparr>\<rparr>;
         (ok, tx) = channel_send bytes (sd_tx s1) in
     (if ok then Inr () else Inl (PeerConnection ''send channel closed''), s1\<lparr>sd_tx := tx\<rparr>))"

definition sender_send_audio :: "u8 list \<Rightarrow> u32 \<Rightarrow> rtp_sender \<Rightarrow> unit sea_result \<times> rtp_sender" where
  "sender_send_audio payload ts s =
    (let (seq, s1) = next_seq s in send_packet (new_audio payload ts (sd_ssrc s1) seq) s1)"

fun send_video_loop :: "nat \<Rightarrow> nat \<Rightarrow> u8 list list \<Rightarrow> u32 \<Rightarrow> rtp_sender \<Rightarrow> unit sea_result \<times> rtp_sender" where
  "send_video_loop i last_idx [] ts s = (Inr (), s)"
| "send_video_loop i last_idx (chunk # rest) ts s =
    (let (seq, s1) = next_seq s;
         pkt = new_video chunk ts (sd_ssrc s1) seq (i = last_idx) in
     case send_packet pkt s1 of
       (Inl e, s2) \<Rightarrow> (Inl e, s2)
     | (Inr _, s2) \<Rightarrow> send_video_loop (Suc i) last_idx rest ts s2)"

definition sender_send_video :: "encoded_video \<Rightarrow> u32 \<Rightarrow> rtp_sender \<Rightarrow> unit sea_result \<times> rtp_sender" where
  "sender_send_video frame ts s =
    (let cs = chunks MAX_PAYLOAD_SIZE (ev_data frame) in
     send_video_loop 0 (length cs - 1) cs ts s)"

definition send_silence :: "u32 \<Rightarrow> rtp_sender \<Rightarrow> unit sea_result \<times> rtp_sender" where
  "send_silence ts s = sender_send_audio [] ts s"

definition sender_clear_pli :: "rtp_sender \<Rightarrow> rtp_sender" where
  "sender_clear_pli s = s\<lparr>sd_pli_requested := False\<rparr>"

definition sender_request_pli :: "rtp_sender \<Rightarrow> rtp_sender" where
  "sender_request_pli s = s\<lparr>sd_pli_requested := True\<rparr>"

section \<open>Fragmentation\<close>

text \<open>The packets of a frame: consecutive wrapping sequence numbers, one timestamp, the marker on the
last one.\<close>

fun video_packets :: "u8 list list \<Rightarrow> u32 \<Rightarrow> u32 \<Rightarrow> u16 \<Rightarrow> rtp_packet list" where
  "video_packets [] ts ssrc seq = []"
| "video_packets (c # cs) ts ssrc seq = new_video c ts ssrc seq (cs = []) # video_packets cs ts ssrc (seq + 1)"

lemma video_packets_payload: "concat (map rp_payload (video_packets cs ts ssrc seq)) = concat cs"
  by (induction cs arbitrary: seq) (auto simp: new_video_def)

lemma length_video_packets [simp]: "length (video_packets cs ts ssrc seq) = length cs"
  by (induction cs arbitrary: seq) auto

lemma video_packets_nth:
  "i < length cs \<Longrightarrow> video_packets cs ts ssrc seq ! i = new_video (cs ! i) ts ssrc (seq + of_nat i) (Suc i = length cs)"
  by (induction cs arbitrary: seq i) (auto simp: nth_Cons algebra_simps split: nat.split)

lemma video_packets_wf: "p \<in> set (video_packets cs ts ssrc seq) \<Longrightarrow> rtp_wf p"
  by (induction cs arbitrary: seq) (auto simp: new_video_def rtp_wf_def PT_VIDEO_def)

lemma send_packet_open:
  assumes "tx_budget (sd_tx s) = None"
  shows "send_packet p s = (Inr (), s\<lparr>sd_tx := (sd_tx s)\<lparr>tx_sent := tx_sent (sd_tx s) @ [rtp_to_bytes p]\<rparr>,
     sd_stats := \<lparr>ss_bytes_sent = ss_bytes_sent (sd_stats s) + length (rtp_to_bytes p),
       ss_packets_sent = ss_packets_sent (sd_stats s) + 1\<rparr>\<rparr>)"
  using assms by (cases s; cases "sd_tx s") (auto simp: send_packet_def channel_send_def Let_def)

lemma send_video_loop_open:
  assumes "tx_budget (sd_tx s) = None" "i + length cs = Suc last_idx"
  shows "send_video_loop i last_idx cs ts s =
    (Inr (), s\<lparr>sd_seq := sd_seq s + of_nat (length cs),
       sd_tx := (sd_tx s)\<lparr>tx_sent := tx_sent (sd_tx s) @ map rtp_to_bytes (video_packets cs ts (sd_ssrc s) (sd_seq s))\<rparr>,
       sd_stats := \<lparr>ss_bytes_sent = ss_bytes_sent (sd_stats s)
            + sum_list (map (length \<circ> rtp_to_bytes) (video_packets cs ts (sd_ssrc s) (sd_seq s))),
         ss_packets_sent = ss_packets_sent (sd_stats s) + length cs\<rparr>\<rparr>)"
  using assms
proof (induction cs arbitrary: i s)
  case (Cons c cs)
  have last: "(i = last_idx) = (cs = [])" using Cons.prems(2) by auto
  show ?case
  proof (cases "cs = []")
    case True
    then show ?thesis
      using Cons.prems by (simp add: next_seq_def send_packet_open add.commute)
  next
    case False
    then show ?thesis
      using Cons.prems last Cons.IH [of _ "Suc i"]
      by (simp add: next_seq_def send_packet_open algebra_simps)
  qed
qed simp

lemma video_packet_bytes:
  "p \<in> set (video_packets cs ts ssrc seq) \<Longrightarrow> length (rtp_to_bytes p) = 12 + length (rp_payload p)"
  by (induction cs arbitrary: seq) (auto simp: new_video_def rtp_to_bytes_def)

lemma sum_list_video_bytes:
  "sum_list (map (length \<circ> rtp_to_bytes) (video_packets cs ts ssrc seq)) = 12 * length cs + length (concat cs)"
  by (induction cs arbitrary: seq) (auto simp: new_video_def rtp_to_bytes_def)

lemma send_video_open:
  assumes "tx_budget (sd_tx s) = None" and "cs = chunks MAX_PAYLOAD_SIZE (ev_data frame)"
  shows "sender_send_video frame ts s =
    (Inr (), s\<lparr>sd_seq := sd_seq s + of_nat (length cs),
       sd_tx := (sd_tx s)\<lparr>tx_sent := tx_sent (sd_tx s) @ map rtp_to_bytes (video_packets cs ts (sd_ssrc s) (sd_seq s))\<rparr>,
       sd_stats := \<lparr>ss_bytes_sent = ss_bytes_sent (sd_stats s) + 12 * length cs + length (ev_data frame),
         ss_packets_sent = ss_packets_sent (sd_stats s) + length cs\<rparr>\<rparr>)"
proof (cases cs)
  case Nil
  then have "ev_data frame = []"
    using assms(2) concat_chunks [of MAX_PAYLOAD_SIZE "ev_data frame"] by (simp add: MAX_PAYLOAD_SIZE_def)
  with Nil assms show ?thesis by (cases s; cases "sd_tx s"; cases "sd_stats s") (simp add: sender_send_video_def)
next
  case (Cons c cs')
  then have "0 + length cs = Suc (length cs - 1)" by simp
  moreover have "concat cs = ev_data frame"
    using assms(2) concat_chunks [of MAX_PAYLOAD_SIZE "ev_data frame"] by (simp add: MAX_PAYLOAD_SIZE_def)
  ultimately show ?thesis
    using send_video_loop_open [OF assms(1), of 0 cs "length cs - 1" ts] assms(2)
    by (simp add: sender_send_video_def Let_def sum_list_video_bytes)
qed

text \<open>C30: sending a video frame on an open channel queues datagrams that parse back to its fragments: as
many as the frame needs at 1200 bytes each, whose payloads concatenate to the frame, with consecutive
wrapping sequence numbers, the frame's timestamp, and the marker bit on the last fragment only.\<close>

theorem send_video_fragments:
  assumes "tx_budget (sd_tx s) = None"
  shows "\<exists>pkts. tx_sent (sd_tx (snd (sender_send_video frame ts s))) = tx_sent (sd_tx s) @ map rtp_to_bytes pkts
    \<and> map rtp_from_bytes (map rtp_to_bytes pkts) = map (Ret \<circ> Inr) pkts
    \<and> concat (map rp_payload pkts) = ev_data frame
    \<and> length pkts = (length (ev_data frame) + 1199) div 1200
    \<and> (\<forall>i < length pkts. rp_sequence_number (pkts ! i) = sd_seq s + of_nat i
         \<and> rp_timestamp (pkts ! i) = ts \<and> rp_ssrc (pkts ! i) = sd_ssrc s
         \<and> rp_marker (pkts ! i) = (Suc i = length pkts)
         \<and> 0 < length (rp_payload (pkts ! i)) \<and> length (rp_payload (pkts ! i)) \<le> 1200)
    \<and> fst (sender_send_video frame ts s) = Inr ()
    \<and> sd_seq (snd (sender_send_video frame ts s)) = sd_seq s + of_nat (length pkts)"
proof -
  define cs where "cs = chunks MAX_PAYLOAD_SIZE (ev_data frame)"
  define pkts where "pkts = video_packets cs ts (sd_ssrc s) (sd_seq s)"
  note eq = send_video_open [OF assms cs_def, of ts]
  have "map rtp_from_bytes (map rtp_to_bytes pkts) = map (Ret \<circ> Inr) pkts"
    using video_packets_wf by (auto simp: pkts_def rtp_parse_of_wf)
  moreover have "concat (map rp_payload pkts) = ev_data frame"
    by (simp add: pkts_def video_packets_payload cs_def concat_chunks MAX_PAYLOAD_SIZE_def)
  moreover have "length pkts = (length (ev_data frame) + 1199) div 1200"
    by (simp add: pkts_def cs_def length_chunks MAX_PAYLOAD_SIZE_def)
  moreover have "\<forall>i < length pkts. rp_sequence_number (pkts ! i) = sd_seq s + of_nat i
       \<and> rp_timestamp (pkts ! i) = ts \<and> rp_ssrc (pkts ! i) = sd_ssrc s
       \<and> rp_marker (pkts ! i) = (Suc i = length pkts)
       \<and> 0 < length (rp_payload (pkts ! i)) \<and> length (rp_payload (pkts ! i)) \<le> 1200"
    using chunks_bounds [of _ MAX_PAYLOAD_SIZE "ev_data frame"]
    by (auto simp: pkts_def video_packets_nth new_video_def MAX_PAYLOAD_SIZE_def cs_def)
  ultimately show ?thesis
    by (intro exI [of _ pkts]) (simp add: eq pkts_def)
qed

theorem send_video_fragments_witness:
  "\<exists>pkts. tx_sent (sd_tx (snd (sender_send_video \<lparr>ev_data = replicate 4000 0xAB, ev_is_keyframe = True, ev_pts = 0\<rparr> 90000
       (sender_new 42 \<lparr>tx_sent = [], tx_budget = None\<rparr>)))) = map rtp_to_bytes pkts \<and> length pkts = 4
     \<and> concat (map rp_payload pkts) = replicate 4000 0xAB"
  using send_video_fragments [of "sender_new 42 \<lparr>tx_sent = [], tx_budget = None\<rparr>"
      "\<lparr>ev_data = replicate 4000 0xAB, ev_is_keyframe = True, ev_pts = 0\<rparr>" 90000]
  by (auto simp: sender_new_def)

text \<open>the statistics of a frame count whole datagrams: \<open>bytes_sent\<close> grows by the frame's size plus
12 header bytes per fragment, although its documentation says payload bytes.\<close>

lemma send_video_stats:
  assumes "tx_budget (sd_tx s) = None"
  shows "ss_bytes_sent (sd_stats (snd (sender_send_video frame ts s)))
      = ss_bytes_sent (sd_stats s) + length (ev_data frame) + 12 * ((length (ev_data frame) + 1199) div 1200)
    \<and> ss_packets_sent (sd_stats (snd (sender_send_video frame ts s)))
      = ss_packets_sent (sd_stats s) + (length (ev_data frame) + 1199) div 1200"
  by (simp add: send_video_open [OF assms refl] length_chunks MAX_PAYLOAD_SIZE_def)

theorem send_video_stats_witness:
  "ss_bytes_sent (sd_stats (snd (sender_send_video \<lparr>ev_data = [1, 2, 3], ev_is_keyframe = True, ev_pts = 0\<rparr> 0
     (sender_new 1 \<lparr>tx_sent = [], tx_budget = None\<rparr>)))) = 15"
  using send_video_stats [of "sender_new 1 \<lparr>tx_sent = [], tx_budget = None\<rparr>"
      "\<lparr>ev_data = [1, 2, 3], ev_is_keyframe = True, ev_pts = 0\<rparr>" 0]
  by (simp add: sender_new_def)

text \<open>when the receiver has been dropped, an audio send fails with the closed-channel error and queues
nothing, but the sequence number is consumed and the packet is counted as sent.\<close>

lemma send_audio_closed:
  assumes "tx_budget (sd_tx s) = Some 0"
  shows "fst (sender_send_audio payload ts s) = Inl (PeerConnection ''send channel closed'')
    \<and> sd_tx (snd (sender_send_audio payload ts s)) = sd_tx s
    \<and> sd_seq (snd (sender_send_audio payload ts s)) = sd_seq s + 1
    \<and> ss_packets_sent (sd_stats (snd (sender_send_audio payload ts s))) = ss_packets_sent (sd_stats s) + 1"
  using assms by (simp add: sender_send_audio_def next_seq_def send_packet_def channel_send_def Let_def)

theorem send_audio_closed_witness:
  "fst (sender_send_audio [1] 0 (sender_new 1 \<lparr>tx_sent = [], tx_budget = Some 0\<rparr>))
     = Inl (PeerConnection ''send channel closed'')"
  using send_audio_closed [of "sender_new 1 \<lparr>tx_sent = [], tx_budget = Some 0\<rparr>" "[1]" 0]
  by (simp add: sender_new_def)

end
