(* ===== verification/Pipeline_Media.thy ===== *)
theory Pipeline_Media
  imports Codec_Audio_Video Jitter_Buffer Rtp_Sender "HOL-Library.Multiset"
begin

text \<open>
  The crate \<open>seameet-pipeline\<close>: the chain of processors (\<open>processor.rs\<close>), the inbound pipeline from packets to
  decoded frames (\<open>inbound.rs\<close>) and the outbound pipeline from frames to packets (\<open>outbound.rs\<close>).

  A processor is an object behind a trait: a value with its two methods, each returning the object as the call
  leaves it. Encoder and decoder are arguments with a state of their own. A broadcast or event channel is the
  list of what has been sent on it; sends whose result the code discards never fail here. What a \<open>select!\<close>
  loop meets, in order, is the list of its inputs.
\<close>

section \<open>Processors\<close>

codatatype processor = Processor
  (pr_audio: "pcm_frame \<Rightarrow> processor_hint \<times> pcm_frame \<times> processor")
  (pr_video: "video_frame \<Rightarrow> processor_hint \<times> video_frame \<times> processor")

type_synonym processor_chain = "processor list"

definition chain_new :: processor_chain where "chain_new = []"

definition chain_push :: "processor \<Rightarrow> processor_chain \<Rightarrow> processor_chain" where "chain_push p ps = ps @ [p]"

definition chain_len :: "processor_chain \<Rightarrow> nat" where "chain_len ps = length ps"

definition chain_is_empty :: "processor_chain \<Rightarrow> bool" where "chain_is_empty ps = (ps = [])"

fun chain_audio :: "processor_chain \<Rightarrow> pcm_frame \<Rightarrow> processor_hint \<times> pcm_frame \<times> processor_chain" where
  "chain_audio [] frame = (Forward, frame, [])"
| "chain_audio (proc # ps) frame =
    (case pr_audio proc frame of
       (hint, frame1, proc1) \<Rightarrow>
         (case hint of
            Forward \<Rightarrow> (case chain_audio ps frame1 of (h, f, ps1) \<Rightarrow> (h, f, proc1 # ps1))
          | _ \<Rightarrow> (hint, frame1, proc1 # ps)))"

fun chain_video :: "processor_chain \<Rightarrow> video_frame \<Rightarrow> processor_hint \<times> video_frame \<times> processor_chain" where
  "chain_video [] frame = (Forward, frame, [])"
| "chain_video (proc # ps) frame =
    (case pr_video proc frame of
       (hint, frame1, proc1) \<Rightarrow>
         (case hint of
            Forward \<Rightarrow> (case chain_video ps frame1 of (h, f, ps1) \<Rightarrow> (h, f, proc1 # ps1))
          | _ \<Rightarrow> (hint, frame1, proc1 # ps)))"

section \<open>Inbound\<close>

definition JITTER_CAPACITY :: nat where "JITTER_CAPACITY = 128"
definition MAX_LATE_MS :: u32 where "MAX_LATE_MS = 150"

datatype inbound_event = PliReceived

type_synonym 'd decoder = "encoded_audio \<Rightarrow> 'd \<Rightarrow> pcm_frame sea_result \<times> 'd"
type_synonym 'e encoder = "pcm_frame \<Rightarrow> 'e \<Rightarrow> encoded_audio sea_result \<times> 'e"

record 'd inbound_pipeline =
  ib_decoder :: 'd
  ib_jitter :: jitter_buffer
  ib_audio :: "pcm_frame list"
  ib_events :: "inbound_event list"
  ib_poll_count :: nat

definition inbound_new :: "'d \<Rightarrow> 'd inbound_pipeline" where
  "inbound_new decoder = \<lparr>ib_decoder = decoder, ib_jitter = jitter_new JITTER_CAPACITY MAX_LATE_MS, ib_audio = [],
     ib_events = [], ib_poll_count = 0\<rparr>"

definition push_rtp :: "rtp_packet \<Rightarrow> 'd inbound_pipeline \<Rightarrow> 'd inbound_pipeline" where
  "push_rtp packet ib = ib\<lparr>ib_jitter := jitter_push packet (ib_jitter ib)\<rparr>"

definition notify_pli :: "'d inbound_pipeline \<Rightarrow> 'd inbound_pipeline" where
  "notify_pli ib = ib\<lparr>ib_events := ib_events ib @ [PliReceived]\<rparr>"

lemma jitter_poll_shrinks: "jitter_poll jb = (Some pkt, jb') \<Longrightarrow> length (jb_buffer jb') < length (jb_buffer jb)"
proof -
  assume poll: "jitter_poll jb = (Some pkt, jb')"
  have shrinks: "length (bt_remove k m) < length m" if "map_of m k = Some v" for k v and m :: "(u32, rtp_packet) btmap"
    using map_of_SomeD [OF that] by (auto simp: bt_remove_filter intro!: length_filter_less)
  show ?thesis
    using poll shrinks
    by (auto simp: jitter_poll_def Let_def split: option.splits if_splits)
qed

function inbound_drain_loop :: "'d decoder \<Rightarrow> 'd inbound_pipeline \<Rightarrow> nat \<Rightarrow> nat sea_result \<times> 'd inbound_pipeline" where
  "inbound_drain_loop dec ib frames =
    (case jitter_poll (ib_jitter ib) of
       (None, jb) \<Rightarrow> (Inr frames, ib\<lparr>ib_jitter := jb\<rparr>)
     | (Some pkt, jb) \<Rightarrow>
        (if rp_payload_type pkt = PT_AUDIO
         then (case dec (EncodedAudio (rp_payload pkt)) (ib_decoder ib) of
                 (Inl e, d) \<Rightarrow> (Inl e, ib\<lparr>ib_jitter := jb, ib_decoder := d\<rparr>)
               | (Inr frame, d) \<Rightarrow>
                   inbound_drain_loop dec (ib\<lparr>ib_jitter := jb, ib_decoder := d, ib_audio := ib_audio ib @ [frame]\<rparr>) (frames + 1))
         else inbound_drain_loop dec (ib\<lparr>ib_jitter := jb\<rparr>) frames))"
  by pat_completeness auto
termination
  by (relation "measure (\<lambda>(dec, ib, frames). length (jb_buffer (ib_jitter ib)))") (auto dest: jitter_poll_shrinks sym)

declare inbound_drain_loop.simps [simp del]

definition inbound_drain :: "'d decoder \<Rightarrow> 'd inbound_pipeline \<Rightarrow> nat sea_result \<times> 'd inbound_pipeline" where
  \<comment> \<open>\<open>now_ms\<close> goes to \<open>poll\<close>, which ignores it; the statistics are only logged\<close>
  "inbound_drain dec ib0 =
    (case inbound_drain_loop dec ib0 0 of
       (Inl e, ib) \<Rightarrow> (Inl e, ib)
     | (Inr frames, ib) \<Rightarrow> (Inr frames, ib\<lparr>ib_poll_count := ib_poll_count ib + 1\<rparr>))"

datatype inbound_input = IntervalTick | InboundStop

fun inbound_run :: "'d decoder \<Rightarrow> inbound_input list \<Rightarrow> 'd inbound_pipeline \<Rightarrow> unit sea_result option \<times> 'd inbound_pipeline" where
  \<comment> \<open>\<open>None\<close>: still running\<close>
  "inbound_run dec [] ib = (None, ib)"
| "inbound_run dec (InboundStop # _) ib = (Some (Inr ()), ib)"
| "inbound_run dec (IntervalTick # is) ib =
    (case inbound_drain dec ib of
       (Inl e, ib') \<Rightarrow> (Some (Inl e), ib')
     | (Inr _, ib') \<Rightarrow> inbound_run dec is ib')"

section \<open>Outbound\<close>

definition VIDEO_CLOCK_RATE :: u32 where "VIDEO_CLOCK_RATE = 90000"
definition DEFAULT_FPS :: u32 where "DEFAULT_FPS = 30"

record 'e outbound_pipeline =
  ob_encoder :: 'e
  ob_sender :: rtp_sender
  ob_chain :: processor_chain
  ob_events :: "room_event list"
  ob_event_rx :: bool
  ob_audio_ts :: u32
  ob_audio_ts_step :: u32
  ob_video_ts :: u32
  ob_video_ts_step :: u32

definition outbound_new :: "'e \<Rightarrow> rtp_sender \<Rightarrow> u32 \<Rightarrow> u32 \<Rightarrow> 'e outbound_pipeline" where
  \<comment> \<open>the last two arguments are the random first timestamps\<close>
  "outbound_new encoder sender audio_ts video_ts =
    \<lparr>ob_encoder = encoder, ob_sender = sender, ob_chain = chain_new, ob_events = [], ob_event_rx = True,
     ob_audio_ts = audio_ts, ob_audio_ts_step = 960, ob_video_ts = video_ts, ob_video_ts_step = VIDEO_CLOCK_RATE div DEFAULT_FPS\<rparr>"

definition set_audio_timing :: "u32 \<Rightarrow> u32 \<Rightarrow> 'e outbound_pipeline \<Rightarrow> 'e outbound_pipeline" where
  "set_audio_timing sample_rate frame_ms ob = ob\<lparr>ob_audio_ts_step := sample_rate div 1000 * frame_ms\<rparr>"

definition set_video_fps :: "u32 \<Rightarrow> 'e outbound_pipeline \<Rightarrow> 'e outbound_pipeline" where
  "set_video_fps fps ob = (if fps > 0 then ob\<lparr>ob_video_ts_step := VIDEO_CLOCK_RATE div fps\<rparr> else ob)"

definition take_event_rx :: "'e outbound_pipeline \<Rightarrow> bool \<times> 'e outbound_pipeline" where
  "take_event_rx ob = (ob_event_rx ob, ob\<lparr>ob_event_rx := False\<rparr>)"

definition add_processor :: "processor \<Rightarrow> 'e outbound_pipeline \<Rightarrow> 'e outbound_pipeline" where
  "add_processor p ob = ob\<lparr>ob_chain := chain_push p (ob_chain ob)\<rparr>"

definition outbound_send_audio :: "'e encoder \<Rightarrow> pcm_frame \<Rightarrow> 'e outbound_pipeline \<Rightarrow> unit sea_result \<times> 'e outbound_pipeline" where
  "outbound_send_audio enc frame0 ob0 =
    (case chain_audio (ob_chain ob0) frame0 of
       (hint, frame, chain) \<Rightarrow>
         let ob = ob0\<lparr>ob_chain := chain\<rparr> in
         (case hint of
            Drop \<Rightarrow> (Inr (), ob)
          | Emit event \<Rightarrow> (Inr (), ob\<lparr>ob_events := ob_events ob @ [event]\<rparr>)
          | Forward \<Rightarrow>
             (case enc frame (ob_encoder ob) of
                (Inl e, en) \<Rightarrow> (Inl e, ob\<lparr>ob_encoder := en\<rparr>)
              | (Inr encoded, en) \<Rightarrow>
                  (case sender_send_audio (ea_bytes encoded) (ob_audio_ts ob) (ob_sender ob) of
                     (r, s) \<Rightarrow> (r, ob\<lparr>ob_encoder := en, ob_audio_ts := ob_audio_ts ob + ob_audio_ts_step ob, ob_sender := s\<rparr>)))))"

definition outbound_send_video :: "encoded_video \<Rightarrow> 'e outbound_pipeline \<Rightarrow> unit sea_result \<times> 'e outbound_pipeline" where
  "outbound_send_video frame ob =
    (case sender_send_video frame (ob_video_ts ob) (ob_sender ob) of
       (r, s) \<Rightarrow> (r, ob\<lparr>ob_video_ts := ob_video_ts ob + ob_video_ts_step ob, ob_sender := s\<rparr>))"

datatype outbound_input = AudioFrame pcm_frame | AudioLagged nat | AudioClosed | OutboundStop

fun outbound_run :: "'e encoder \<Rightarrow> outbound_input list \<Rightarrow> 'e outbound_pipeline \<Rightarrow> unit sea_result option \<times> 'e outbound_pipeline" where
  "outbound_run enc [] ob = (None, ob)"
| "outbound_run enc (AudioFrame frame # is) ob =
    (case outbound_send_audio enc frame ob of
       (Inl e, ob') \<Rightarrow> (Some (Inl e), ob')
     | (Inr _, ob') \<Rightarrow> outbound_run enc is ob')"
| "outbound_run enc (AudioLagged n # is) ob = outbound_run enc is ob"
| "outbound_run enc (AudioClosed # _) ob = (Some (Inr ()), ob)"
| "outbound_run enc (OutboundStop # _) ob = (Some (Inr ()), ob)"

section \<open>Processors run in order\<close>

text \<open>
  The processors before the first that does not forward run once each, that one decides, and the ones after it
  are untouched.
\<close>

lemma chain_audio_append:
  "chain_audio (ps @ qs) f =
    (case chain_audio ps f of
       (Forward, f1, ps1) \<Rightarrow> (case chain_audio qs f1 of (h, f2, qs1) \<Rightarrow> (h, f2, ps1 @ qs1))
     | (h, f1, ps1) \<Rightarrow> (h, f1, ps1 @ qs))"
  by (induction ps arbitrary: f) (auto split: prod.split processor_hint.split)

section \<open>Reordering\<close>

lemma bt_insert_set: "k \<notin> fst ` set m \<Longrightarrow> set (bt_insert k v m) = insert (k, v) (set m)"
  by (induction m) auto

lemma bt_insert_length: "k \<notin> fst ` set m \<Longrightarrow> length (bt_insert k v m) = Suc (length m)"
  by (induction m) auto

lemma bt_wf_unique: "bt_wf m \<Longrightarrow> bt_wf m' \<Longrightarrow> set m = set m' \<Longrightarrow> m = m'"
proof (induction m arbitrary: m')
  case (Cons e m)
  then obtain e' n where m': "m' = e' # n"
    by (cases m') auto
  have least: "x = e \<or> fst e < fst x" if "x \<in> set (e' # n)" for x
    using Cons.prems that m' by (metis bt_wf_Cons image_eqI set_ConsD)
  have least': "x = e' \<or> fst e' < fst x" if "x \<in> set (e # m)" for x
    using Cons.prems that m' by (metis bt_wf_Cons image_eqI set_ConsD)
  have e: "e' = e"
    using least [of e'] least' [of e] by force
  have "e \<notin> set m" "e \<notin> set n"
    using Cons.prems(1,2) m' e by auto
  then have "set m = set n"
    using Cons.prems(3) m' e by auto
  then show ?case
    using Cons.IH [of n] Cons.prems(1,2) m' e by simp
qed simp

text \<open>The packets of one stream, before the 16-bit sequence number wraps: their keys are their sequence numbers.\<close>

definition seq_key :: "rtp_packet \<Rightarrow> u32" where
  "seq_key p = ucast (rp_sequence_number p)"

definition fresh_stream :: "nat \<Rightarrow> nat \<Rightarrow> jitter_buffer \<Rightarrow> bool" where
  "fresh_stream lo hi jb \<longleftrightarrow> jb_cycles jb = 0 \<and> jb_next_emit jb = None \<and>
     (\<forall>h. jb_high_seq jb = Some h \<longrightarrow> lo \<le> unat h \<and> unat h < hi)"

lemma seq_key_unat: "unat (seq_key p) = unat (rp_sequence_number p)"
  by (simp add: seq_key_def unat_ucast_u16)

lemma unwrap_fresh:
  assumes "fresh_stream lo hi jb" "hi - lo < 32768" "lo \<le> unat s" "unat s < hi"
  shows "fst (unwrap_seq s jb) = ucast s \<and> fresh_stream lo hi (snd (unwrap_seq s jb))"
proof (cases "jb_high_seq jb")
  case (Some h)
  then have h: "lo \<le> unat h" "unat h < hi"
    using assms(1) by (simp_all add: fresh_stream_def)
  show ?thesis
  proof (cases "unat h \<le> unat s")
    case True
    then have "s - h < 0x8000" "\<not> s < h"
      using h assms(2-4) by (simp_all add: less_0x8000_iff unat_sub_u16 word_less_nat_alt)
    then show ?thesis
      using assms Some by (simp add: unwrap_seq_def Let_def fresh_stream_def)
  next
    case False
    then have "\<not> s - h < 0x8000" "\<not> h < s"
      using h assms(2-4) by (simp_all add: less_0x8000_iff unat_sub_u16 word_less_nat_alt)
    then show ?thesis
      using assms Some by (simp add: unwrap_seq_def Let_def fresh_stream_def)
  qed
qed (use assms in \<open>simp add: unwrap_seq_def fresh_stream_def\<close>)

lemma push_fresh:
  assumes jb: "fresh_stream lo hi jb" and r: "hi - lo < 32768" "lo \<le> unat (rp_sequence_number p)" "unat (rp_sequence_number p) < hi"
    and room: "seq_key p \<notin> fst ` set (jb_buffer jb)" "length (jb_buffer jb) < jb_capacity jb"
  shows "fresh_stream lo hi (jitter_push p jb) \<and> jb_capacity (jitter_push p jb) = jb_capacity jb \<and>
    jb_buffer (jitter_push p jb) = bt_insert (seq_key p) p (jb_buffer jb)"
proof -
  obtain u jb1 where u: "unwrap_seq (rp_sequence_number p) jb = (u, jb1)"
    by fastforce
  have f: "u = seq_key p" "fresh_stream lo hi jb1"
    using unwrap_fresh [OF jb r] u by (simp_all add: seq_key_def)
  have fr: "jb_capacity jb1 = jb_capacity jb" "jb_buffer jb1 = jb_buffer jb" "jb_next_emit jb1 = None"
    using unwrap_seq_frame [of "rp_sequence_number p" jb] u f(2) by (simp_all add: fresh_stream_def)
  have "evict_oldest (jb_capacity jb) (bt_insert u p (jb_buffer jb)) = bt_insert u p (jb_buffer jb)"
    using room by (simp add: f evict_oldest_drop bt_insert_length)
  then show ?thesis
    using f fr u by (simp add: jitter_push_def Let_def fresh_stream_def)
qed

lemma push_all_fresh:
  assumes "fresh_stream lo hi jb" "hi - lo < 32768" "\<And>p. p \<in> set ps \<Longrightarrow> lo \<le> unat (rp_sequence_number p) \<and> unat (rp_sequence_number p) < hi"
    and "distinct (map seq_key ps)" "\<And>p. p \<in> set ps \<Longrightarrow> seq_key p \<notin> fst ` set (jb_buffer jb)"
    and "length (jb_buffer jb) + length ps \<le> jb_capacity jb" "bt_wf (jb_buffer jb)"
  shows "set (jb_buffer (fold jitter_push ps jb)) = set (jb_buffer jb) \<union> (\<lambda>p. (seq_key p, p)) ` set ps \<and>
    bt_wf (jb_buffer (fold jitter_push ps jb)) \<and> jb_next_emit (fold jitter_push ps jb) = None"
  using assms
proof (induction ps arbitrary: jb)
  case Nil
  then show ?case
    by (simp add: fresh_stream_def)
next
  case (Cons p ps)
  have p: "fresh_stream lo hi (jitter_push p jb)" "jb_capacity (jitter_push p jb) = jb_capacity jb"
    "jb_buffer (jitter_push p jb) = bt_insert (seq_key p) p (jb_buffer jb)"
    using push_fresh [OF Cons.prems(1,2)] Cons.prems(3) [of p] Cons.prems(5) [of p] Cons.prems(6) by simp_all
  have notin: "seq_key p \<notin> fst ` set (jb_buffer jb)"
    using Cons.prems(5) by simp
  have "seq_key q \<notin> fst ` set (jb_buffer (jitter_push p jb))" if "q \<in> set ps" for q
  proof -
    have "seq_key q \<in> seq_key ` set ps"
      using that by (rule imageI)
    then have "seq_key q \<noteq> seq_key p"
      using Cons.prems(4) by (metis distinct.simps(2) list.set_map list.simps(9))
    then show ?thesis
      using Cons.prems(5) [of q] that by (simp add: p bt_insert_set [OF notin])
  qed
  then show ?case
    using Cons.IH [OF p(1) Cons.prems(2)] Cons.prems p notin by (auto simp: bt_insert_set bt_insert_length)
qed

section \<open>Draining\<close>

lemma drain_loop_audio:
  assumes "jb_inv (ib_jitter ib)" "\<And>k p. (k, p) \<in> set (jb_buffer (ib_jitter ib)) \<Longrightarrow> k \<noteq> -1 \<and> rp_payload_type p = PT_AUDIO \<and>
      dec (EncodedAudio (rp_payload p)) (ib_decoder ib) = (Inr (g p), ib_decoder ib)"
  shows "\<exists>ib'. inbound_drain_loop dec ib frames = (Inr (frames + length (jb_buffer (ib_jitter ib))), ib') \<and>
    ib_audio ib' = ib_audio ib @ map (\<lambda>e. g (snd e)) (jb_buffer (ib_jitter ib)) \<and> jb_buffer (ib_jitter ib') = []"
  using assms
proof (induction "jb_buffer (ib_jitter ib)" arbitrary: ib frames)
  case Nil
  then show ?case
    by (subst inbound_drain_loop.simps) (simp add: jitter_poll_Nil)
next
  case (Cons e rest)
  obtain k p where e: "e = (k, p)"
    by fastforce
  note buf = Cons.hyps(2) [symmetric, unfolded e]
  obtain jb where poll: "jitter_poll (ib_jitter ib) = (Some p, jb)" "jb_buffer jb = rest"
    using jitter_poll_Cons [OF Cons.prems(1) buf refl] by simp
  let ?ib = "ib\<lparr>ib_jitter := jb, ib_decoder := ib_decoder ib, ib_audio := ib_audio ib @ [g p]\<rparr>"
  have p: "rp_payload_type p = PT_AUDIO" "dec (EncodedAudio (rp_payload p)) (ib_decoder ib) = (Inr (g p), ib_decoder ib)" "k \<noteq> -1"
    using Cons.prems(2) [of k p] by (simp_all add: buf)
  have inv: "jb_inv jb"
    using jb_inv_poll [OF Cons.prems(1)] p(3) poll(1) by (simp add: buf bt_first_key_def)
  have step: "inbound_drain_loop dec ib frames = inbound_drain_loop dec ?ib (frames + 1)"
    by (subst inbound_drain_loop.simps) (use poll(1) p in simp)
  have "\<exists>ib'. inbound_drain_loop dec ?ib (frames + 1) = (Inr (frames + 1 + length (jb_buffer (ib_jitter ?ib))), ib') \<and>
      ib_audio ib' = ib_audio ?ib @ map (\<lambda>e. g (snd e)) (jb_buffer (ib_jitter ?ib)) \<and> jb_buffer (ib_jitter ib') = []"
  proof (rule Cons.hyps(1))
    fix k' p' assume "(k', p') \<in> set (jb_buffer (ib_jitter ?ib))"
    then show "k' \<noteq> -1 \<and> rp_payload_type p' = PT_AUDIO \<and> dec (EncodedAudio (rp_payload p')) (ib_decoder ?ib) = (Inr (g p'), ib_decoder ?ib)"
      using Cons.prems(2) [of k' p'] poll(2) by (simp add: buf)
  qed (use poll(2) inv in simp_all)
  then show ?case
    using step poll(2) by (auto simp: buf)
qed

section \<open>From frames to packets to frames\<close>

fun audio_packets :: "u8 list list \<Rightarrow> u32 \<Rightarrow> u32 \<Rightarrow> u32 \<Rightarrow> u16 \<Rightarrow> rtp_packet list" where
  "audio_packets [] ts step ssrc seq = []"
| "audio_packets (b # bs) ts step ssrc seq = new_audio b ts ssrc seq # audio_packets bs (ts + step) step ssrc (seq + 1)"

lemma length_audio_packets [simp]: "length (audio_packets bs ts step ssrc seq) = length bs"
  by (induction bs arbitrary: ts seq) simp_all

lemma audio_packets_nth:
  "i < length bs \<Longrightarrow> audio_packets bs ts step ssrc seq ! i = new_audio (bs ! i) (ts + of_nat i * step) ssrc (seq + of_nat i)"
  by (induction bs arbitrary: ts seq i) (auto simp: nth_Cons algebra_simps split: nat.split)

lemma send_audio_open:
  assumes "ob_chain ob = []" "tx_budget (sd_tx (ob_sender ob)) = None" "enc f (ob_encoder ob) = (Inr b, ob_encoder ob)"
  shows "\<exists>ob'. outbound_send_audio enc f ob = (Inr (), ob') \<and> ob_chain ob' = [] \<and> tx_budget (sd_tx (ob_sender ob')) = None \<and>
    ob_encoder ob' = ob_encoder ob \<and> ob_audio_ts_step ob' = ob_audio_ts_step ob \<and> sd_ssrc (ob_sender ob') = sd_ssrc (ob_sender ob) \<and>
    ob_audio_ts ob' = ob_audio_ts ob + ob_audio_ts_step ob \<and> sd_seq (ob_sender ob') = sd_seq (ob_sender ob) + 1 \<and>
    tx_sent (sd_tx (ob_sender ob')) = tx_sent (sd_tx (ob_sender ob)) @
      [rtp_to_bytes (new_audio (ea_bytes b) (ob_audio_ts ob) (sd_ssrc (ob_sender ob)) (sd_seq (ob_sender ob)))]"
  using assms by (simp add: outbound_send_audio_def sender_send_audio_def next_seq_def send_packet_open)

lemma outbound_run_open:
  assumes "ob_chain ob = []" "tx_budget (sd_tx (ob_sender ob)) = None" "\<And>f. enc f (ob_encoder ob) = (Inr (b f), ob_encoder ob)"
  shows "\<exists>ob'. outbound_run enc (map AudioFrame fs) ob = (None, ob') \<and> tx_sent (sd_tx (ob_sender ob')) = tx_sent (sd_tx (ob_sender ob)) @
    map rtp_to_bytes (audio_packets (map (\<lambda>f. ea_bytes (b f)) fs) (ob_audio_ts ob) (ob_audio_ts_step ob) (sd_ssrc (ob_sender ob)) (sd_seq (ob_sender ob)))"
  using assms
proof (induction fs arbitrary: ob)
  case (Cons f fs)
  from send_audio_open [of ob enc f "b f", OF Cons.prems] obtain ob1 where ob1: "outbound_send_audio enc f ob = (Inr (), ob1)"
    "ob_chain ob1 = []" "tx_budget (sd_tx (ob_sender ob1)) = None" "ob_encoder ob1 = ob_encoder ob"
    "ob_audio_ts_step ob1 = ob_audio_ts_step ob" "sd_ssrc (ob_sender ob1) = sd_ssrc (ob_sender ob)"
    "ob_audio_ts ob1 = ob_audio_ts ob + ob_audio_ts_step ob" "sd_seq (ob_sender ob1) = sd_seq (ob_sender ob) + 1"
    "tx_sent (sd_tx (ob_sender ob1)) = tx_sent (sd_tx (ob_sender ob)) @
      [rtp_to_bytes (new_audio (ea_bytes (b f)) (ob_audio_ts ob) (sd_ssrc (ob_sender ob)) (sd_seq (ob_sender ob)))]"
    by blast
  then show ?case
    using Cons.IH [OF ob1(2,3)] Cons.prems(3) by auto
qed simp

lemma audio_packets_keys:
  assumes "unat seq + length bs \<le> 65536" "i < length bs"
  shows "unat (seq_key (audio_packets bs ts step ssrc seq ! i)) = unat seq + i"
    "unat (rp_sequence_number (audio_packets bs ts step ssrc seq ! i)) = unat seq + i"
proof -
  have "unat (seq + of_nat i :: u16) = unat seq + i"
    using assms by (simp add: unat_word_ariths unat_of_nat_u16 mod_simps)
  then show "unat (seq_key (audio_packets bs ts step ssrc seq ! i)) = unat seq + i"
    "unat (rp_sequence_number (audio_packets bs ts step ssrc seq ! i)) = unat seq + i"
    using assms(2) by (simp_all add: seq_key_unat audio_packets_nth new_audio_def)
qed

lemma jb_inv_fold: "jb_inv jb \<Longrightarrow> jb_inv (fold jitter_push ps jb)"
  by (induction ps arbitrary: jb) (simp_all add: jb_inv_push)

text \<open>However the packets of a stream arrive, the buffer holds them in the order in which they were sent.\<close>

lemma reordered_buffer:
  assumes n: "length bs \<le> capacity" "length bs < 32768" "unat seq + length bs \<le> 65536"
    and perm: "mset ps = mset (audio_packets bs ts step ssrc seq)"
  shows "jb_buffer (fold jitter_push ps (jitter_new capacity max_late)) = map (\<lambda>p. (seq_key p, p)) (audio_packets bs ts step ssrc seq)"
proof -
  let ?qs = "audio_packets bs ts step ssrc seq" and ?jb = "jitter_new capacity max_late"
  have sorted: "sorted_wrt (<) (map seq_key ?qs)"
    using audio_packets_keys(1) [OF n(3)] by (auto simp: sorted_wrt_iff_nth_less word_less_nat_alt)
  then have "distinct (map seq_key ?qs)"
    by (simp add: strict_sorted_iff)
  moreover have "mset (map seq_key ps) = mset (map seq_key ?qs)"
    using perm by simp
  ultimately have dist: "distinct (map seq_key ps)"
    by (metis mset_eq_imp_distinct_iff)
  have members: "set ps = set ?qs" "length ps = length bs"
    using perm mset_eq_setD mset_eq_length length_audio_packets by metis+
  have range: "unat seq \<le> unat (rp_sequence_number p) \<and> unat (rp_sequence_number p) < unat seq + length bs" if "p \<in> set ps" for p
    using that audio_packets_keys(2) [OF n(3)] unfolding members(1) in_set_conv_nth by auto
  have "fresh_stream (unat seq) (unat seq + length bs) ?jb"
    by (simp add: fresh_stream_def jitter_new_def)
  from push_all_fresh [OF this _ range dist]
  have "set (jb_buffer (fold jitter_push ps ?jb)) = (\<lambda>p. (seq_key p, p)) ` set ps" "bt_wf (jb_buffer (fold jitter_push ps ?jb))"
    using n members(2) by (simp_all add: jitter_new_def)
  moreover have "bt_wf (map (\<lambda>p. (seq_key p, p)) ?qs)"
    using sorted by (simp add: bt_wf_def comp_def)
  ultimately show ?thesis
    using members(1) by (intro bt_wf_unique) auto
qed

lemma fold_push_rtp: "fold push_rtp ps ib = ib\<lparr>ib_jitter := fold jitter_push ps (ib_jitter ib)\<rparr>"
  by (induction ps arbitrary: ib) (simp_all add: push_rtp_def)

context lossless_audio
begin

lemma drain_reordered:
  assumes "length fs \<le> JITTER_CAPACITY" "unat seq + length fs \<le> 65536" "\<And>f. encode f = Inr (b f)"
    and "mset ps = mset (audio_packets (map (\<lambda>f. ea_bytes (b f)) fs) ts step ssrc seq)"
  shows "\<exists>ib. inbound_drain (\<lambda>x u. (decode x, u)) (fold push_rtp ps (inbound_new d)) = (Inr (length fs), ib) \<and>
    ib_audio ib = fs \<and> jb_buffer (ib_jitter ib) = []"
proof -
  let ?qs = "audio_packets (map (\<lambda>f. ea_bytes (b f)) fs) ts step ssrc seq" and ?ib = "fold push_rtp ps (inbound_new d)"
  let ?g = "\<lambda>p. projr (decode (EncodedAudio (rp_payload p)))"
  have len: "length fs < 32768"
    using assms(1) by (simp add: JITTER_CAPACITY_def)
  have buf: "jb_buffer (ib_jitter ?ib) = map (\<lambda>p. (seq_key p, p)) ?qs"
    using reordered_buffer [of "map (\<lambda>f. ea_bytes (b f)) fs" JITTER_CAPACITY seq ps ts step ssrc MAX_LATE_MS] assms len
    by (simp add: fold_push_rtp inbound_new_def)
  have nth: "decode (EncodedAudio (rp_payload (?qs ! i))) = Inr (fs ! i)" "rp_payload_type (?qs ! i) = PT_AUDIO"
    if "i < length fs" for i
    using that decode_encode [OF assms(3)] by (simp_all add: audio_packets_nth new_audio_def)
  have keys: "k \<noteq> -1 \<and> rp_payload_type p = PT_AUDIO \<and> (decode (EncodedAudio (rp_payload p)), ib_decoder ?ib) = (Inr (?g p), ib_decoder ?ib)"
    if kp: "(k, p) \<in> set (jb_buffer (ib_jitter ?ib))" for k p
  proof -
    from kp obtain i where i: "i < length fs" "p = ?qs ! i" "k = seq_key p"
      by (auto simp: buf in_set_conv_nth)
    have "unat k < 65536"
      using i(1,2) assms(2) audio_packets_keys(1) [of seq "map (\<lambda>f. ea_bytes (b f)) fs" i ts step ssrc] by (simp add: i(3))
    then have "k \<noteq> -1"
      by (auto simp: unsigned_minus_1_eq_mask mask_eq_exp_minus_1)
    then show ?thesis
      using nth [OF i(1)] by (simp add: i(2))
  qed
  have "jb_inv (ib_jitter ?ib)"
    by (simp add: fold_push_rtp inbound_new_def jb_inv_fold jb_inv_new)
  from drain_loop_audio [where dec = "\<lambda>x u. (decode x, u)" and g = ?g and frames = 0, OF this keys]
  obtain ib where ib: "inbound_drain_loop (\<lambda>x u. (decode x, u)) ?ib 0 = (Inr (length fs), ib)"
    "ib_audio ib = ib_audio ?ib @ map (\<lambda>e. ?g (snd e)) (jb_buffer (ib_jitter ?ib))" "jb_buffer (ib_jitter ib) = []"
    by (auto simp: buf)
  have "map (\<lambda>e. ?g (snd e)) (jb_buffer (ib_jitter ?ib)) = fs"
    using nth(1) by (intro nth_equalityI) (simp_all add: buf)
  then show ?thesis
    using ib by (simp add: inbound_drain_def fold_push_rtp inbound_new_def)
qed

lemma pipeline_lossless:
  assumes ob: "ob_chain ob = []" "tx_budget (sd_tx (ob_sender ob)) = None" "tx_sent (sd_tx (ob_sender ob)) = []"
    and n: "length fs \<le> JITTER_CAPACITY" "unat (sd_seq (ob_sender ob)) + length fs \<le> 65536"
    and run: "outbound_run (\<lambda>f u. (encode f, u)) (map AudioFrame fs) ob = (r, ob')"
    and arrived: "mset (map (\<lambda>p. Ret (Inr p)) ps) = mset (map rtp_from_bytes (tx_sent (sd_tx (ob_sender ob'))))"
  shows "\<exists>ib. inbound_drain (\<lambda>x u. (decode x, u)) (fold push_rtp ps (inbound_new d)) = (Inr (length fs), ib) \<and>
    ib_audio ib = fs \<and> jb_buffer (ib_jitter ib) = []"
proof -
  obtain b where b: "\<And>f. encode f = Inr (b f)"
    using encode_ok by metis
  let ?qs = "audio_packets (map (\<lambda>f. ea_bytes (b f)) fs) (ob_audio_ts ob) (ob_audio_ts_step ob) (sd_ssrc (ob_sender ob)) (sd_seq (ob_sender ob))"
  have sent: "tx_sent (sd_tx (ob_sender ob')) = map rtp_to_bytes ?qs"
  proof -
    have "(encode f, ob_encoder ob) = (Inr (b f), ob_encoder ob)" for f
      by (simp add: b)
    from outbound_run_open [where enc = "\<lambda>f u. (encode f, u)" and b = b and fs = fs, OF ob(1,2) this] show ?thesis
      unfolding run ob(3) prod.inject append_Nil by blast
  qed
  have "rtp_from_bytes (rtp_to_bytes p) = Ret (Inr p)" if "p \<in> set ?qs" for p
    using that by (auto simp: in_set_conv_nth audio_packets_nth new_audio_def rtp_wf_def PT_AUDIO_def intro!: rtp_parse_of_wf)
  then have "map rtp_from_bytes (tx_sent (sd_tx (ob_sender ob'))) = map (\<lambda>p. Ret (Inr p)) ?qs"
    unfolding sent list.map_comp by (intro map_cong refl) (simp only: comp_def)
  then have "image_mset (\<lambda>p. Ret (Inr p) :: rtp_packet sea_result outcome) (mset ps) = image_mset (\<lambda>p. Ret (Inr p)) (mset ?qs)"
    using arrived by (simp only: mset_map)
  then have "mset ps = mset ?qs"
    by (rule multiset.inj_map [THEN injD, rotated]) (simp add: inj_def)
  then show ?thesis
    by (rule drain_reordered [OF n b])
qed

end


definition demo_frames :: "pcm_frame list" where
  "demo_frames = map (\<lambda>n. \<lparr>pf_samples = [n], pf_sample_rate = 48000, pf_channels = 1\<rparr>) [1, 2]"

definition demo_outbound :: "unit outbound_pipeline" where
  "demo_outbound = outbound_new () (sender_new 7 \<lparr>tx_sent = [], tx_budget = None\<rparr>) 0 0"

definition demo_sent :: "u8 list list" where
  "demo_sent = tx_sent (sd_tx (ob_sender (snd (outbound_run (\<lambda>f u. (passthrough_encode f, u)) (map AudioFrame demo_frames) demo_outbound))))"

definition demo_arrived :: "rtp_packet list" where
  "demo_arrived = [new_audio [128, 187, 0, 0, 1, 0, 2, 0, 0, 0] 960 7 1, new_audio [128, 187, 0, 0, 1, 0, 1, 0, 0, 0] 0 7 0]"

lemma demo_arrived_eq: "map (\<lambda>p. Ret (Inr p)) demo_arrived = rev (map rtp_from_bytes demo_sent)"
  by code_simp


end
