(* ===== verification/Pipeline_Connection.thy ===== *)
theory Pipeline_Connection
  imports Str0m_Types Rtcp_Packet Pipeline_Media
begin

text \<open>
  The crate \<open>seameet-pipeline\<close>: the peer connection (\<open>peer_connection.rs\<close>), with its commands, its events and its
  two loops, and the peer that joins it to the pipelines (\<open>peer.rs\<close>).

  What the session answers (\<open>pc_view\<close>) is an argument; the calls the code makes on the session and the socket are
  the values \<open>pc_effect\<close>, and the events it broadcasts are listed in order. A loop takes the list of what its
  \<open>select!\<close> meets, each with the outputs that the drain before it finds.
\<close>

section \<open>The peer connection\<close>

datatype pc_cmd =
    AcceptOffer string nat
  | AddIceCandidate string
  | WriteRtp mid u8 nat u32 bool "u8 list"
  | RequestKeyframeOn mid
  | Shutdown

datatype peer_event =
    RtpReceived rtp_packet nat
  | RtcpReceived rtcp_packet
  | PeerConnected
  | PeerDisconnected
  | LocalIceCandidate string
  | MediaLineAdded mid media_kind
  | KeyframeRequested

datatype answer_reply = AnswerParseError string | AnswerAcceptError string | AnswerOk

datatype offer_reply = OfferParseError string | OfferAcceptError string | OfferAnswer string

record pc_view =
  pv_offer :: "string \<Rightarrow> offer_reply"
  pv_apply :: "(string \<times> nat) option"
  pv_answer :: "string \<Rightarrow> nat \<Rightarrow> answer_reply"
  pv_candidate :: "string \<Rightarrow> string option"
  pv_datagram :: "u8 list \<Rightarrow> string option"
  pv_tx :: "mid \<Rightarrow> bool"
  pv_rx :: "mid \<Rightarrow> bool"
  pv_alive :: bool

datatype pc_effect =
    PcTransmit "u8 list" sockaddr
  | PcReceive sockaddr "u8 list"
  | PcTimeout
  | PcReply nat "string sea_result"
  | PcAddCandidate string
  | PcWriteRtp mid u8 nat u32 bool "u8 list"
  | PcPli mid
  | PcDisconnect
  | PcEmit peer_event

definition pc_accept_offer :: "pc_view \<Rightarrow> string \<Rightarrow> string sea_result" where
  "pc_accept_offer v sdp =
    (case pv_offer v sdp of
       OfferParseError e \<Rightarrow> Inl (Signaling (''parse offer: '' @ e))
     | OfferAcceptError e \<Rightarrow> Inl (Signaling (''accept offer: '' @ e))
     | OfferAnswer answer \<Rightarrow> Inr answer)"

definition pc_create_offer :: "pc_view \<Rightarrow> (string \<times> nat) option sea_result" where
  \<comment> \<open>the offer and the pending state, a number here\<close>
  "pc_create_offer v = Inr (pv_apply v)"

definition pc_set_answer :: "pc_view \<Rightarrow> string \<Rightarrow> nat \<Rightarrow> unit sea_result" where
  "pc_set_answer v sdp pending =
    (case pv_answer v sdp pending of
       AnswerParseError e \<Rightarrow> Inl (Signaling (''parse answer: '' @ e))
     | AnswerAcceptError e \<Rightarrow> Inl (Signaling (''accept answer: '' @ e))
     | AnswerOk \<Rightarrow> Inr ())"

definition pc_add_ice_candidate :: "pc_view \<Rightarrow> string \<Rightarrow> unit sea_result \<times> pc_effect list" where
  \<comment> \<open>\<open>pv_candidate\<close> gives the parse error, if there is one\<close>
  "pc_add_ice_candidate v c =
    (case pv_candidate v c of
       Some e \<Rightarrow> (Inl (PeerConnection (''parse candidate: '' @ e)), [])
     | None \<Rightarrow> (Inr (), [PcAddCandidate c]))"

definition pc_handle_event :: "time \<Rightarrow> rtc_event \<Rightarrow> time option \<Rightarrow> pc_effect list \<times> time option" where
  "pc_handle_event now event last_connected =
    (case event of
       Connected \<Rightarrow> ([PcEmit PeerConnected], Some now)
     | IceConnectionStateChange state \<Rightarrow> (if state = IceDisconnected then [PcEmit PeerDisconnected] else [], last_connected)
     | RtpPacketEvent pkt \<Rightarrow>
        ([PcEmit (RtpReceived
            \<lparr>rp_version = ri_version pkt, rp_padding = ri_has_padding pkt, rp_extension = ri_has_extension pkt, rp_cc = 0,
             rp_marker = ri_marker pkt, rp_payload_type = ri_pt pkt, rp_sequence_number = ri_sequence_number pkt,
             rp_timestamp = ri_timestamp pkt, rp_ssrc = ri_ssrc pkt, rp_csrc = [], rp_payload = ri_payload pkt\<rparr>
            (ri_seq_no pkt))], last_connected)
     | MediaAdded mid kind \<Rightarrow> ([PcEmit (MediaLineAdded mid kind)], last_connected)
     | KeyframeRequestEvent \<Rightarrow> ([PcEmit KeyframeRequested], last_connected)
     | _ \<Rightarrow> ([], last_connected))"

fun pc_drain_outputs :: "time \<Rightarrow> rtc_output list \<Rightarrow> time option \<Rightarrow> pc_effect list \<times> time option \<times> time option" where
  \<comment> \<open>effects, \<open>last_connected\<close>, and the next timeout; the outputs end with the first timeout or error\<close>
  "pc_drain_outputs now [] last_connected = ([], last_connected, None)"
| "pc_drain_outputs now (TimeoutAt t # outs) last_connected = ([], last_connected, Some t)"
| "pc_drain_outputs now (PollError # outs) last_connected = ([], last_connected, None)"
| "pc_drain_outputs now (Transmit data dest # outs) last_connected =
    (case pc_drain_outputs now outs last_connected of (es, r) \<Rightarrow> (PcTransmit data dest # es, r))"
| "pc_drain_outputs now (EventOut event # outs) last_connected =
    (case pc_handle_event now event last_connected of
       (es1, lc) \<Rightarrow> (case pc_drain_outputs now outs lc of (es2, r) \<Rightarrow> (es1 @ es2, r)))"

datatype pc_input =
    Datagram sockaddr "u8 list"
  | SocketError
  | PcCmd pc_cmd
  | PcCmdClosed
  | PcSleepOver
  | PcStop

definition pc_wait :: "time \<Rightarrow> time option \<Rightarrow> time" where
  \<comment> \<open>how long the \<open>select!\<close> sleeps\<close>
  "pc_wait now timeout = (case timeout of Some t \<Rightarrow> (if t > now then t - now else 0) | None \<Rightarrow> 100 * 1000000)"

definition pc_on_datagram :: "pc_view \<Rightarrow> sockaddr \<Rightarrow> u8 list \<Rightarrow> unit sea_result option \<times> pc_effect list" where
  \<comment> \<open>\<open>contents: (&buf[..n]).try_into().map_err(..)?\<close>; \<open>pv_datagram\<close> gives the error of the conversion, if there is one\<close>
  "pc_on_datagram v source data =
    (case pv_datagram v data of
       Some e \<Rightarrow> (Some (Inl (PeerConnection (''receive contents: '' @ e))), [])
     | None \<Rightarrow> (None, [PcReceive source data]))"

definition pc_on_cmd :: "pc_view \<Rightarrow> pc_cmd \<Rightarrow> unit sea_result option \<times> pc_effect list" where
  "pc_on_cmd v cmd =
    (case cmd of
       AcceptOffer sdp reply \<Rightarrow> (None, [PcReply reply (pc_accept_offer v sdp)])
     | AddIceCandidate c \<Rightarrow> (None, snd (pc_add_ice_candidate v c))
     | WriteRtp mid pt seq timestamp marker payload \<Rightarrow>
        (None, if pv_tx v mid then [PcWriteRtp mid pt seq timestamp marker payload] else [])
     | RequestKeyframeOn mid \<Rightarrow> (None, if pv_rx v mid then [PcPli mid] else [])
     | Shutdown \<Rightarrow> (Some (Inr ()), [PcDisconnect]))"

record pc_round =
  pr_view :: pc_view
  pr_now :: time
  pr_outs :: "rtc_output list"
  pr_input :: pc_input

definition pc_select :: "pc_view \<Rightarrow> pc_input \<Rightarrow> unit sea_result option \<times> pc_effect list" where
  "pc_select v input =
    (case input of
       Datagram source data \<Rightarrow> pc_on_datagram v source data
     | SocketError \<Rightarrow> (None, [])
     | PcCmd cmd \<Rightarrow> pc_on_cmd v cmd
     | PcCmdClosed \<Rightarrow> (Some (Inr ()), [PcDisconnect])
     | PcSleepOver \<Rightarrow> (None, [PcTimeout])
     | PcStop \<Rightarrow> (Some (Inr ()), [PcDisconnect]))"

fun run_with_commands :: "pc_round list \<Rightarrow> time option \<Rightarrow> unit sea_result option \<times> pc_effect list" where
  "run_with_commands [] last_connected = (None, [])"
| "run_with_commands (rd # rds) last_connected =
    (case pc_drain_outputs (pr_now rd) (pr_outs rd) last_connected of
       (es, lc, timeout) \<Rightarrow>
         if \<not> pv_alive (pr_view rd) then (Some (Inr ()), es @ [PcEmit PeerDisconnected])
         else case pc_select (pr_view rd) (pr_input rd) of
           (Some r, es1) \<Rightarrow> (Some r, es @ es1)
         | (None, es1) \<Rightarrow> (case run_with_commands rds lc of (r, es2) \<Rightarrow> (r, es @ es1 @ es2)))"

text \<open>\<open>run\<close> is the same loop without the command channel.\<close>

datatype pc_run_input = RunDatagram sockaddr "u8 list" | RunSocketError | RunSleepOver | RunStop

fun pc_run :: "(pc_view \<times> time \<times> rtc_output list \<times> pc_run_input) list \<Rightarrow> time option \<Rightarrow> unit sea_result option \<times> pc_effect list" where
  "pc_run [] last_connected = (None, [])"
| "pc_run ((v, now, outs, input) # rds) last_connected =
    (case pc_drain_outputs now outs last_connected of
       (es, lc, timeout) \<Rightarrow>
         if \<not> pv_alive v then (Some (Inr ()), es @ [PcEmit PeerDisconnected])
         else case (case input of
             RunDatagram source data \<Rightarrow> pc_on_datagram v source data
           | RunSocketError \<Rightarrow> (None, [])
           | RunSleepOver \<Rightarrow> (None, [PcTimeout])
           | RunStop \<Rightarrow> (Some (Inr ()), [PcDisconnect])) of
           (Some r, es1) \<Rightarrow> (Some r, es @ es1)
         | (None, es1) \<Rightarrow> (case pc_run rds lc of (r, es2) \<Rightarrow> (r, es @ es1 @ es2)))"

section \<open>The peer\<close>

record ('d, 'e) peer =
  pe_id :: participant_id
  pe_inbound :: "'d inbound_pipeline"
  pe_outbound :: "'e outbound_pipeline"
  pe_events :: "room_event list"
  pe_screen_tracks :: "(track_id, track_handle) hmap"

definition peer_new :: "participant_id \<Rightarrow> 'd \<Rightarrow> 'e outbound_pipeline \<Rightarrow> ('d, 'e) peer" where
  "peer_new i decoder outbound =
    \<lparr>pe_id = i, pe_inbound = inbound_new decoder, pe_outbound = outbound, pe_events = [], pe_screen_tracks = []\<rparr>"

definition from_peer_connection ::
  "participant_id \<Rightarrow> 'd \<Rightarrow> 'e \<Rightarrow> processor option \<Rightarrow> u32 \<Rightarrow> u32 \<Rightarrow> u32 \<Rightarrow> ('d, 'e) peer" where
  \<comment> \<open>the receiving half of the packet channel is dropped at once, so the channel takes nothing\<close>
  "from_peer_connection i decoder encoder p ssrc audio_ts video_ts =
    (let sender = sender_new ssrc \<lparr>tx_sent = [], tx_budget = Some 0\<rparr>;
         outbound = outbound_new encoder sender audio_ts video_ts in
     peer_new i decoder (case p of Some proc \<Rightarrow> add_processor proc outbound | None \<Rightarrow> outbound))"

definition screen_rx :: "track_id \<Rightarrow> ('d, 'e) peer \<Rightarrow> bool" where
  \<comment> \<open>whether a receiver is returned\<close>
  "screen_rx t pe = hm_contains (pe_screen_tracks pe) t"

definition active_screen_tracks :: "('d, 'e) peer \<Rightarrow> track_id list" where
  "active_screen_tracks pe = hm_keys (pe_screen_tracks pe)"

definition on_screen_share_started ::
  "track_id \<Rightarrow> nat \<Rightarrow> ('d, 'e) peer \<Rightarrow> track_store \<Rightarrow> unit sea_result \<times> ('d, 'e) peer \<times> track_store" where
  "on_screen_share_started t a pe st =
    (let (handle, st') = track_with_kind t Screen a st in
     (Inr (), pe\<lparr>pe_screen_tracks := hm_insert t handle (pe_screen_tracks pe),
                 pe_events := pe_events pe @ [ScreenShareStartedEv (pe_id pe) t]\<rparr>, st'))"

definition on_screen_share_stopped ::
  "track_id \<Rightarrow> ('d, 'e) peer \<Rightarrow> track_store \<Rightarrow> unit sea_result \<times> ('d, 'e) peer \<times> track_store" where
  "on_screen_share_stopped t pe st =
    (let st' = (case hm_get (pe_screen_tracks pe) t of Some handle \<Rightarrow> track_close handle st | None \<Rightarrow> st) in
     (Inr (), pe\<lparr>pe_screen_tracks := hm_remove t (pe_screen_tracks pe),
                 pe_events := pe_events pe @ [ScreenShareStoppedEv (pe_id pe) t]\<rparr>, st'))"

datatype peer_input = PeerEventIn peer_event | PeerLagged nat | PeerEventsClosed | PeerStop

fun run_with_events :: "'d decoder \<Rightarrow> peer_input list \<Rightarrow> ('d, 'e) peer \<Rightarrow> unit sea_result option \<times> ('d, 'e) peer" where
  "run_with_events dec [] pe = (None, pe)"
| "run_with_events dec (PeerEventIn ev # is) pe =
    (case ev of
       RtpReceived packet _ \<Rightarrow>
        run_with_events dec is (pe\<lparr>pe_inbound := snd (inbound_drain dec (push_rtp packet (pe_inbound pe)))\<rparr>)
     | PeerDisconnected \<Rightarrow> (Some (Inr ()), pe)
     | _ \<Rightarrow> run_with_events dec is pe)"
| "run_with_events dec (PeerLagged n # is) pe = run_with_events dec is pe"
| "run_with_events dec (PeerEventsClosed # is) pe = (Some (Inr ()), pe)"
| "run_with_events dec (PeerStop # is) pe = (Some (Inr ()), pe)"

text \<open>
  \<open>run\<close> waits for the stop signal, passes it to both pipelines, and awaits them. The frames the outbound pipeline
  gets are those the inbound one publishes, as far as its receiver keeps up; they are an argument.
\<close>

definition peer_run ::
  "'d decoder \<Rightarrow> 'e encoder \<Rightarrow> inbound_input list \<Rightarrow> outbound_input list \<Rightarrow> ('d, 'e) peer \<Rightarrow>
    unit sea_result \<times> 'd inbound_pipeline \<times> 'e outbound_pipeline" where
  "peer_run dec enc ins outs pe =
    (Inr (), snd (inbound_run dec (ins @ [InboundStop]) (pe_inbound pe)), snd (outbound_run enc (outs @ [OutboundStop]) (pe_outbound pe)))"

section \<open>Properties of the connection\<close>

fun as_pc_input :: "pc_run_input \<Rightarrow> pc_input" where
  "as_pc_input (RunDatagram source data) = Datagram source data"
| "as_pc_input RunSocketError = SocketError"
| "as_pc_input RunSleepOver = PcSleepOver"
| "as_pc_input RunStop = PcStop"

text \<open>
  The two loops of a peer connection agree: \<open>run\<close> behaves as \<open>run_with_commands\<close> on a command channel that
  stays silent, on every outcome, with the same effects and events in the same order.
\<close>

lemma pc_run_commands:
  "pc_run rds lc = run_with_commands (map (\<lambda>(v, now, outs, i). \<lparr>pr_view = v, pr_now = now, pr_outs = outs, pr_input = as_pc_input i\<rparr>) rds) lc"
proof (induction rds lc rule: pc_run.induct)
  case (2 v now outs input rds lc)
  then show ?case
    by (cases input) (auto simp: pc_select_def split: prod.split option.split)
qed simp

text \<open>Both pipelines have ended when \<open>run\<close> returns, whatever they met before the signal.\<close>

lemma peer_run_awaited:
  "fst (inbound_run dec (ins @ [InboundStop]) ib) \<noteq> None" "fst (outbound_run enc (outs @ [OutboundStop]) ob) \<noteq> None"
proof -
  show "fst (inbound_run dec (ins @ [InboundStop]) ib) \<noteq> None"
    by (induction dec ins ib rule: inbound_run.induct) (auto split: prod.splits sum.splits)
  show "fst (outbound_run enc (outs @ [OutboundStop]) ob) \<noteq> None"
    by (induction enc outs ob rule: outbound_run.induct) (auto split: prod.splits sum.splits)
qed

fun session_events :: "rtc_output list \<Rightarrow> rtc_event list" where
  \<comment> \<open>the events before the first timeout or error\<close>
  "session_events [] = []"
| "session_events (EventOut ev # outs) = ev # session_events outs"
| "session_events (Transmit _ _ # outs) = session_events outs"
| "session_events (_ # outs) = []"

fun emitted_events :: "pc_effect list \<Rightarrow> peer_event list" where
  "emitted_events [] = []"
| "emitted_events (PcEmit ev # es) = ev # emitted_events es"
| "emitted_events (_ # es) = emitted_events es"

definition event_of :: "rtc_event \<Rightarrow> peer_event list" where
  "event_of ev = emitted_events (fst (pc_handle_event 0 ev None))"

lemma emitted_append [simp]: "emitted_events (es @ es') = emitted_events es @ emitted_events es'"
  by (induction es rule: emitted_events.induct) simp_all

lemma handle_event_emits: "emitted_events (fst (pc_handle_event now ev lc)) = event_of ev"
  by (cases ev) (simp_all add: event_of_def pc_handle_event_def)

lemma drain_emits: "emitted_events (fst (pc_drain_outputs now outs lc)) = concat (map event_of (session_events outs))"
proof (induction now outs lc rule: pc_drain_outputs.induct)
  case (5 now ev outs lc)
  then show ?case
    using handle_event_emits [of now ev lc] by (auto split: prod.split)
qed (auto split: prod.split)

text \<open>
  A datagram that the session cannot classify ends the whole connection with an error, whoever sent it: no later
  command or packet is served, and \<open>Disconnected\<close> is not announced.
\<close>

lemma garbage_datagram_ends_connection:
  assumes "pv_alive (pr_view rd)" "pr_input rd = Datagram source data" "pv_datagram (pr_view rd) data = Some e"
  shows "run_with_commands (rd # rds) lc =
    (Some (Inl (PeerConnection (''receive contents: '' @ e))), fst (pc_drain_outputs (pr_now rd) (pr_outs rd) lc))"
  using assms by (simp add: pc_select_def pc_on_datagram_def split: prod.split)

text \<open>
  A peer built from a connection cannot send: the receiving half of its packet channel is dropped by the
  constructor, so the first frame that reaches the sender fails.
\<close>

lemma from_peer_connection_cannot_send:
  assumes "enc f encoder = (Inr b, encoder')"
  shows "fst (outbound_send_audio enc f (pe_outbound (from_peer_connection i decoder encoder None ssrc ats vts))) =
    Inl (PeerConnection ''send channel closed'')"
  using assms
  by (simp add: from_peer_connection_def peer_new_def outbound_send_audio_def outbound_new_def chain_new_def sender_send_audio_def
      next_seq_def sender_new_def send_packet_def channel_send_def Let_def split: prod.split)

end
