(* ===== verification/Room_Forwarding.thy ===== *)
theory Room_Forwarding
  imports Pipeline_Connection Sfu_Slots
begin

text \<open>
  \<open>seameet/src/room.rs\<close>, the forwarding task of one participant: it publishes decoded audio, broadcasts what its
  peer sends, and writes what the others send to its own connection, each remote source on media lines of its own.

  The task's \<open>select!\<close> meets a list of inputs; what it sends on its channels is listed in order.
\<close>

section \<open>Source slots\<close>

record forwarded_rtp =
  fw_source :: participant_id
  fw_pt :: u8
  fw_seq_no :: nat
  fw_timestamp :: u32
  fw_marker :: bool
  fw_payload :: "u8 list"
  fw_is_audio :: bool

record room_slot =
  rs_audio_mid :: mid
  rs_video_mid :: mid
  rs_audio_seq :: nat
  rs_video_seq :: nat
  rs_audio_pt :: u8
  rs_video_pt :: u8

type_synonym room_slots = "(participant_id, room_slot) hmap"

definition room_used_mids :: "room_slots \<Rightarrow> mid list" where
  "room_used_mids slots = concat (map (\<lambda>s. [rs_audio_mid s, rs_video_mid s]) (hm_values slots))"

definition room_get_or_create_slot ::
  "participant_id \<Rightarrow> room_slots \<Rightarrow> mids \<Rightarrow> mid option \<Rightarrow> mid option \<Rightarrow> u8 \<Rightarrow> u8 \<Rightarrow> room_slot option \<times> room_slots" where
  "room_get_or_create_slot source_pid slots all_mids own_audio_mid own_video_mid audio_pt video_pt =
    (if hm_contains slots source_pid then (hm_get slots source_pid, slots)
     else
       let used = room_used_mids slots;
           free_audio = List.find (\<lambda>(mid, kind). kind = Audio \<and> Some mid \<noteq> own_audio_mid \<and> mid \<notin> set used) all_mids;
           free_video = List.find (\<lambda>(mid, kind). kind = Video \<and> Some mid \<noteq> own_video_mid \<and> mid \<notin> set used) all_mids in
       case (free_audio, free_video) of
         (Some (a_mid, _), Some (v_mid, _)) \<Rightarrow>
           let slot = \<lparr>rs_audio_mid = a_mid, rs_video_mid = v_mid, rs_audio_seq = 0, rs_video_seq = 0,
                       rs_audio_pt = audio_pt, rs_video_pt = video_pt\<rparr> in
           (Some slot, hm_insert source_pid slot slots)
       | _ \<Rightarrow> (None, slots))"

section \<open>The task\<close>

record fwd_task =
  fd_id :: participant_id
  fd_all_mids :: mids
  fd_own_audio_mid :: "mid option"
  fd_own_video_mid :: "mid option"
  fd_slots :: room_slots

definition fwd_new :: "participant_id \<Rightarrow> fwd_task" where
  "fwd_new i = \<lparr>fd_id = i, fd_all_mids = [], fd_own_audio_mid = None, fd_own_video_mid = None, fd_slots = []\<rparr>"

datatype fwd_effect = PublishAudio pcm_frame | BroadcastRtp forwarded_rtp | SendPcCmd pc_cmd

datatype fwd_input =
    FwdPeerEvent peer_event
  | FwdPeerLagged nat
  | FwdPeerClosed
  | FwdRtp forwarded_rtp
  | FwdRtpLagged nat
  | FwdRtpClosed
  | FwdStop

definition request_own_keyframe :: "fwd_task \<Rightarrow> fwd_effect list" where
  "request_own_keyframe t = (case fd_own_video_mid t of Some mid \<Rightarrow> [SendPcCmd (RequestKeyframeOn mid)] | None \<Rightarrow> [])"

definition fwd_rtp_received :: "rtp_packet \<Rightarrow> nat \<Rightarrow> fwd_task \<Rightarrow> fwd_effect list" where
  "fwd_rtp_received packet seq_no t =
    (let is_audio = (rp_payload_type packet = PT_AUDIO) in
     (if is_audio
      then (case passthrough_decode (EncodedAudio (rp_payload packet)) of Inr frame \<Rightarrow> [PublishAudio frame] | Inl _ \<Rightarrow> [])
      else []) @
     [BroadcastRtp \<lparr>fw_source = fd_id t, fw_pt = rp_payload_type packet, fw_seq_no = seq_no, fw_timestamp = rp_timestamp packet,
        fw_marker = rp_marker packet, fw_payload = rp_payload packet, fw_is_audio = is_audio\<rparr>])"

definition fwd_media_added :: "mid \<Rightarrow> media_kind \<Rightarrow> fwd_task \<Rightarrow> fwd_task" where
  "fwd_media_added mid kind t0 =
    (let t = (if mid \<in> set (map fst (fd_all_mids t0)) then t0 else t0\<lparr>fd_all_mids := fd_all_mids t0 @ [(mid, kind)]\<rparr>) in
     case kind of
       Audio \<Rightarrow> if fd_own_audio_mid t = None then t\<lparr>fd_own_audio_mid := Some mid\<rparr> else t
     | Video \<Rightarrow> if fd_own_video_mid t = None then t\<lparr>fd_own_video_mid := Some mid\<rparr> else t)"

definition fwd_peer_event :: "peer_event \<Rightarrow> fwd_task \<Rightarrow> bool \<times> fwd_effect list \<times> fwd_task" where
  \<comment> \<open>the flag is whether the task goes on\<close>
  "fwd_peer_event ev t =
    (case ev of
       RtpReceived packet seq_no \<Rightarrow> (True, fwd_rtp_received packet seq_no t, t)
     | MediaLineAdded mid kind \<Rightarrow> (True, [], fwd_media_added mid kind t)
     | PeerConnected \<Rightarrow> (True, request_own_keyframe t, t)
     | KeyframeRequested \<Rightarrow> (True, request_own_keyframe t, t)
     | PeerDisconnected \<Rightarrow> (False, [], t)
     | _ \<Rightarrow> (True, [], t))"

definition slot_line :: "forwarded_rtp \<Rightarrow> room_slot \<Rightarrow> mid \<times> nat \<times> u8 \<times> (room_slot \<Rightarrow> room_slot)" where
  "slot_line fwd slot =
    (if fw_is_audio fwd then (rs_audio_mid slot, rs_audio_seq slot, rs_audio_pt slot, \<lambda>s. s\<lparr>rs_audio_seq := rs_audio_seq s + 1\<rparr>)
     else (rs_video_mid slot, rs_video_seq slot, rs_video_pt slot, \<lambda>s. s\<lparr>rs_video_seq := rs_video_seq s + 1\<rparr>))"

definition fwd_from_other :: "forwarded_rtp \<Rightarrow> fwd_task \<Rightarrow> fwd_effect list \<times> fwd_task" where
  "fwd_from_other fwd t0 =
    (let created_new = (\<not> hm_contains (fd_slots t0) (fw_source fwd));
         (found, slots) = room_get_or_create_slot (fw_source fwd) (fd_slots t0) (fd_all_mids t0) (fd_own_audio_mid t0)
           (fd_own_video_mid t0) PT_AUDIO PT_VIDEO;
         (out, t) = (case found of
             Some slot \<Rightarrow>
               (case slot_line fwd slot of
                  (mid, seq, pt, bump) \<Rightarrow>
                    ([SendPcCmd (WriteRtp mid pt seq (fw_timestamp fwd) (fw_marker fwd) (fw_payload fwd))],
                     t0\<lparr>fd_slots := hm_modify (fw_source fwd) bump slots\<rparr>))
           | None \<Rightarrow> ([], t0\<lparr>fd_slots := slots\<rparr>)) in
     (out @ (if created_new \<and> hm_contains (fd_slots t) (fw_source fwd) then request_own_keyframe t else []), t))"

fun run_forwarding_task :: "fwd_input list \<Rightarrow> fwd_task \<Rightarrow> bool \<times> fwd_effect list \<times> fwd_task" where
  \<comment> \<open>the flag is whether the task still runs\<close>
  "run_forwarding_task [] t = (True, [], t)"
| "run_forwarding_task (FwdPeerEvent ev # is) t =
    (case fwd_peer_event ev t of
       (goes_on, out, t1) \<Rightarrow>
         if goes_on then (case run_forwarding_task is t1 of (r, out', t2) \<Rightarrow> (r, out @ out', t2)) else (False, out, t1))"
| "run_forwarding_task (FwdPeerLagged n # is) t = run_forwarding_task is t"
| "run_forwarding_task (FwdPeerClosed # is) t = (False, [], t)"
| "run_forwarding_task (FwdRtp fwd # is) t =
    (if fw_source fwd \<noteq> fd_id t
     then (case fwd_from_other fwd t of
             (out, t1) \<Rightarrow> (case run_forwarding_task is t1 of (r, out', t2) \<Rightarrow> (r, out @ out', t2)))
     else run_forwarding_task is t)"
| "run_forwarding_task (FwdRtpLagged n # is) t = run_forwarding_task is t"
| "run_forwarding_task (FwdRtpClosed # is) t = (False, [], t)"
| "run_forwarding_task (FwdStop # is) t = (False, [], t)"

section \<open>The allocation of the media server\<close>

text \<open>A slot of the room is a slot of the media server without a screen line.\<close>

definition as_sfu_slot :: "room_slot \<Rightarrow> source_slot" where
  "as_sfu_slot s = \<lparr>sl_audio_mid = rs_audio_mid s, sl_video_mid = rs_video_mid s, sl_screen_mid = None,
     sl_audio_tx_seq = rs_audio_seq s, sl_video_tx_seq = rs_video_seq s, sl_screen_tx_seq = 0,
     sl_audio_pt = rs_audio_pt s, sl_video_pt = rs_video_pt s\<rparr>"

definition as_sfu_slots :: "room_slots \<Rightarrow> slots" where
  "as_sfu_slots slots = map (\<lambda>(i, s). (i, as_sfu_slot s)) slots"

definition as_own :: "mid option \<Rightarrow> mid option \<Rightarrow> u8 \<Rightarrow> u8 \<Rightarrow> own_media" where
  "as_own a v ap vp = \<lparr>ow_audio = a, ow_video = v, ow_screen = None, ow_audio_pt = ap, ow_video_pt = vp\<rparr>"

lemma as_sfu_get [simp]: "hm_get (as_sfu_slots slots) i = map_option as_sfu_slot (hm_get slots i)"
  by (simp add: as_sfu_slots_def hm_get_def map_of_map)

lemma as_sfu_insert [simp]: "as_sfu_slots (hm_insert i s slots) = hm_insert i (as_sfu_slot s) (as_sfu_slots slots)"
  by (induction slots) (auto simp: as_sfu_slots_def hm_insert_def)

lemma as_sfu_modify:
  assumes "\<And>s. as_sfu_slot (f s) = g (as_sfu_slot s)"
  shows "as_sfu_slots (hm_modify i f slots) = hm_modify i g (as_sfu_slots slots)"
  using assms by (auto simp: as_sfu_slots_def hm_modify_def)

lemma as_sfu_used [simp]: "used_mids (as_sfu_slots slots) = room_used_mids slots"
  by (simp add: used_mids_def room_used_mids_def as_sfu_slots_def hm_values_def as_sfu_slot_def slot_mids_def o_def case_prod_beta)

lemma slot_mids_as_sfu [simp]: "slot_mids (as_sfu_slot s) = [rs_audio_mid s, rs_video_mid s]"
  by (simp add: slot_mids_def as_sfu_slot_def)

text \<open>
  The two copies of the slot allocation, in \<open>room.rs\<close> and in \<open>media.rs\<close>, are the same function once the media
  server's screen line and its stored sequence numbers are left out.
\<close>

lemma room_slot_as_sfu:
  "get_or_create_slot p (as_sfu_slots slots) all_mids (as_own own_audio own_video audio_pt video_pt) [] False =
    map_prod (map_option as_sfu_slot) as_sfu_slots (room_get_or_create_slot p slots all_mids own_audio own_video audio_pt video_pt)"
proof (cases "hm_get slots p")
  case None
  let ?own = "as_own own_audio own_video audio_pt video_pt"
  have "free_audio_mid all_mids ?own (as_sfu_slots slots) = map_option fst
      (List.find (\<lambda>(mid, kind). kind = Audio \<and> Some mid \<noteq> own_audio \<and> mid \<notin> set (room_used_mids slots)) all_mids)"
    "free_video_mid all_mids ?own (as_sfu_slots slots) = map_option fst
      (List.find (\<lambda>(mid, kind). kind = Video \<and> Some mid \<noteq> own_video \<and> mid \<notin> set (room_used_mids slots)) all_mids)"
    by (simp_all add: free_audio_mid_def free_video_mid_def as_own_def)
  then show ?thesis
    using None by (auto simp: get_or_create_slot_def room_get_or_create_slot_def hm_get_None_iff [symmetric] as_own_def as_sfu_slot_def
      Let_def split: option.splits)
next
  case (Some s)
  then show ?thesis
    by (auto simp: get_or_create_slot_def room_get_or_create_slot_def hm_contains_get)
qed

section \<open>The line of a packet\<close>

definition line_of :: "bool \<Rightarrow> room_slot \<Rightarrow> mid" where
  "line_of audio s = (if audio then rs_audio_mid s else rs_video_mid s)"

definition seq_of :: "bool \<Rightarrow> room_slot \<Rightarrow> nat" where
  "seq_of audio s = (if audio then rs_audio_seq s else rs_video_seq s)"

definition bump_of :: "bool \<Rightarrow> room_slot \<Rightarrow> room_slot" where
  "bump_of audio s = (if audio then s\<lparr>rs_audio_seq := rs_audio_seq s + 1\<rparr> else s\<lparr>rs_video_seq := rs_video_seq s + 1\<rparr>)"

definition pt_of :: "bool \<Rightarrow> room_slot \<Rightarrow> u8" where
  "pt_of audio s = (if audio then rs_audio_pt s else rs_video_pt s)"

lemma slot_line_eq:
  "slot_line f s = (line_of (fw_is_audio f) s, seq_of (fw_is_audio f) s, pt_of (fw_is_audio f) s, bump_of (fw_is_audio f))"
  by (auto simp: slot_line_def line_of_def seq_of_def pt_of_def bump_of_def [abs_def])

lemma bump_of_line [simp]:
  "line_of a (bump_of b s) = line_of a s" "seq_of a (bump_of b s) = (if a = b then seq_of a s + 1 else seq_of a s)"
  by (auto simp: line_of_def seq_of_def bump_of_def)

lemma bump_of_as_sfu:
  "as_sfu_slots (hm_modify p (bump_of audio) slots) = hm_modify p (if audio then bump_audio else bump_video) (as_sfu_slots slots)"
  by (rule as_sfu_modify) (simp add: bump_of_def as_sfu_slot_def bump_audio_def bump_video_def)

section \<open>Lines are never shared\<close>

abbreviation fd_own :: "fwd_task \<Rightarrow> own_media" where
  "fd_own t \<equiv> as_own (fd_own_audio_mid t) (fd_own_video_mid t) PT_AUDIO PT_VIDEO"

definition fwd_inv :: "fwd_task \<Rightarrow> bool" where
  "fwd_inv t \<longleftrightarrow> slots_inv (fd_all_mids t) (fd_own t) (as_sfu_slots (fd_slots t)) \<and>
     (\<forall>m. (m, Audio) \<in> set (fd_all_mids t) \<longrightarrow> fd_own_audio_mid t \<noteq> None) \<and>
     (\<forall>m. (m, Video) \<in> set (fd_all_mids t) \<longrightarrow> fd_own_video_mid t \<noteq> None)"

lemma fwd_inv_new: "fwd_inv (fwd_new i)"
  by (simp add: fwd_inv_def fwd_new_def as_sfu_slots_def slots_inv_empty)

lemma fwd_inv_slot:
  assumes "fwd_inv t" "hm_get (fd_slots t) p = Some s"
  shows "rs_audio_mid s \<noteq> rs_video_mid s" "(rs_audio_mid s, Audio) \<in> set (fd_all_mids t)" "(rs_video_mid s, Video) \<in> set (fd_all_mids t)"
    "fd_own_audio_mid t \<noteq> Some (rs_audio_mid s)" "fd_own_video_mid t \<noteq> Some (rs_video_mid s)"
proof -
  have "slot_ok (fd_all_mids t) (fd_own t) (as_sfu_slot s)"
    using assms slots_inv_ok [of "fd_all_mids t" "fd_own t" "as_sfu_slots (fd_slots t)" p] by (simp add: fwd_inv_def)
  then show "rs_audio_mid s \<noteq> rs_video_mid s" "(rs_audio_mid s, Audio) \<in> set (fd_all_mids t)" "(rs_video_mid s, Video) \<in> set (fd_all_mids t)"
    "fd_own_audio_mid t \<noteq> Some (rs_audio_mid s)" "fd_own_video_mid t \<noteq> Some (rs_video_mid s)"
    by (auto simp: slot_ok_def as_own_def as_sfu_slot_def slot_mids_def)
qed

lemma fwd_inv_lines_disjoint:
  assumes "fwd_inv t" "hm_get (fd_slots t) p = Some s" "hm_get (fd_slots t) q = Some s'" "p \<noteq> q"
  shows "{rs_audio_mid s, rs_video_mid s} \<inter> {rs_audio_mid s', rs_video_mid s'} = {}"
  using assms slots_inv_disj [of "fd_all_mids t" "fd_own t" "as_sfu_slots (fd_slots t)" p "as_sfu_slot s" q "as_sfu_slot s'"]
  by (simp add: fwd_inv_def)

text \<open>An own line is chosen before the first source gets a slot, and further lines do not disturb the slots.\<close>

lemma slots_inv_more_lines:
  assumes "slots_inv all_mids own slots" "mid \<notin> set (map fst all_mids)"
  shows "slots_inv (all_mids @ [(mid, kind)]) own slots"
  using assms by (auto simp: slots_inv_def slot_ok_def)

lemma fwd_inv_no_slot:
  assumes "fwd_inv t" "fd_own_audio_mid t = None \<or> fd_own_video_mid t = None"
  shows "fd_slots t = []"
proof (rule ccontr)
  assume "fd_slots t \<noteq> []"
  then obtain p s where "hm_get (fd_slots t) p = Some s"
    using hm_get_Cons by (metis list.exhaust prod.exhaust)
  then show False
    using fwd_inv_slot [OF assms(1)] assms by (auto simp: fwd_inv_def)
qed

lemma fwd_inv_media_added:
  assumes inv: "fwd_inv t"
  shows "fwd_inv (fwd_media_added mid kind t)"
proof -
  define t' where "t' = (if mid \<in> set (map fst (fd_all_mids t)) then t else t\<lparr>fd_all_mids := fd_all_mids t @ [(mid, kind)]\<rparr>)"
  have sl: "slots_inv (fd_all_mids t') (fd_own t) (as_sfu_slots (fd_slots t))" "fd_slots t' = fd_slots t"
    "fd_own_audio_mid t' = fd_own_audio_mid t" "fd_own_video_mid t' = fd_own_video_mid t"
    using inv slots_inv_more_lines by (auto simp: t'_def fwd_inv_def)
  have mem: "(m, k) \<in> set (fd_all_mids t') \<Longrightarrow> (m, k) \<in> set (fd_all_mids t) \<or> k = kind" for m k
    by (auto simp: t'_def split: if_splits)
  have empty: "slots_inv (fd_all_mids t') own (as_sfu_slots (fd_slots t))" if "fd_own_audio_mid t = None \<or> fd_own_video_mid t = None" for own
    using fwd_inv_no_slot [OF inv that] slots_inv_mids [OF sl(1)] by (simp add: as_sfu_slots_def slots_inv_empty)
  have "fwd_media_added mid kind t = (case kind of
       Audio \<Rightarrow> if fd_own_audio_mid t' = None then t'\<lparr>fd_own_audio_mid := Some mid\<rparr> else t'
     | Video \<Rightarrow> if fd_own_video_mid t' = None then t'\<lparr>fd_own_video_mid := Some mid\<rparr> else t')"
    unfolding fwd_media_added_def t'_def Let_def ..
  then show ?thesis
    using sl empty mem inv by (auto simp: fwd_inv_def split: media_kind.splits) blast+
qed

lemma fwd_inv_slots:
  assumes "fwd_inv t" "slots_inv (fd_all_mids t) (fd_own t) (as_sfu_slots slots)"
  shows "fwd_inv (t\<lparr>fd_slots := slots\<rparr>)"
  using assms by (simp add: fwd_inv_def)

lemma fwd_inv_from_other:
  assumes inv: "fwd_inv t"
  shows "fwd_inv (snd (fwd_from_other f t))"
proof -
  define slots where "slots = snd (room_get_or_create_slot (fw_source f) (fd_slots t) (fd_all_mids t) (fd_own_audio_mid t)
    (fd_own_video_mid t) PT_AUDIO PT_VIDEO)"
  have "slots_inv (fd_all_mids t) (fd_own t) (as_sfu_slots (fd_slots t))"
    using inv by (simp add: fwd_inv_def)
  from slots_inv_get_or_create [OF this, of "fw_source f" "[]" False]
  have ok: "slots_inv (fd_all_mids t) (fd_own t) (as_sfu_slots slots)"
    by (simp add: room_slot_as_sfu slots_def)
  have "slots_inv (fd_all_mids t) (fd_own t) (as_sfu_slots (hm_modify (fw_source f) (bump_of a) slots))" for a
    unfolding bump_of_as_sfu using ok by (rule slots_inv_bump) (simp add: bump_audio_def bump_video_def slot_mids_def)
  then show ?thesis
    using inv ok unfolding fwd_from_other_def Let_def slots_def
    by (auto simp: fwd_inv_slots slot_line_eq split: prod.splits option.splits)
qed

lemma fwd_inv_run: "fwd_inv t \<Longrightarrow> run_forwarding_task is t = (r, out, t') \<Longrightarrow> fwd_inv t'"
proof (induction "is" t arbitrary: r out t' rule: run_forwarding_task.induct)
  case (2 ev "is" t)
  have "fwd_inv (snd (snd (fwd_peer_event ev t)))"
    using 2(2) by (auto simp: fwd_peer_event_def fwd_inv_media_added split: peer_event.splits)
  then show ?case
    using 2 by (auto split: prod.splits if_splits)
next
  case (5 f "is" t)
  then show ?case
    using fwd_inv_from_other [of t f] by (auto split: prod.splits if_splits)
qed auto

section \<open>What a line carries\<close>

fun line_writes :: "mid \<Rightarrow> fwd_effect list \<Rightarrow> (nat \<times> u32 \<times> bool \<times> u8 list) list" where
  "line_writes m [] = []"
| "line_writes m (SendPcCmd (WriteRtp mid pt seq ts marker payload) # out) =
    (if mid = m then (seq, ts, marker, payload) # line_writes m out else line_writes m out)"
| "line_writes m (_ # out) = line_writes m out"

fun media_of :: "participant_id \<Rightarrow> bool \<Rightarrow> fwd_input list \<Rightarrow> forwarded_rtp list" where
  "media_of p audio [] = []"
| "media_of p audio (FwdRtp f # is) =
    (if fw_source f = p \<and> fw_is_audio f = audio then f # media_of p audio is else media_of p audio is)"
| "media_of p audio (_ # is) = media_of p audio is"

fun numbered :: "nat \<Rightarrow> forwarded_rtp list \<Rightarrow> (nat \<times> u32 \<times> bool \<times> u8 list) list" where
  "numbered n [] = []"
| "numbered n (f # fs) = (n, fw_timestamp f, fw_marker f, fw_payload f) # numbered (n + 1) fs"

lemma line_writes_append [simp]: "line_writes m (xs @ ys) = line_writes m xs @ line_writes m ys"
  by (induction m xs rule: line_writes.induct) auto

lemma line_writes_keyframe [simp]: "line_writes m (request_own_keyframe t) = []"
  by (simp add: request_own_keyframe_def split: option.splits)

lemma line_writes_rtp_received [simp]: "line_writes m (fwd_rtp_received packet n t) = []"
  by (simp add: fwd_rtp_received_def Let_def split: sum.splits)

lemma fwd_peer_event_keeps [simp]:
  assumes "fwd_peer_event ev t = (r, out, t')"
  shows "line_writes m out = []" "fd_slots t' = fd_slots t"
  using assms by (auto simp: fwd_peer_event_def fwd_media_added_def Let_def split: peer_event.splits media_kind.splits if_splits)

text \<open>One packet: if its source has a slot afterwards, it is written on the line of its kind with the next number.\<close>

lemma fwd_from_other_cases:
  assumes "fwd_from_other f t = (out, t')"
  obtains (no_slot) "t' = t" "out = []" "hm_get (fd_slots t) (fw_source f) = None"
  | (slot) s where "hm_get (fd_slots t') = (hm_get (fd_slots t))(fw_source f \<mapsto> bump_of (fw_is_audio f) s)"
      "hm_get (fd_slots t) (fw_source f) = Some s \<or> hm_get (fd_slots t) (fw_source f) = None"
      "hm_get (fd_slots t) (fw_source f) = None \<Longrightarrow> seq_of True s = 0 \<and> seq_of False s = 0"
      "\<And>m. line_writes m out =
        (if m = line_of (fw_is_audio f) s
         then [(seq_of (fw_is_audio f) s, fw_timestamp f, fw_marker f, fw_payload f)] else [])"
proof (cases "hm_get (fd_slots t) (fw_source f)")
  case (Some s)
  then have "t' = t\<lparr>fd_slots := hm_modify (fw_source f) (bump_of (fw_is_audio f)) (fd_slots t)\<rparr>"
    and "\<And>m. line_writes m out = (if m = line_of (fw_is_audio f) s
         then [(seq_of (fw_is_audio f) s, fw_timestamp f, fw_marker f, fw_payload f)] else [])"
    using assms by (auto simp: fwd_from_other_def room_get_or_create_slot_def hm_contains_get slot_line_eq Let_def)
  then show ?thesis
    using Some by (intro slot [of s]) auto
next
  case None
  note n = None
  obtain found slots where g: "room_get_or_create_slot (fw_source f) (fd_slots t) (fd_all_mids t) (fd_own_audio_mid t)
      (fd_own_video_mid t) PT_AUDIO PT_VIDEO = (found, slots)"
    by fastforce
  show ?thesis
  proof (cases found)
    case None
    then have "slots = fd_slots t"
      using g n by (auto simp: room_get_or_create_slot_def hm_get_None_iff Let_def split: if_splits option.splits)
    then show ?thesis
      using n None assms g by (intro no_slot) (auto simp: fwd_from_other_def hm_get_None_iff)
  next
    case (Some s)
    then have s: "slots = hm_insert (fw_source f) s (fd_slots t)" "rs_audio_seq s = 0" "rs_video_seq s = 0"
      using g n by (auto simp: room_get_or_create_slot_def hm_get_None_iff Let_def split: if_splits option.splits)
    have "t' = t\<lparr>fd_slots := hm_modify (fw_source f) (bump_of (fw_is_audio f)) slots\<rparr>"
      and "\<And>m. line_writes m out = (if m = line_of (fw_is_audio f) s
         then [(seq_of (fw_is_audio f) s, fw_timestamp f, fw_marker f, fw_payload f)] else [])"
      using assms g Some by (auto simp: fwd_from_other_def slot_line_eq Let_def)
    then show ?thesis
      using n s by (intro slot [of s]) (auto simp: seq_of_def)
  qed
qed

lemma fwd_inv_other_line:
  assumes "fwd_inv t" "hm_get (fd_slots t) p = Some s" "hm_get (fd_slots t) q = Some s'" "(p, a) \<noteq> (q, b)"
  shows "line_of a s \<noteq> line_of b s'"
  using fwd_inv_lines_disjoint [OF assms(1-3)] fwd_inv_slot(1) [OF assms(1,2)] assms by (cases "p = q") (auto simp: line_of_def)

lemma fwd_peer_event_id: "fwd_peer_event ev t = (r, out, t') \<Longrightarrow> fd_id t' = fd_id t"
  by (auto simp: fwd_peer_event_def fwd_media_added_def Let_def split: peer_event.splits media_kind.splits if_splits)

lemma fwd_from_other_id: "fd_id (snd (fwd_from_other f t)) = fd_id t"
  by (auto simp: fwd_from_other_def Let_def split: prod.splits option.splits)

lemma fwd_run_id: "run_forwarding_task is t = (r, out, t') \<Longrightarrow> fd_id t' = fd_id t"
proof (induction "is" t arbitrary: r out t' rule: run_forwarding_task.induct)
  case (2 ev "is" t)
  obtain goes_on out1 t1 where ev: "fwd_peer_event ev t = (goes_on, out1, t1)"
    by (metis prod_cases3)
  show ?case
    using 2 ev fwd_peer_event_id [OF ev] by (auto split: prod.splits if_splits)
next
  case (5 f "is" t)
  obtain out1 t1 where f: "fwd_from_other f t = (out1, t1)"
    by fastforce
  show ?case
  proof (cases "fw_source f = fd_id t")
    case True
    then have "run_forwarding_task is t = (r, out, t')"
      using 5(3) by simp
    then show ?thesis
      using True by (intro 5(2)) auto
  next
    case False
    moreover obtain out2 where run: "run_forwarding_task is t1 = (r, out2, t')"
      using 5(3) False f by (auto split: prod.splits)
    ultimately show ?thesis
      using 5(1) [OF False f [symmetric] run] fwd_from_other_id [of f t] f by simp
  qed
qed auto

lemma fwd_run_append:
  "run_forwarding_task (is1 @ is2) t =
    (case run_forwarding_task is1 t of
       (True, out, t1) \<Rightarrow> (case run_forwarding_task is2 t1 of (r, out', t2) \<Rightarrow> (r, out @ out', t2))
     | (False, out, t1) \<Rightarrow> (False, out, t1))"
  by (induction is1 t rule: run_forwarding_task.induct) (auto split: prod.splits bool.splits)

lemma fwd_line_run:
  assumes "fwd_inv t" "p \<noteq> fd_id t" "hm_get (fd_slots t) p = Some s" "run_forwarding_task is t = (True, out, t')"
  shows "line_writes (line_of audio s) out = numbered (seq_of audio s) (media_of p audio is)"
  using assms
proof (induction "is" t arbitrary: s out t' rule: run_forwarding_task.induct)
  case (2 ev "is" t)
  obtain r out1 t1 where ev: "fwd_peer_event ev t = (r, out1, t1)"
    by (metis prod_cases3)
  have id: "fd_id t1 = fd_id t"
    using fwd_peer_event_id [OF ev] .
  have inv: "fwd_inv t1"
    using 2(2) ev by (auto simp: fwd_peer_event_def fwd_inv_media_added split: peer_event.splits)
  show ?case
    using 2 ev id inv by (auto split: prod.splits if_splits)
next
  case (5 f "is" t)
  show ?case
  proof (cases "fw_source f = fd_id t")
    case False
    obtain out1 t1 where f: "fwd_from_other f t = (out1, t1)"
      by fastforce
    have inv1: "fwd_inv t1"
      using fwd_inv_from_other [OF 5(3), of f] f by simp
    have id: "fd_id t1 = fd_id t"
      using fwd_from_other_id [of f t] f by simp
    obtain out2 where run: "run_forwarding_task is t1 = (True, out2, t')" "out = out1 @ out2"
      using 5(6) False f by (auto split: prod.splits)
    note IH = 5(1) [OF False f [symmetric] inv1 _ _ run(1)]
    from f show ?thesis
    proof (cases rule: fwd_from_other_cases)
      case no_slot
      then show ?thesis
        using IH [of s] 5 run by auto
    next
      case (slot s1)
      show ?thesis
      proof (cases "fw_source f = p")
        case True
        then have "s1 = s" "hm_get (fd_slots t1) p = Some (bump_of (fw_is_audio f) s)"
          using slot 5(5) by auto
        then show ?thesis
          using IH [of "bump_of (fw_is_audio f) s"] slot(4) 5(4) id True run(2)
            fwd_inv_other_line [OF 5(3,5,5), of "fw_is_audio f" audio] by (auto split: if_splits)
      next
        case False
        then have "hm_get (fd_slots t1) p = Some s" "hm_get (fd_slots t1) (fw_source f) = Some (bump_of (fw_is_audio f) s1)"
          using slot 5(5) by auto
        then show ?thesis
          using IH [of s] slot(4) 5(4) id False run(2)
            fwd_inv_other_line [OF inv1, of p s "fw_source f" "bump_of (fw_is_audio f) s1" audio "fw_is_audio f"] by auto
      qed
    qed
  qed (use 5 in auto)
qed auto

text \<open>
  C12: In the forwarding task of a room, once a remote participant has media lines, each of its lines carries exactly
  that participant's packets of that kind, all of them, in the order they were received, numbered
  consecutively from where the line stood; nothing else is written on these lines.
\<close>

theorem forwarding_line_exact:
  assumes "run_forwarding_task is1 (fwd_new i) = (True, out1, t1)" "hm_get (fd_slots t1) p = Some s" "p \<noteq> i"
    and "run_forwarding_task is2 t1 = (True, out2, t2)"
  shows "line_writes (rs_audio_mid s) out2 = numbered (rs_audio_seq s) (media_of p True is2) \<and>
    line_writes (rs_video_mid s) out2 = numbered (rs_video_seq s) (media_of p False is2)"
proof -
  have "fwd_inv t1"
    using fwd_inv_run [OF fwd_inv_new assms(1)] .
  moreover have "p \<noteq> fd_id t1"
    using fwd_run_id [OF assms(1)] assms(3) by (simp add: fwd_new_def)
  ultimately show ?thesis
    using fwd_line_run [OF _ _ assms(2,4), of True] fwd_line_run [OF _ _ assms(2,4), of False] by (simp add: line_of_def seq_of_def)
qed

definition demo_fwd :: "nat \<Rightarrow> bool \<Rightarrow> forwarded_rtp" where
  "demo_fwd n audio = \<lparr>fw_source = ParticipantId 2, fw_pt = PT_AUDIO, fw_seq_no = n, fw_timestamp = of_nat n, fw_marker = False,
     fw_payload = [1], fw_is_audio = audio\<rparr>"

definition demo_lines :: "fwd_input list" where
  "demo_lines = [FwdPeerEvent (MediaLineAdded ''0'' Audio), FwdPeerEvent (MediaLineAdded ''1'' Video),
     FwdPeerEvent (MediaLineAdded ''2'' Audio), FwdPeerEvent (MediaLineAdded ''3'' Video), FwdRtp (demo_fwd 7 True)]"

definition demo_slot :: room_slot where
  "demo_slot = \<lparr>rs_audio_mid = ''2'', rs_video_mid = ''3'', rs_audio_seq = 1, rs_video_seq = 0, rs_audio_pt = PT_AUDIO, rs_video_pt = PT_VIDEO\<rparr>"

lemma demo_lines_run:
  "run_forwarding_task demo_lines (fwd_new (ParticipantId 1)) =
    (True, [SendPcCmd (WriteRtp ''2'' PT_AUDIO 0 7 False [1]), SendPcCmd (RequestKeyframeOn ''1'')],
     \<lparr>fd_id = ParticipantId 1, fd_all_mids = [(''0'', Audio), (''1'', Video), (''2'', Audio), (''3'', Video)],
       fd_own_audio_mid = Some ''0'', fd_own_video_mid = Some ''1'', fd_slots = [(ParticipantId 2, demo_slot)]\<rparr>)"
  by code_simp

theorem forwarding_line_exact_witness:
  "line_writes ''2'' (fst (snd (run_forwarding_task (demo_lines @ [FwdRtp (demo_fwd 8 True), FwdRtp (demo_fwd 9 False)]) (fwd_new (ParticipantId 1))))) =
    [(0, 7, False, [1]), (1, 8, False, [1])]"
proof -
  let ?t = "\<lparr>fd_id = ParticipantId 1, fd_all_mids = [(''0'', Audio), (''1'', Video), (''2'', Audio), (''3'', Video)],
       fd_own_audio_mid = Some ''0'', fd_own_video_mid = Some ''1'', fd_slots = [(ParticipantId 2, demo_slot)]\<rparr>"
  have "fst (run_forwarding_task [FwdRtp (demo_fwd 8 True), FwdRtp (demo_fwd 9 False)] ?t)"
    by code_simp
  then obtain out t where run: "run_forwarding_task [FwdRtp (demo_fwd 8 True), FwdRtp (demo_fwd 9 False)] ?t = (True, out, t)"
    by (metis prod.collapse)
  have "line_writes ''2'' out = [(1, 8, False, [1])]"
    using forwarding_line_exact [OF demo_lines_run _ _ run, of "ParticipantId 2" demo_slot] by (simp add: demo_slot_def demo_fwd_def)
  then show ?thesis
    using run by (simp add: fwd_run_append demo_lines_run)
qed

end
