(* ===== verification/Room_Lifecycle.thy ===== *)
theory Room_Lifecycle
  imports Room_Forwarding
begin

text \<open>
  \<open>seameet/src/room.rs\<close>, the room: participants, their tasks, and the events of the room.

  Every region between two points where other threads may run is a step. The calls of \<open>add_participant\<close> and
  \<open>remove_participant\<close> that run at the same time are numbered; so are the forwarding tasks, by the order in
  which they are spawned. The number of a task stands for the channels created with it.
\<close>

section \<open>Data\<close>

record room_config =
  rc_name :: "string option"
  rc_max_participants :: nat
  rc_ice_servers :: "string list"
  rc_audio_frame_ms :: u32
  rc_video_fps :: u32

definition room_config_default :: room_config where
  "room_config_default = \<lparr>rc_name = None, rc_max_participants = 2 ^ 64 - 1, rc_ice_servers = [], rc_audio_frame_ms = 20, rc_video_fps = 30\<rparr>"

record room_handle =
  rh_participant_id :: participant_id
  rh_task :: nat

record participant_entry =
  pn_handle :: room_handle
  pn_screen_tracks :: "track_id list"

record media_room =
  ro_id :: uuid
  ro_name :: "string option"
  ro_config :: room_config
  ro_participants :: "(participant_id, participant_entry) hmap"
  ro_events :: "room_event list"
  ro_events_taken :: bool

definition room_create :: "room_config \<Rightarrow> uuid \<Rightarrow> media_room" where
  \<comment> \<open>\<open>Uuid::new_v4\<close> gives \<open>i\<close>\<close>
  "room_create config i = \<lparr>ro_id = i, ro_name = rc_name config, ro_config = config, ro_participants = [], ro_events = [],
     ro_events_taken = False\<rparr>"

definition room_emit :: "room_event \<Rightarrow> media_room \<Rightarrow> media_room" where
  "room_emit ev r = r\<lparr>ro_events := ro_events r @ [ev]\<rparr>"

section \<open>Reading\<close>

definition has_participant :: "participant_id \<Rightarrow> media_room \<Rightarrow> bool" where
  "has_participant i r = hm_contains (ro_participants r) i"

definition get_participant :: "participant_id \<Rightarrow> media_room \<Rightarrow> room_handle sea_result" where
  "get_participant i r =
    (case hm_get (ro_participants r) i of Some e \<Rightarrow> Inr (pn_handle e) | None \<Rightarrow> Inl (ParticipantNotFound i))"

definition fetch_participants :: "media_room \<Rightarrow> room_handle list" where
  "fetch_participants r = map pn_handle (hm_values (ro_participants r))"

definition participant_count :: "media_room \<Rightarrow> nat" where
  "participant_count r = hm_len (ro_participants r)"

definition active_screen_shares :: "media_room \<Rightarrow> (participant_id \<times> track_id) list" where
  "active_screen_shares r = concat (map (\<lambda>(pid, e). map (Pair pid) (pn_screen_tracks e)) (ro_participants r))"

definition room_take_events :: "media_room \<Rightarrow> bool \<times> media_room" where
  \<comment> \<open>whether the caller gets the stream of the room's events or an empty one\<close>
  "room_take_events r = (\<not> ro_events_taken r, r\<lparr>ro_events_taken := True\<rparr>)"

section \<open>Handles\<close>

text \<open>
  A command fails when the connection task is gone; a reply fails when that task drops it. What becomes of the
  command is the environment's: \<open>alive\<close> is whether the receiver exists, \<open>reply\<close> what comes back.
\<close>

definition handle_accept_offer :: "bool \<Rightarrow> string sea_result option \<Rightarrow> string sea_result" where
  "handle_accept_offer alive reply =
    (if \<not> alive then Inl (PeerConnection ''peer connection closed'')
     else case reply of None \<Rightarrow> Inl (PeerConnection ''peer connection dropped reply'') | Some r \<Rightarrow> r)"

definition handle_add_ice_candidate :: "bool \<Rightarrow> string \<Rightarrow> sea_error + pc_cmd" where
  "handle_add_ice_candidate alive candidate =
    (if \<not> alive then Inl (PeerConnection ''peer connection closed'') else Inr (AddIceCandidate candidate))"

section \<open>Screen shares\<close>

definition notify_screen_share_started :: "participant_id \<Rightarrow> track_id \<Rightarrow> media_room \<Rightarrow> media_room" where
  "notify_screen_share_started i track r =
    room_emit (ScreenShareStartedEv i track)
      (r\<lparr>ro_participants := hm_modify i (\<lambda>e. e\<lparr>pn_screen_tracks := List.insert track (pn_screen_tracks e)\<rparr>) (ro_participants r)\<rparr>)"

definition notify_screen_share_stopped :: "participant_id \<Rightarrow> track_id \<Rightarrow> media_room \<Rightarrow> media_room" where
  "notify_screen_share_stopped i track r =
    room_emit (ScreenShareStoppedEv i track)
      (r\<lparr>ro_participants := hm_modify i (\<lambda>e. e\<lparr>pn_screen_tracks := removeAll track (pn_screen_tracks e)\<rparr>) (ro_participants r)\<rparr>)"

section \<open>Tasks and calls\<close>

datatype task_pc = Forwarding | Leaving | Removing | TaskEnded

record room_task =
  tk_fwd :: fwd_task
  tk_pc :: task_pc
  tk_stop :: bool

datatype adding = AddIdle | AddBinding participant_id | AddInserting participant_id nat

datatype removing = RemoveIdle | RemoveTaken participant_id | RemoveNotified

record room_sys =
  ry_room :: media_room
  ry_tasks :: "room_task list"
  ry_adders :: "adding list"
  ry_removers :: "removing list"
  ry_full :: "participant_id list"

text \<open>
  \<open>merge_stop\<close>: a task stops when its own signal or that of the room fires. Its own fires too when the only sender, in
  the entry, is dropped.
\<close>

definition stop_task :: "nat \<Rightarrow> room_task list \<Rightarrow> room_task list" where
  "stop_task n ts = (if n < length ts then ts[n := (ts ! n)\<lparr>tk_stop := True\<rparr>] else ts)"

definition drop_entry :: "participant_entry option \<Rightarrow> room_task list \<Rightarrow> room_task list" where
  "drop_entry e ts = (case e of Some en \<Rightarrow> stop_task (rh_task (pn_handle en)) ts | None \<Rightarrow> ts)"

definition merge_stop :: "room_task list \<Rightarrow> room_task list" where
  "merge_stop ts = map (\<lambda>t. t\<lparr>tk_stop := True\<rparr>) ts"

definition add_check :: "nat \<Rightarrow> participant_id \<Rightarrow> room_sys \<Rightarrow> room_sys" where
  "add_check k i y =
    (if hm_len (ro_participants (ry_room y)) \<ge> rc_max_participants (ro_config (ry_room y))
     then y\<lparr>ry_full := i # ry_full y\<rparr>
     else y\<lparr>ry_adders := (ry_adders y)[k := AddBinding i]\<rparr>)"

definition add_spawn :: "nat \<Rightarrow> participant_id \<Rightarrow> room_sys \<Rightarrow> room_sys" where
  "add_spawn k i y =
    y\<lparr>ry_room := room_emit (ParticipantJoined i) (ry_room y),
      ry_tasks := ry_tasks y @ [\<lparr>tk_fwd = fwd_new i, tk_pc = Forwarding, tk_stop = False\<rparr>],
      ry_adders := (ry_adders y)[k := AddInserting i (length (ry_tasks y))]\<rparr>"

definition add_insert :: "nat \<Rightarrow> participant_id \<Rightarrow> nat \<Rightarrow> room_sys \<Rightarrow> room_sys" where
  "add_insert k i n y =
    (let entry = \<lparr>pn_handle = \<lparr>rh_participant_id = i, rh_task = n\<rparr>, pn_screen_tracks = []\<rparr>;
         r = ry_room y in
     y\<lparr>ry_room := r\<lparr>ro_participants := hm_insert i entry (ro_participants r)\<rparr>,
       ry_tasks := drop_entry (hm_get (ro_participants r) i) (ry_tasks y),
       ry_adders := (ry_adders y)[k := AddIdle]\<rparr>)"

definition remove_take :: "nat \<Rightarrow> participant_id \<Rightarrow> room_sys \<Rightarrow> room_sys" where
  "remove_take k i y =
    (let r = ry_room y in
     case hm_get (ro_participants r) i of
       None \<Rightarrow> y
     | Some e \<Rightarrow> y\<lparr>ry_room := r\<lparr>ro_participants := hm_remove i (ro_participants r)\<rparr>, ry_removers := (ry_removers y)[k := RemoveTaken i],
                   ry_tasks := drop_entry (Some e) (ry_tasks y)\<rparr>)"

definition remove_notify :: "nat \<Rightarrow> participant_id \<Rightarrow> room_sys \<Rightarrow> room_sys" where
  "remove_notify k i y = y\<lparr>ry_room := room_emit (ParticipantLeft i) (ry_room y), ry_removers := (ry_removers y)[k := RemoveNotified]\<rparr>"

definition remove_finish :: "nat \<Rightarrow> room_sys \<Rightarrow> room_sys" where
  "remove_finish k y =
    y\<lparr>ry_room := (if ro_participants (ry_room y) = [] then room_emit RoomEmpty (ry_room y) else ry_room y),
      ry_removers := (ry_removers y)[k := RemoveIdle]\<rparr>"

definition room_close :: "duration \<Rightarrow> room_sys \<Rightarrow> room_sys" where
  "room_close elapsed y =
    y\<lparr>ry_tasks := merge_stop (ry_tasks y),
      ry_room := room_emit (RoomEnded (hm_keys (ro_participants (ry_room y))) elapsed) (ry_room y)\<rparr>"

text \<open>The forwarding task, and what follows it in the spawned block.\<close>

definition task_input :: "nat \<Rightarrow> fwd_input \<Rightarrow> room_sys \<Rightarrow> fwd_effect list \<times> room_sys" where
  "task_input n inp y =
    (let t = ry_tasks y ! n in
     if inp = FwdStop \<and> \<not> tk_stop t then ([], y)
     else case run_forwarding_task [inp] (tk_fwd t) of
       (goes_on, out, fwd) \<Rightarrow>
         (out, y\<lparr>ry_tasks := (ry_tasks y)[n := t\<lparr>tk_fwd := fwd, tk_pc := if goes_on then Forwarding else Leaving\<rparr>]\<rparr>))"

definition task_left :: "nat \<Rightarrow> room_sys \<Rightarrow> room_sys" where
  "task_left n y =
    (let t = ry_tasks y ! n in
     y\<lparr>ry_room := room_emit (ParticipantLeft (fd_id (tk_fwd t))) (ry_room y), ry_tasks := (ry_tasks y)[n := t\<lparr>tk_pc := Removing\<rparr>]\<rparr>)"

definition task_removes :: "nat \<Rightarrow> room_sys \<Rightarrow> room_sys" where
  "task_removes n y =
    (let t = ry_tasks y ! n;
         r = ry_room y;
         parts = hm_remove (fd_id (tk_fwd t)) (ro_participants r);
         r' = r\<lparr>ro_participants := parts\<rparr> in
     y\<lparr>ry_room := (if parts = [] then room_emit RoomEmpty r' else r'),
       ry_tasks := drop_entry (hm_get (ro_participants r) (fd_id (tk_fwd t))) ((ry_tasks y)[n := t\<lparr>tk_pc := TaskEnded\<rparr>])\<rparr>)"

section \<open>Steps\<close>

datatype room_move =
    AddCall nat participant_id
  | AddBound nat bool
  | AddFinish nat
  | RemoveCall nat participant_id
  | RemoveAdvance nat
  | TaskInput nat fwd_input
  | TaskAdvance nat
  | CloseRoom duration
  | ShareStarted participant_id track_id
  | ShareStopped participant_id track_id
  | TakeEvents

fun room_move_step :: "room_move \<Rightarrow> room_sys \<Rightarrow> room_sys" where
  \<comment> \<open>\<open>AddBound k False\<close>: the socket or the connection cannot be created, and the call returns the error\<close>
  "room_move_step (AddCall k i) y = (if k < length (ry_adders y) \<and> ry_adders y ! k = AddIdle then add_check k i y else y)"
| "room_move_step (AddBound k ok) y =
    (if k < length (ry_adders y)
     then case ry_adders y ! k of
            AddBinding i \<Rightarrow> if ok then add_spawn k i y else y\<lparr>ry_adders := (ry_adders y)[k := AddIdle]\<rparr>
          | _ \<Rightarrow> y
     else y)"
| "room_move_step (AddFinish k) y =
    (if k < length (ry_adders y) then case ry_adders y ! k of AddInserting i n \<Rightarrow> add_insert k i n y | _ \<Rightarrow> y else y)"
| "room_move_step (RemoveCall k i) y =
    (if k < length (ry_removers y) \<and> ry_removers y ! k = RemoveIdle then remove_take k i y else y)"
| "room_move_step (RemoveAdvance k) y =
    (if k < length (ry_removers y)
     then case ry_removers y ! k of RemoveTaken i \<Rightarrow> remove_notify k i y | RemoveNotified \<Rightarrow> remove_finish k y | _ \<Rightarrow> y
     else y)"
| "room_move_step (TaskInput n inp) y =
    (if n < length (ry_tasks y) \<and> tk_pc (ry_tasks y ! n) = Forwarding then snd (task_input n inp y) else y)"
| "room_move_step (TaskAdvance n) y =
    (if n < length (ry_tasks y)
     then case tk_pc (ry_tasks y ! n) of Leaving \<Rightarrow> task_left n y | Removing \<Rightarrow> task_removes n y | _ \<Rightarrow> y
     else y)"
| "room_move_step (CloseRoom elapsed) y = room_close elapsed y"
| "room_move_step (ShareStarted i track) y = y\<lparr>ry_room := notify_screen_share_started i track (ry_room y)\<rparr>"
| "room_move_step (ShareStopped i track) y = y\<lparr>ry_room := notify_screen_share_stopped i track (ry_room y)\<rparr>"
| "room_move_step TakeEvents y = y\<lparr>ry_room := snd (room_take_events (ry_room y))\<rparr>"

definition room_sys_new :: "room_config \<Rightarrow> uuid \<Rightarrow> nat \<Rightarrow> nat \<Rightarrow> room_sys" where
  "room_sys_new config i adders removers =
    \<lparr>ry_room = room_create config i, ry_tasks = [], ry_adders = replicate adders AddIdle, ry_removers = replicate removers RemoveIdle,
     ry_full = []\<rparr>"

definition room_run :: "room_move list \<Rightarrow> room_sys \<Rightarrow> room_sys" where
  "room_run ms y = fold room_move_step ms y"

section \<open>Capacity\<close>

definition adders_pending :: "room_sys \<Rightarrow> nat" where
  "adders_pending y = length (filter (\<lambda>a. a \<noteq> AddIdle) (ry_adders y))"

abbreviation ry_participants :: "room_sys \<Rightarrow> (participant_id, participant_entry) hmap" where
  "ry_participants y \<equiv> ro_participants (ry_room y)"

abbreviation ry_max :: "room_sys \<Rightarrow> nat" where
  "ry_max y \<equiv> rc_max_participants (ro_config (ry_room y))"

lemma length_filter_update:
  "i < length xs \<Longrightarrow> length (filter P (xs[i := x])) + of_bool (P (xs ! i)) = length (filter P xs) + of_bool (P x)"
proof (induction xs arbitrary: i)
  case (Cons a xs)
  then show ?case
    using Cons.IH [of "i - 1"] by (cases i) auto
qed simp

lemmas pending_update = length_filter_update [where P = "\<lambda>a. a \<noteq> AddIdle"]

lemma room_emit_simps [simp]:
  "ro_participants (room_emit ev r) = ro_participants r" "ro_config (room_emit ev r) = ro_config r"
  "ro_events (room_emit ev r) = ro_events r @ [ev]"
  by (simp_all add: room_emit_def)

lemmas room_move_defs = add_check_def add_spawn_def add_insert_def remove_take_def remove_notify_def remove_finish_def room_close_def
  task_input_def task_left_def task_removes_def notify_screen_share_started_def notify_screen_share_stopped_def room_take_events_def

definition room_cap_inv :: "nat \<Rightarrow> nat \<Rightarrow> room_sys \<Rightarrow> bool" where
  "room_cap_inv cap n y \<longleftrightarrow> hm_wf (ry_participants y) \<and> ry_max y = cap \<and> length (ry_adders y) = n \<and>
     hm_len (ry_participants y) + adders_pending y \<le> cap + n - 1"

lemma adders_pending_less:
  assumes "k < length (ry_adders y)" "ry_adders y ! k = AddIdle"
  shows "adders_pending y < length (ry_adders y)"
  unfolding adders_pending_def by (rule length_filter_less [where x = "ry_adders y ! k"]) (use assms nth_mem [OF assms(1)] in simp_all)

lemma room_cap_inv_step:
  assumes "room_cap_inv cap n y"
  shows "room_cap_inv cap n (room_move_step m y)"
proof (cases m)
  case (AddCall k i)
  then show ?thesis
    using assms adders_pending_less [of k y] pending_update [of k "ry_adders y" "AddBinding i"]
    by (auto simp: room_cap_inv_def add_check_def adders_pending_def)
next
  case (AddBound k ok)
  show ?thesis
  proof (cases "k < length (ry_adders y) \<and> (\<exists>i. ry_adders y ! k = AddBinding i)")
    case True
    then obtain i where i: "k < length (ry_adders y)" "ry_adders y ! k = AddBinding i"
      by blast
    then show ?thesis
      using assms AddBound pending_update [OF i(1), of AddIdle] pending_update [OF i(1), of "AddInserting i (length (ry_tasks y))"]
      by (simp add: room_cap_inv_def add_spawn_def adders_pending_def)
  qed (use assms AddBound in \<open>auto split: adding.splits\<close>)
next
  case (AddFinish k)
  show ?thesis
  proof (cases "k < length (ry_adders y) \<and> (\<exists>i j. ry_adders y ! k = AddInserting i j)")
    case True
    then obtain i j where i: "k < length (ry_adders y)" "ry_adders y ! k = AddInserting i j"
      by blast
    then show ?thesis
      using assms AddFinish pending_update [OF i(1), of AddIdle]
        hm.len_ins_le [of "ry_participants y" i "\<lparr>pn_handle = \<lparr>rh_participant_id = i, rh_task = j\<rparr>, pn_screen_tracks = []\<rparr>"]
      by (simp add: room_cap_inv_def add_insert_def adders_pending_def Let_def)
  qed (use assms AddFinish in \<open>auto split: adding.splits\<close>)
next
  case (RemoveCall k i)
  then show ?thesis
    using assms hm.len_del_le [of "ry_participants y" i]
    by (auto simp: room_cap_inv_def remove_take_def adders_pending_def Let_def split: option.splits)
next
  case (RemoveAdvance k)
  then show ?thesis
    using assms by (auto simp: room_cap_inv_def remove_notify_def remove_finish_def adders_pending_def split: removing.splits)
next
  case (TaskInput j inp)
  then show ?thesis
    using assms by (auto simp: room_cap_inv_def task_input_def adders_pending_def Let_def split: prod.splits)
next
  case (TaskAdvance j)
  then show ?thesis
    using assms hm.len_del_le [of "ry_participants y" "fd_id (tk_fwd (ry_tasks y ! j))"]
    by (auto simp: room_cap_inv_def task_left_def task_removes_def adders_pending_def Let_def split: task_pc.splits)
qed (use assms in \<open>simp_all add: room_cap_inv_def room_close_def notify_screen_share_started_def notify_screen_share_stopped_def
    room_take_events_def adders_pending_def\<close>)

lemma room_cap_inv_run: "room_cap_inv cap n y \<Longrightarrow> room_cap_inv cap n (room_run ms y)"
  unfolding room_run_def by (induction ms arbitrary: y) (simp_all add: room_cap_inv_step)

lemma room_cap_inv_new: "room_cap_inv (rc_max_participants config) n (room_sys_new config i n m)"
  by (simp add: room_cap_inv_def room_sys_new_def room_create_def adders_pending_def hm_len_def)

text \<open>
  C24: With \<open>n\<close> calls of \<open>add_participant\<close> at a time, a room never holds more than \<open>max_participants + n - 1\<close>
  participants, whatever else happens; with one caller the limit is exact.
\<close>

theorem room_capacity:
  "hm_len (ro_participants (ry_room (room_run ms (room_sys_new config i n m)))) \<le> rc_max_participants config + n - 1"
  using room_cap_inv_run [OF room_cap_inv_new [of config n i m], of ms] by (simp add: room_cap_inv_def)

definition demo_config :: room_config where
  "demo_config = \<lparr>rc_name = None, rc_max_participants = 1, rc_ice_servers = [], rc_audio_frame_ms = 20, rc_video_fps = 30\<rparr>"

text \<open>The bound is reached: the check and the insertion are two regions.\<close>

lemma room_capacity_reached:
  "participant_count (ry_room (room_run [AddCall 0 (ParticipantId 1), AddCall 1 (ParticipantId 2), AddBound 0 True, AddBound 1 True,
     AddFinish 0, AddFinish 1] (room_sys_new demo_config 7 2 0))) = 2"
  by code_simp

section \<open>Events\<close>

definition joined_sent :: "participant_id \<Rightarrow> room_sys \<Rightarrow> nat" where
  "joined_sent p y = length (filter (\<lambda>e. e = ParticipantJoined p) (ro_events (ry_room y)))"

definition left_sent :: "participant_id \<Rightarrow> room_sys \<Rightarrow> nat" where
  "left_sent p y = length (filter (\<lambda>e. e = ParticipantLeft p) (ro_events (ry_room y)))"

definition task_of :: "participant_id \<Rightarrow> room_task \<Rightarrow> bool" where
  "task_of p t \<longleftrightarrow> fd_id (tk_fwd t) = p \<and> (tk_pc t = Forwarding \<or> tk_pc t = Leaving)"

definition inserting_of :: "participant_id \<Rightarrow> adding \<Rightarrow> bool" where
  "inserting_of p a \<longleftrightarrow> (case a of AddInserting q _ \<Rightarrow> q = p | _ \<Rightarrow> False)"

text \<open>What can still send \<open>ParticipantLeft p\<close>: a task, an entry and the calls that bring or took one.\<close>

definition left_owed :: "participant_id \<Rightarrow> room_sys \<Rightarrow> nat" where
  "left_owed p y = length (filter (task_of p) (ry_tasks y)) + of_bool (hm_get (ry_participants y) p \<noteq> None) +
     length (filter (inserting_of p) (ry_adders y)) + length (filter (\<lambda>a. a = RemoveTaken p) (ry_removers y))"

lemma task_of_stop [simp]: "length (filter (task_of p) (stop_task n ts)) = length (filter (task_of p) ts)"
proof (cases "n < length ts")
  case True
  then show ?thesis
    using length_filter_update [OF True, where P = "task_of p" and x = "(ts ! n)\<lparr>tk_stop := True\<rparr>"]
    by (simp add: stop_task_def) (simp add: task_of_def)
qed (simp add: stop_task_def)

lemma task_of_drop [simp]: "length (filter (task_of p) (drop_entry e ts)) = length (filter (task_of p) ts)"
  by (simp add: drop_entry_def split: option.splits)

lemma task_of_merge [simp]: "length (filter (task_of p) (merge_stop ts)) = length (filter (task_of p) ts)"
  by (induction ts) (simp_all add: merge_stop_def task_of_def)

definition room_left_inv :: "participant_id \<Rightarrow> room_sys \<Rightarrow> bool" where
  "room_left_inv p y \<longleftrightarrow> left_sent p y + left_owed p y \<le> 2 * joined_sent p y"

lemmas room_left_defs = room_left_inv_def left_sent_def joined_sent_def left_owed_def

lemma room_left_inv_task:
  assumes "room_left_inv p y" "n < length (ry_tasks y)" "task_of p t \<longrightarrow> task_of p (ry_tasks y ! n)"
  shows "room_left_inv p (y\<lparr>ry_tasks := (ry_tasks y)[n := t]\<rparr>)"
  using assms length_filter_update [OF assms(2), where P = "task_of p" and x = t]
  by (auto simp: room_left_defs of_bool_def split: if_splits)

lemma room_left_inv_add:
  assumes "room_left_inv p y" "k < length (ry_adders y)"
  shows "ry_adders y ! k = AddIdle \<Longrightarrow> room_left_inv p (add_check k i y)"
    "ry_adders y ! k = AddBinding i \<Longrightarrow> room_left_inv p (add_spawn k i y)"
    "ry_adders y ! k = AddBinding i \<Longrightarrow> room_left_inv p (y\<lparr>ry_adders := (ry_adders y)[k := AddIdle]\<rparr>)"
    "ry_adders y ! k = AddInserting i n \<Longrightarrow> room_left_inv p (add_insert k i n y)"
proof -
  note upd = length_filter_update [OF assms(2), where P = "inserting_of p"]
  show "ry_adders y ! k = AddIdle \<Longrightarrow> room_left_inv p (add_check k i y)"
    using assms(1) upd [of "AddBinding i"] by (auto simp: room_left_defs of_bool_def add_check_def inserting_of_def split: if_splits)
  show "ry_adders y ! k = AddBinding i \<Longrightarrow> room_left_inv p (add_spawn k i y)"
    using assms(1) upd [of "AddInserting i (length (ry_tasks y))"]
    by (auto simp: room_left_defs of_bool_def add_spawn_def inserting_of_def task_of_def fwd_new_def split: if_splits)
  show "ry_adders y ! k = AddBinding i \<Longrightarrow> room_left_inv p (y\<lparr>ry_adders := (ry_adders y)[k := AddIdle]\<rparr>)"
    using assms(1) upd [of AddIdle] by (auto simp: room_left_defs of_bool_def inserting_of_def split: if_splits)
  show "ry_adders y ! k = AddInserting i n \<Longrightarrow> room_left_inv p (add_insert k i n y)"
    using assms(1) upd [of AddIdle] by (auto simp: room_left_defs of_bool_def add_insert_def inserting_of_def Let_def split: if_splits)
qed

lemma room_left_inv_remove:
  assumes "room_left_inv p y" "k < length (ry_removers y)"
  shows "ry_removers y ! k = RemoveIdle \<Longrightarrow> room_left_inv p (remove_take k i y)"
    "ry_removers y ! k = RemoveTaken i \<Longrightarrow> room_left_inv p (remove_notify k i y)"
    "ry_removers y ! k = RemoveNotified \<Longrightarrow> room_left_inv p (remove_finish k y)"
proof -
  note upd = length_filter_update [OF assms(2), where P = "\<lambda>a. a = RemoveTaken p"]
  show "ry_removers y ! k = RemoveIdle \<Longrightarrow> room_left_inv p (remove_take k i y)"
    using assms(1) upd [of "RemoveTaken i"] by (auto simp: room_left_defs of_bool_def remove_take_def Let_def split: if_splits option.splits)
  show "ry_removers y ! k = RemoveTaken i \<Longrightarrow> room_left_inv p (remove_notify k i y)"
    using assms(1) upd [of RemoveNotified] by (auto simp: room_left_defs of_bool_def remove_notify_def split: if_splits)
  show "ry_removers y ! k = RemoveNotified \<Longrightarrow> room_left_inv p (remove_finish k y)"
    using assms(1) upd [of RemoveIdle] by (auto simp: room_left_defs of_bool_def remove_finish_def)
qed

lemma room_left_inv_left:
  assumes "room_left_inv p y" "n < length (ry_tasks y)" "tk_pc (ry_tasks y ! n) = Leaving"
  shows "room_left_inv p (task_left n y)"
  using assms length_filter_update [OF assms(2), where P = "task_of p" and x = "(ry_tasks y ! n)\<lparr>tk_pc := Removing\<rparr>"]
  by (auto simp: room_left_defs of_bool_def task_left_def task_of_def Let_def split: if_splits)

lemma room_left_inv_removes:
  assumes "room_left_inv p y" "n < length (ry_tasks y)" "tk_pc (ry_tasks y ! n) = Removing"
  shows "room_left_inv p (task_removes n y)"
  using assms length_filter_update [OF assms(2), where P = "task_of p" and x = "(ry_tasks y ! n)\<lparr>tk_pc := TaskEnded\<rparr>"]
  by (auto simp: room_left_defs of_bool_def task_removes_def task_of_def Let_def split: if_splits)

lemma room_left_inv_step:
  assumes inv: "room_left_inv p y"
  shows "room_left_inv p (room_move_step m y)"
proof (cases m)
  case (TaskInput n inp)
  show ?thesis
  proof (cases "n < length (ry_tasks y) \<and> tk_pc (ry_tasks y ! n) = Forwarding \<and> (inp = FwdStop \<longrightarrow> tk_stop (ry_tasks y ! n))")
    case True
    obtain goes_on out fwd where run: "run_forwarding_task [inp] (tk_fwd (ry_tasks y ! n)) = (goes_on, out, fwd)"
      by (metis prod_cases3)
    have "room_left_inv p (y\<lparr>ry_tasks := (ry_tasks y)[n := (ry_tasks y ! n)\<lparr>tk_fwd := fwd, tk_pc := if goes_on then Forwarding else Leaving\<rparr>]\<rparr>)"
      using inv True fwd_run_id [OF run] by (intro room_left_inv_task) (auto simp: task_of_def)
    then show ?thesis
      using TaskInput True run by (auto simp: task_input_def Let_def)
  qed (use inv TaskInput in \<open>auto simp: task_input_def\<close>)
qed (use inv in \<open>auto simp: room_left_inv_add room_left_inv_remove room_left_inv_left room_left_inv_removes
    split: adding.splits removing.splits task_pc.splits\<close>,
  use inv in \<open>auto simp: room_left_defs room_close_def notify_screen_share_started_def notify_screen_share_stopped_def room_take_events_def\<close>)

lemma room_left_inv_run: "room_left_inv p y \<Longrightarrow> room_left_inv p (room_run ms y)"
  unfolding room_run_def by (induction ms arbitrary: y) (simp_all add: room_left_inv_step)

text \<open>
  C25: However the calls and tasks of a room interleave, nobody leaves who has not joined, and every join is answered
  by at most two \<open>ParticipantLeft\<close>: one of the removal, one of the task.
\<close>

theorem room_left_events:
  "left_sent p (room_run ms (room_sys_new config i n m)) \<le> 2 * joined_sent p (room_run ms (room_sys_new config i n m))"
proof -
  have "room_left_inv p (room_sys_new config i n m)"
    by (simp add: room_left_defs room_sys_new_def room_create_def inserting_of_def)
  from room_left_inv_run [OF this, of ms] show ?thesis
    by (simp add: room_left_inv_def)
qed

text \<open>Both are sent when a participant is removed: the removal stops the task, and the task reports the same again.\<close>

definition demo_added :: room_sys where
  "demo_added = room_run [AddCall 0 (ParticipantId 1), AddBound 0 True, AddFinish 0] (room_sys_new (demo_config\<lparr>rc_max_participants := 5\<rparr>) 7 1 1)"

lemma removal_reported_twice:
  "ro_events (ry_room (room_run [RemoveCall 0 (ParticipantId 1), RemoveAdvance 0, RemoveAdvance 0, TaskInput 0 FwdStop, TaskAdvance 0, TaskAdvance 0] demo_added)) =
    [ParticipantJoined (ParticipantId 1), ParticipantLeft (ParticipantId 1), RoomEmpty, ParticipantLeft (ParticipantId 1), RoomEmpty]"
  by code_simp

text \<open>
  Adding an identifier that is present replaces the entry; the dropped entry stops the old task, and that task removes
  the entry of the new one.
\<close>

lemma readded_participant_removed:
  "let y = room_run [AddCall 0 (ParticipantId 1), AddBound 0 True, AddFinish 0] demo_added;
       z = room_run [TaskInput 0 FwdStop, TaskAdvance 0, TaskAdvance 0] y in
   get_participant (ParticipantId 1) (ry_room y) = Inr \<lparr>rh_participant_id = ParticipantId 1, rh_task = 1\<rparr> \<and>
   get_participant (ParticipantId 1) (ry_room z) = Inl (ParticipantNotFound (ParticipantId 1)) \<and> tk_stop (ry_tasks z ! 1)"
  by code_simp

end
