(* ===== verification/Signaling_Transport.thy ===== *)
theory Signaling_Transport
  imports Signaling_Connection
begin

text \<open>
  The transports of the signaling crate: the WebSocket client \<open>ws.rs\<close>, the listener \<open>ws_listener.rs\<close>, and
  \<open>room_server.rs\<close>, which runs the engine behind it.

  The crate \<open>tokio-tungstenite\<close> is seen through what its calls return, in order: the results of connection attempts,
  and the frames or the silence that a read meets. A \<open>Duration\<close> is a number of nanoseconds; its product with a
  \<open>u32\<close> panics when the seconds do not fit 64 bits.
\<close>

section \<open>The client\<close>

record ws_signaling_config =
  wc_recv_timeout :: duration
  wc_max_reconnect_attempts :: u32
  wc_base_backoff :: duration

definition ws_config_default :: ws_signaling_config where
  "ws_config_default = \<lparr>wc_recv_timeout = 30 * 10 ^ 9, wc_max_reconnect_attempts = 3, wc_base_backoff = 10 ^ 9\<rparr>"

definition duration_mul :: "duration \<Rightarrow> u32 \<Rightarrow> duration outcome" where
  "duration_mul d k = (if d * unat k < 2 ^ 64 * 10 ^ 9 then Ret (d * unat k) else Panic)"

definition connect_failed_msg :: "u32 \<Rightarrow> string \<Rightarrow> string" where
  "connect_failed_msg n e = ''failed to connect after '' @ show_nat (unat n) @ '' attempts: '' @ e"

text \<open>
  \<open>connect_ws\<close> on the results of the attempts: what it returns (\<open>None\<close> while it still waits for an attempt) and
  the delays it slept.
\<close>

fun connect_ws ::
  "ws_signaling_config \<Rightarrow> u32 \<Rightarrow> (string + 'ws) list \<Rightarrow> 'ws sea_result outcome option \<times> duration list" where
  "connect_ws config attempt [] = (None, [])"
| "connect_ws config attempt (Inr ws # rs) = (Some (Ret (Inr ws)), [])"
| "connect_ws config attempt (Inl e # rs) =
    (let attempt' = attempt + 1 in
     if attempt' > wc_max_reconnect_attempts config
     then (Some (Ret (Inl (Signaling (connect_failed_msg (wc_max_reconnect_attempts config) e)))), [])
     else case duration_mul (wc_base_backoff config) (2 ^ unat (attempt' - 1)) of
            Panic \<Rightarrow> (Some Panic, [])
          | Ret delay \<Rightarrow> (case connect_ws config attempt' rs of (r, ds) \<Rightarrow> (r, delay # ds)))"

datatype ws_frame = TextFrame string | PingFrame "u8 list" | PongFrame "u8 list" | BinaryFrame "u8 list" | CloseFrame

datatype ws_read = ReadTimeout | ReadEnd | ReadError string | ReadFrame ws_frame

text \<open>
  The receive loop: what it returns, the \<open>Pong\<close> frames it sent, and what is left to read. The JSON decoder \<open>de\<close> gives a
  message or the text of its error.
\<close>

fun ws_recv ::
  "(string \<Rightarrow> string + sdp_message) \<Rightarrow> ws_read list \<Rightarrow> sdp_message sea_result option \<times> ws_frame list \<times> ws_read list" where
  "ws_recv de [] = (None, [], [])"
| "ws_recv de (ReadTimeout # rs) = (Some (Inl (Signaling ''recv timed out'')), [], rs)"
| "ws_recv de (ReadEnd # rs) = (Some (Inl (Signaling ''connection closed'')), [], rs)"
| "ws_recv de (ReadError e # rs) = (Some (Inl (Signaling (''recv error: '' @ e))), [], rs)"
| "ws_recv de (ReadFrame (TextFrame text) # rs) =
    (Some (case de text of Inr sdp \<Rightarrow> Inr sdp | Inl e \<Rightarrow> Inl (Signaling (''deserialize error: '' @ e))), [], rs)"
| "ws_recv de (ReadFrame (PingFrame payload) # rs) = (case ws_recv de rs of (r, sent, rest) \<Rightarrow> (r, PongFrame payload # sent, rest))"
| "ws_recv de (ReadFrame (PongFrame payload) # rs) = ws_recv de rs"
| "ws_recv de (ReadFrame CloseFrame # rs) = (Some (Inl (Signaling ''connection closed'')), [], rs)"
| "ws_recv de (ReadFrame (BinaryFrame payload) # rs) = ws_recv de rs"

definition ws_send :: "(sdp_message \<Rightarrow> string + string) \<Rightarrow> (ws_frame \<Rightarrow> string option) \<Rightarrow> sdp_message \<Rightarrow> unit sea_result \<times> ws_frame list" where
  \<comment> \<open>\<open>sink\<close> is the error of sending a frame, if any\<close>
  "ws_send ser sink msg =
    (case ser msg of
       Inl e \<Rightarrow> (Inl (Signaling (''serialize error: '' @ e)), [])
     | Inr json \<Rightarrow>
        (case sink (TextFrame json) of
           Some e \<Rightarrow> (Inl (Signaling (''send error: '' @ e)), [TextFrame json])
         | None \<Rightarrow> (Inr (), [TextFrame json])))"

definition ws_close :: "(ws_frame \<Rightarrow> string option) \<Rightarrow> unit sea_result" where
  "ws_close sink = (case sink CloseFrame of Some e \<Rightarrow> Inl (Signaling (''close error: '' @ e)) | None \<Rightarrow> Inr ())"

section \<open>The listener\<close>

definition IDLE_TIMEOUT :: duration where
  "IDLE_TIMEOUT = 30 * 10 ^ 9"

definition PING_INTERVAL :: duration where
  "PING_INTERVAL = 10 * 10 ^ 9"

text \<open>The reader of the server: \<open>Some (Some t)\<close> is a text, \<open>Some None\<close> the end, \<open>None\<close> while it waits.\<close>

fun reader_recv :: "ws_read list \<Rightarrow> string option option \<times> ws_read list" where
  "reader_recv [] = (None, [])"
| "reader_recv (ReadTimeout # rs) = (Some None, rs)"
| "reader_recv (ReadFrame (TextFrame t) # rs) = (Some (Some t), rs)"
| "reader_recv (ReadFrame CloseFrame # rs) = (Some None, rs)"
| "reader_recv (ReadEnd # rs) = (Some None, rs)"
| "reader_recv (ReadFrame f # rs) = reader_recv rs"
| "reader_recv (ReadError e # rs) = (Some None, rs)"

datatype accept_result = TcpError string | HandshakeFailed string | Handshaken chan

fun listener_accept :: "accept_result list \<Rightarrow> chan option \<times> accept_result list" where
  \<comment> \<open>\<open>None\<close> while it waits; the loop never ends by itself\<close>
  "listener_accept [] = (None, [])"
| "listener_accept (TcpError e # rs) = listener_accept rs"
| "listener_accept (HandshakeFailed e # rs) = listener_accept rs"
| "listener_accept (Handshaken c # rs) = (Some c, rs)"

datatype writer_input = WriterText string | WriterClosed | WriterPing

fun writer_loop :: "(ws_frame \<Rightarrow> bool) \<Rightarrow> writer_input list \<Rightarrow> bool \<times> ws_frame list" where
  \<comment> \<open>\<open>sends\<close> tells whether sending a frame succeeds; the flag is whether the task still runs\<close>
  "writer_loop sends [] = (True, [])"
| "writer_loop sends (WriterText t # is) =
    (if sends (TextFrame t) then case writer_loop sends is of (r, out) \<Rightarrow> (r, TextFrame t # out) else (False, [TextFrame t]))"
| "writer_loop sends (WriterClosed # is) = (False, [])"
| "writer_loop sends (WriterPing # is) =
    (if sends (PingFrame []) then case writer_loop sends is of (r, out) \<Rightarrow> (r, PingFrame [] # out) else (False, [PingFrame []]))"

section \<open>The room server\<close>

record room_server =
  rv_state :: signaling_state
  rv_require_e2ee :: bool
  rv_e2ee_join_timeout_ms :: nat

definition room_server_bind :: "sea_error + unit \<Rightarrow> room_server sea_result" where
  "room_server_bind bound =
    (case bound of
       Inl e \<Rightarrow> Inl e
     | Inr _ \<Rightarrow> Inr \<lparr>rv_state = state_new, rv_require_e2ee = False, rv_e2ee_join_timeout_ms = 5000\<rparr>)"

definition room_server_require_e2ee :: "bool \<Rightarrow> room_server \<Rightarrow> room_server" where
  "room_server_require_e2ee required s =
    (let s' = s\<lparr>rv_require_e2ee := required\<rparr> in
     if required then s'\<lparr>rv_state := set_e2ee_required True (rv_state s')\<rparr> else s')"

definition with_e2ee_join_timeout :: "nat \<Rightarrow> room_server \<Rightarrow> room_server" where
  "with_e2ee_join_timeout dur s = s\<lparr>rv_e2ee_join_timeout_ms := dur\<rparr>"

definition room_server_hooks :: "room_server \<Rightarrow> unit hooks" where
  "room_server_hooks s = (if rv_require_e2ee s then e2ee_noop_hooks (rv_e2ee_join_timeout_ms s) else noop_hooks)"

fun room_server_accept :: "accept_result list \<Rightarrow> sv_event list" where
  \<comment> \<open>the connections \<open>run\<close> hands to the engine\<close>
  "room_server_accept [] = []"
| "room_server_accept (Handshaken c # rs) = Accept c # room_server_accept rs"
| "room_server_accept (_ # rs) = room_server_accept rs"

definition room_server_run ::
  "serialiser \<Rightarrow> (participant_id \<Rightarrow> string) \<Rightarrow> (string \<Rightarrow> sdp_message option) \<Rightarrow> room_server \<Rightarrow> sv_event list \<Rightarrow> unit server" where
  "room_server_run ser show de s es = sv_run ser show de (room_server_hooks s) es ((server_new ())\<lparr>sv_state := rv_state s\<rparr>)"

section \<open>Connecting ends\<close>

lemma attempt_succ:
  assumes "unat (a :: u32) \<le> unat m" "unat m < 2 ^ 32 - 1"
  shows "unat (a + 1) = unat a + 1"
  using assms by (simp add: unat_word_ariths)

text \<open>The generalisation to an attempt in the middle.\<close>

lemma connect_ws_returns_from:
  assumes "unat attempt \<le> unat (wc_max_reconnect_attempts config)" "unat (wc_max_reconnect_attempts config) < 2 ^ 32 - 1"
    and "unat (wc_max_reconnect_attempts config) - unat attempt < length rs"
  shows "\<exists>r ds. connect_ws config attempt rs = (Some r, ds) \<and> length ds \<le> unat (wc_max_reconnect_attempts config) - unat attempt"
  using assms
proof (induction config attempt rs rule: connect_ws.induct)
  case (3 config attempt e rs)
  let ?m = "wc_max_reconnect_attempts config"
  have succ: "unat (attempt + 1) = unat attempt + 1"
    using attempt_succ 3(2,3) by blast
  show ?case
  proof (cases "attempt + 1 > ?m")
    case False
    then have le: "unat (attempt + 1) \<le> unat ?m"
      by (simp add: word_le_nat_alt not_less)
    show ?thesis
    proof (cases "duration_mul (wc_base_backoff config) (2 ^ unat (attempt + 1 - 1))")
      case (Ret delay)
      obtain r ds where "connect_ws config (attempt + 1) rs = (Some r, ds)" "length ds \<le> unat ?m - unat (attempt + 1)"
        using 3(1) [OF refl False Ret] le 3(3,4) succ by fastforce
      then show ?thesis
        using False Ret le succ by simp
    qed (use False in simp)
  qed simp
qed auto



text \<open>
  The delays double. The error counts the reconnections: one attempt more was made than it says.
\<close>

lemma connect_ws_backoff_from:
  assumes "unat a \<le> unat m" "unat m \<le> 32" "base * 2 ^ (unat m - 1) < 2 ^ 64 * 10 ^ 9"
    and "length rs = unat m - unat a"
  shows "connect_ws \<lparr>wc_recv_timeout = t, wc_max_reconnect_attempts = m, wc_base_backoff = base\<rparr> a (map Inl rs @ Inl e # rest) =
    (Some (Ret (Inl (Signaling (connect_failed_msg m e)))), map (\<lambda>k. base * 2 ^ k) [unat a..<unat m])"
  using assms
proof (induction rs arbitrary: a)
  case Nil
  then have "unat (a + 1) = unat m + 1"
    using attempt_succ [of a m] by simp
  then show ?case
    using Nil by (simp add: Let_def word_less_nat_alt)
next
  case (Cons e' rs)
  then have succ: "unat (a + 1) = unat a + 1" and lt: "unat a < unat m"
    using attempt_succ [of a m] by auto
  have le: "unat a \<le> unat m - 1" "unat a < 32"
    using lt Cons.prems(2) by linarith+
  have pow: "unat ((2 :: u32) ^ unat a) = 2 ^ unat a"
  proof -
    have "(2 :: nat) ^ unat a < 2 ^ 32"
      using le(2) by (rule power_strict_increasing) simp
    then have "unat (of_nat (2 ^ unat a) :: u32) = 2 ^ unat a"
      by (simp only: unsigned_of_nat take_bit_nat_eq_self len_of_numeral_defs len_num1 mult_1_right) (use le(2) in simp)
    then show ?thesis
      by simp
  qed
  have "base * 2 ^ unat a \<le> base * 2 ^ (unat m - 1)"
    using le(1) by simp
  then have mul: "duration_mul base (2 ^ unat a) = Ret (base * 2 ^ unat a)"
    using Cons.prems(3) unfolding duration_mul_def pow by (simp only: if_True le_less_trans)
  have "\<not> a + 1 > m"
    using lt succ by (simp add: word_less_nat_alt)
  moreover have "[unat a..<unat m] = unat a # [unat (a + 1)..<unat m]"
    using lt succ upt_conv_Cons by simp
  ultimately show ?case
    using Cons.IH [of "a + 1"] Cons.prems succ lt mul by (simp add: Let_def)
qed

section \<open>Reading frames\<close>

definition control_frame :: "ws_frame \<Rightarrow> bool" where
  "control_frame f = (case f of TextFrame _ \<Rightarrow> False | CloseFrame \<Rightarrow> False | _ \<Rightarrow> True)"

definition pongs_for :: "ws_frame list \<Rightarrow> ws_frame list" where
  "pongs_for fs = concat (map (\<lambda>f. case f of PingFrame d \<Rightarrow> [PongFrame d] | _ \<Rightarrow> []) fs)"

text \<open>The client answers every \<open>Ping\<close> before it returns the next message; the server's reader passes over the same frames.\<close>

lemma ws_recv_text:
  "list_all control_frame fs \<Longrightarrow> de text = Inr sdp \<Longrightarrow>
    ws_recv de (map ReadFrame fs @ ReadFrame (TextFrame text) # rs) = (Some (Inr sdp), pongs_for fs, rs)"
  by (induction fs) (auto simp: control_frame_def pongs_for_def split: ws_frame.splits)

lemma reader_recv_text:
  "list_all control_frame fs \<Longrightarrow> reader_recv (map ReadFrame fs @ ReadFrame (TextFrame text) # rs) = (Some (Some text), rs)"
  by (induction fs) (auto simp: control_frame_def split: ws_frame.splits)

section \<open>The room server keeps the limits of its hooks\<close>

lemma room_server_e2ee:
  "room_server_bind (Inr ()) = Inr s \<Longrightarrow> st_e2ee_required (rv_state (room_server_require_e2ee b s)) = b \<and>
    hk_require_e2ee (room_server_hooks (room_server_require_e2ee b s)) = b"
  by (auto simp: room_server_bind_def room_server_require_e2ee_def room_server_hooks_def e2ee_noop_hooks_def noop_hooks_def
      set_e2ee_required_def state_new_def Let_def)

end
