(* ===== verification/Facade_Server.thy ===== *)
theory Facade_Server
  imports Sfu_System
begin

text \<open>
  \<open>seameet/src/server.rs\<close> and \<open>server_event.rs\<close>: the server an application builds. \<open>ClosureHooks\<close> puts the
  application's closures and limits in front of the hooks of the media server and reports what happens as events.

  The application's closures are arguments over a state \<open>'u\<close> of theirs. The events are listed in the order they
  are sent; whether a subscriber is there is not observable by the server.
\<close>

section \<open>Events and closures\<close>

datatype server_event =
    EvPeerConnected participant_id string
  | EvPeerDisconnected participant_id "string list"
  | EvRoomCreated string
  | EvRoomDestroyed string
  | EvAuthRejected participant_id string string
  | EvRateLimited participant_id
  | EvMessageReceived participant_id string

record 'u closures =
  cl_auth_fn :: "(participant_id \<Rightarrow> string \<Rightarrow> string option \<Rightarrow> 'u \<Rightarrow> (string + unit) \<times> 'u) option"
  cl_rate_fn :: "(participant_id \<Rightarrow> 'u \<Rightarrow> bool \<times> 'u) option"
  cl_max_room_members :: "nat option"
  cl_max_chat_history :: "nat option"
  cl_max_room_id_len :: "nat option"
  cl_max_display_name_len :: "nat option"
  cl_require_e2ee :: bool
  cl_e2ee_join_timeout_ms :: "nat option"

record ('h, 'u) facade =
  fa_inner :: 'h
  fa_user :: 'u
  fa_events :: "server_event list"

definition fa_emit :: "server_event list \<Rightarrow> ('h, 'u) facade \<Rightarrow> ('h, 'u) facade" where
  "fa_emit evs f = f\<lparr>fa_events := fa_events f @ evs\<rparr>"

definition unwrap_or :: "'a option \<Rightarrow> 'a \<Rightarrow> 'a" where
  "unwrap_or x d = (case x of Some v \<Rightarrow> v | None \<Rightarrow> d)"

section \<open>ClosureHooks\<close>

definition closure_on_authenticate ::
  "'u closures \<Rightarrow> 'h hooks \<Rightarrow> participant_id \<Rightarrow> string \<Rightarrow> string option \<Rightarrow> ('h, 'u) facade \<Rightarrow> (string + unit) \<times> ('h, 'u) facade" where
  "closure_on_authenticate c H participant room_id token f0 =
    (let (result, f) = (case cl_auth_fn c of
            Some auth \<Rightarrow> (case auth participant room_id token (fa_user f0) of (r, u) \<Rightarrow> (r, f0\<lparr>fa_user := u\<rparr>))
          | None \<Rightarrow> (case hk_on_authenticate H participant room_id token (fa_inner f0) of (r, h) \<Rightarrow> (r, f0\<lparr>fa_inner := h\<rparr>))) in
     (result, case result of Inl reason \<Rightarrow> fa_emit [EvAuthRejected participant room_id reason] f | Inr _ \<Rightarrow> f))"

definition closure_on_rate_check ::
  "'u closures \<Rightarrow> 'h hooks \<Rightarrow> participant_id \<Rightarrow> ('h, 'u) facade \<Rightarrow> bool \<times> ('h, 'u) facade" where
  "closure_on_rate_check c H pid f0 =
    (let (allowed, f) = (case cl_rate_fn c of
            Some rate \<Rightarrow> (case rate pid (fa_user f0) of (b, u) \<Rightarrow> (b, f0\<lparr>fa_user := u\<rparr>))
          | None \<Rightarrow> (case hk_on_rate_check H pid (fa_inner f0) of (b, h) \<Rightarrow> (b, f0\<lparr>fa_inner := h\<rparr>))) in
     (allowed, if allowed then f else fa_emit [EvRateLimited pid] f))"

definition closure_message_events :: "bool \<Rightarrow> sdp_message \<Rightarrow> participant_id \<Rightarrow> server_event list" where
  "closure_message_events pre_room_exists sdp pid =
    (case sdp of
       Join _ room_id _ _ \<Rightarrow> (if pre_room_exists then [] else [EvRoomCreated room_id]) @ [EvPeerConnected pid room_id]
     | _ \<Rightarrow> []) @ [EvMessageReceived pid (msg_kind sdp)]"

definition closure_on_message ::
  "'h hooks \<Rightarrow> (chan \<Rightarrow> bool) \<Rightarrow> sdp_message \<Rightarrow> string \<Rightarrow> participant_id \<Rightarrow> chan \<Rightarrow> ('h, 'u) facade \<times> signaling_state \<Rightarrow>
    bool \<times> outbox \<times> ('h, 'u) facade \<times> signaling_state" where
  "closure_on_message H is_closed sdp raw pid tx fs =
    (case fs of (f, st) \<Rightarrow>
      let pre_room_exists = (case sdp of Join _ room_id _ _ \<Rightarrow> state_room st room_id \<noteq> None | _ \<Rightarrow> False);
          (suppressed, out, h, st') = hk_on_message H is_closed sdp raw pid tx (fa_inner f, st) in
      (suppressed, out, fa_emit (closure_message_events pre_room_exists sdp pid) (f\<lparr>fa_inner := h\<rparr>), st'))"

definition closure_on_disconnect ::
  "'h hooks \<Rightarrow> participant_id \<Rightarrow> (string \<times> bool) list \<Rightarrow> ('h, 'u) facade \<times> signaling_state \<Rightarrow>
    outbox \<times> ('h, 'u) facade \<times> signaling_state" where
  "closure_on_disconnect H pid affected_rooms fs =
    (case fs of (f, st) \<Rightarrow>
      let (out, h, st') = hk_on_disconnect H pid affected_rooms (fa_inner f, st) in
      (out, fa_emit (EvPeerDisconnected pid (map fst affected_rooms) # map (\<lambda>e. EvRoomDestroyed (fst e)) (filter snd affected_rooms))
              (f\<lparr>fa_inner := h\<rparr>), st'))"

definition closure_hooks :: "'u closures \<Rightarrow> 'h hooks \<Rightarrow> ('h, 'u) facade hooks" where
  "closure_hooks c H =
    \<lparr>hk_on_message = closure_on_message H, hk_on_disconnect = closure_on_disconnect H,
     hk_on_authenticate = closure_on_authenticate c H, hk_on_rate_check = closure_on_rate_check c H,
     hk_max_room_members = unwrap_or (cl_max_room_members c) (hk_max_room_members H),
     hk_max_chat_history = unwrap_or (cl_max_chat_history c) (hk_max_chat_history H),
     hk_max_room_id_len = unwrap_or (cl_max_room_id_len c) (hk_max_room_id_len H),
     hk_max_display_name_len = unwrap_or (cl_max_display_name_len c) (hk_max_display_name_len H),
     hk_require_e2ee = cl_require_e2ee c,
     hk_e2ee_join_timeout_ms = unwrap_or (cl_e2ee_join_timeout_ms c) (hk_e2ee_join_timeout_ms H)\<rparr>"

section \<open>The builder\<close>

record sfu_config =
  sc_udp_port :: u16
  sc_public_ip :: "string option"
  sc_bwe_kbps :: "u32 option"

record ('u, 'c) server_builder =
  bd_ws_addr :: string
  bd_udp_port :: u16
  bd_public_ip :: "string option"
  bd_bwe_kbps :: "u32 option"
  bd_auth_fn :: "(participant_id \<Rightarrow> string \<Rightarrow> string option \<Rightarrow> 'u \<Rightarrow> (string + unit) \<times> 'u) option"
  bd_rate_fn :: "(participant_id \<Rightarrow> 'u \<Rightarrow> bool \<times> 'u) option"
  bd_allow_unauth_joins :: bool
  bd_max_room_members :: "nat option"
  bd_max_chat_history :: "nat option"
  bd_max_room_id_len :: "nat option"
  bd_max_display_name_len :: "nat option"
  bd_event_capacity :: nat
  bd_connection_fn :: "'c option"
  bd_require_e2ee :: bool
  bd_e2ee_join_timeout_ms :: "nat option"

definition builder_new :: "('u, 'c) server_builder" where
  "builder_new = \<lparr>bd_ws_addr = ''0.0.0.0:3001'', bd_udp_port = 10000, bd_public_ip = None, bd_bwe_kbps = None, bd_auth_fn = None,
     bd_rate_fn = None, bd_allow_unauth_joins = False, bd_max_room_members = None, bd_max_chat_history = None,
     bd_max_room_id_len = None, bd_max_display_name_len = None, bd_event_capacity = 256, bd_connection_fn = None,
     bd_require_e2ee = False, bd_e2ee_join_timeout_ms = None\<rparr>"

text \<open>The calls that configure a builder; each returns it changed.\<close>

datatype ('u, 'c) builder_call =
    WsAddr string
  | UdpPort u16
  | PublicIp string
  | BweKbps u32
  | MaxRoomMembers nat
  | MaxChatHistory nat
  | MaxRoomIdLen nat
  | MaxDisplayNameLen nat
  | EventCapacity nat
  | OnAuthenticate "participant_id \<Rightarrow> string \<Rightarrow> string option \<Rightarrow> 'u \<Rightarrow> (string + unit) \<times> 'u"
  | OnRateCheck "participant_id \<Rightarrow> 'u \<Rightarrow> bool \<times> 'u"
  | RequireE2ee bool
  | E2eeJoinTimeout nat
  | AllowUnauthenticatedJoins
  | OnConnection 'c

fun builder_apply :: "('u, 'c) builder_call \<Rightarrow> ('u, 'c) server_builder \<Rightarrow> ('u, 'c) server_builder" where
  "builder_apply (WsAddr addr) b = b\<lparr>bd_ws_addr := addr\<rparr>"
| "builder_apply (UdpPort port) b = b\<lparr>bd_udp_port := port\<rparr>"
| "builder_apply (PublicIp ip) b = b\<lparr>bd_public_ip := Some ip\<rparr>"
| "builder_apply (BweKbps kbps) b = b\<lparr>bd_bwe_kbps := Some kbps\<rparr>"
| "builder_apply (MaxRoomMembers n) b = b\<lparr>bd_max_room_members := Some n\<rparr>"
| "builder_apply (MaxChatHistory n) b = b\<lparr>bd_max_chat_history := Some n\<rparr>"
| "builder_apply (MaxRoomIdLen n) b = b\<lparr>bd_max_room_id_len := Some n\<rparr>"
| "builder_apply (MaxDisplayNameLen n) b = b\<lparr>bd_max_display_name_len := Some n\<rparr>"
| "builder_apply (EventCapacity cap) b = b\<lparr>bd_event_capacity := cap\<rparr>"
| "builder_apply (OnAuthenticate f) b = b\<lparr>bd_auth_fn := Some f\<rparr>"
| "builder_apply (OnRateCheck f) b = b\<lparr>bd_rate_fn := Some f\<rparr>"
| "builder_apply (RequireE2ee required) b = b\<lparr>bd_require_e2ee := required\<rparr>"
| "builder_apply (E2eeJoinTimeout dur) b = b\<lparr>bd_e2ee_join_timeout_ms := Some dur\<rparr>"
| "builder_apply AllowUnauthenticatedJoins b = b\<lparr>bd_allow_unauth_joins := True\<rparr>"
| "builder_apply (OnConnection f) b = b\<lparr>bd_connection_fn := Some f\<rparr>"

definition builder_closures :: "('u, 'c) server_builder \<Rightarrow> 'u closures" where
  "builder_closures b = \<lparr>cl_auth_fn = bd_auth_fn b, cl_rate_fn = bd_rate_fn b, cl_max_room_members = bd_max_room_members b,
     cl_max_chat_history = bd_max_chat_history b, cl_max_room_id_len = bd_max_room_id_len b,
     cl_max_display_name_len = bd_max_display_name_len b, cl_require_e2ee = bd_require_e2ee b,
     cl_e2ee_join_timeout_ms = bd_e2ee_join_timeout_ms b\<rparr>"

datatype 'c connection_handler = CustomHandler 'c | RunConnection

record ('u, 'c) seameet_server =
  ss_server :: "(sfu_server, 'u) facade server"
  ss_hooks :: "(sfu_server, 'u) facade hooks"
  ss_handler :: "'c connection_handler"
  ss_udp_port :: u16

text \<open>
  \<open>build\<close>: what the operating system answers is an argument, \<open>sfu_bind\<close> to the creation of the media server (the bound
  port, or the error) and \<open>ws_bind\<close> to the binding of the listener. A broadcast channel of capacity zero panics.
\<close>

definition no_policy_msg :: string where
  "no_policy_msg = ''no authentication policy configured: call SeaMeetServerBuilder::on_authenticate(...) or, for local development only, ::allow_unauthenticated_joins()''"

definition builder_sfu_config :: "('u, 'c) server_builder \<Rightarrow> sfu_config" where
  "builder_sfu_config b = \<lparr>sc_udp_port = bd_udp_port b, sc_public_ip = bd_public_ip b, sc_bwe_kbps = bd_bwe_kbps b\<rparr>"

definition build_state :: "('u, 'c) server_builder \<Rightarrow> 'u \<Rightarrow> (sfu_server, 'u) facade server" where
  "build_state b user =
    (let sv = server_new \<lparr>fa_inner = sfu_new, fa_user = user, fa_events = []\<rparr> in
     if bd_require_e2ee b then sv\<lparr>sv_state := set_e2ee_required True (sv_state sv)\<rparr> else sv)"

definition build ::
  "sfu_env \<Rightarrow> (sfu_config \<Rightarrow> sea_error + u16) \<Rightarrow> (string \<Rightarrow> sea_error + unit) \<Rightarrow> 'u \<Rightarrow> ('u, 'c) server_builder \<Rightarrow>
    (sea_error + ('u, 'c) seameet_server) outcome" where
  "build env sfu_bind ws_bind user b =
    (if bd_auth_fn b = None \<and> \<not> bd_allow_unauth_joins b then Ret (Inl (Signaling no_policy_msg))
     else case sfu_bind (builder_sfu_config b) of
       Inl e \<Rightarrow> Ret (Inl e)
     | Inr port \<Rightarrow>
        if bd_event_capacity b = 0 then Panic
        else case ws_bind (bd_ws_addr b) of
          Inl e \<Rightarrow> Ret (Inl e)
        | Inr _ \<Rightarrow>
           Ret (Inr \<lparr>ss_server = build_state b user, ss_hooks = closure_hooks (builder_closures b) (sfu_hooks env),
                     ss_handler = (case bd_connection_fn b of Some g \<Rightarrow> CustomHandler g | None \<Rightarrow> RunConnection), ss_udp_port = port\<rparr>))"

section \<open>The contract of the hooks passes through\<close>

text \<open>
  Whatever hooks keep the contract of the engine, putting closures in front of them keeps it too, and so it is for an
  invariant of the state of the inner hooks.
\<close>

locale closure_over = signaling_hooks H tidy for H :: "'h hooks" and tidy +
  fixes c :: "'u closures"
begin

lemma closure_message:
  assumes "state_inv st" "hk_on_message (closure_hooks c H) is_closed sdp raw pid tx (f, st) = (handled, out, f', st')"
  shows "state_inv st'" "within_limits tidy maxm maxh st \<Longrightarrow> within_limits tidy maxm maxh st'"
  using assms on_message_inv [of st is_closed sdp raw pid tx "fa_inner f"] on_message_limits [of st maxm maxh is_closed sdp raw pid tx "fa_inner f"]
  by (auto simp: closure_hooks_def closure_on_message_def Let_def split: prod.splits)

lemma closure_disconnect:
  assumes "state_inv st" "hk_on_disconnect (closure_hooks c H) pid affected (f, st) = (out, f', st')"
  shows "state_inv st'" "within_limits tidy maxm maxh st \<Longrightarrow> within_limits tidy maxm maxh st'"
  using assms on_disconnect_inv [of st pid affected "fa_inner f"] on_disconnect_limits [of st maxm maxh pid affected "fa_inner f"]
  by (auto simp: closure_hooks_def closure_on_disconnect_def Let_def split: prod.splits)

end

sublocale closure_over \<subseteq> outer: signaling_hooks "closure_hooks c H" tidy
  by unfold_locales (blast intro: closure_message closure_disconnect)+

locale closure_invariant = hook_invariant H Inv for H :: "'h hooks" and Inv +
  fixes c :: "'u closures"

sublocale closure_invariant \<subseteq> outer: hook_invariant "closure_hooks c H" "\<lambda>f. Inv (fa_inner f)"
proof (unfold_locales, goal_cases)
  case (1 h is_closed sdp raw pid tx st handled out h' st')
  then show ?case
    using message_keeps [of "fa_inner h" is_closed sdp raw pid tx st]
    by (auto simp: closure_hooks_def closure_on_message_def fa_emit_def Let_def split: prod.splits)
next
  case (2 h pid affected st out h' st')
  then show ?case
    using disconnect_keeps [of "fa_inner h" pid affected st]
    by (auto simp: closure_hooks_def closure_on_disconnect_def fa_emit_def Let_def split: prod.splits)
next
  case (3 h pid rid tok)
  then show ?case
    using authenticate_keeps [of "fa_inner h" pid rid tok]
    by (auto simp: closure_hooks_def closure_on_authenticate_def fa_emit_def Let_def split: prod.splits option.splits sum.splits)
next
  case (4 h pid)
  then show ?case
    using rate_keeps [of "fa_inner h" pid]
    by (auto simp: closure_hooks_def closure_on_rate_check_def fa_emit_def Let_def split: prod.splits option.splits)
qed

interpretation facade_signaling: closure_over "sfu_hooks env" False "cl :: 'u closures" for env cl
  by unfold_locales

interpretation facade_media: closure_invariant "sfu_hooks env" sfu_inv "cl :: 'u closures" for env cl
  by unfold_locales

section \<open>The whole server\<close>

inductive facade_reach ::
  "serialiser \<Rightarrow> (participant_id \<Rightarrow> string) \<Rightarrow> (string \<Rightarrow> sdp_message option) \<Rightarrow> ('u, 'c) server_builder \<Rightarrow> 'u \<Rightarrow>
    (sfu_server, 'u) facade server \<Rightarrow> counters \<Rightarrow> bool"
  for ser "show" de b user where
  facade_start: "facade_reach ser show de b user (build_state b user) (\<lambda>_. 0)"
| facade_signal: "facade_reach ser show de b user sv cs \<Longrightarrow>
    facade_reach ser show de b user (snd (sv_step ser show de (closure_hooks (builder_closures b) (sfu_hooks env)) e sv)) cs"
| facade_task: "facade_reach ser show de b user sv cs \<Longrightarrow> task_round menv rd i (fa_inner (sv_hooks sv), cs) = (ws, su', cs') \<Longrightarrow>
    facade_reach ser show de b user (sv\<lparr>sv_hooks := (sv_hooks sv)\<lparr>fa_inner := su'\<rparr>\<rparr>) cs'"
| facade_app: "facade_reach ser show de b user sv cs \<Longrightarrow>
    facade_reach ser show de b user (sv\<lparr>sv_hooks := (sv_hooks sv)\<lparr>fa_user := u\<rparr>\<rparr>) cs"

abbreviation room_limit :: "('u, 'c) server_builder \<Rightarrow> nat" where
  "room_limit b \<equiv> unwrap_or (bd_max_room_members b) 25"

abbreviation history_limit :: "('u, 'c) server_builder \<Rightarrow> nat" where
  "history_limit b \<equiv> unwrap_or (bd_max_chat_history b) 1000"

lemma facade_limits:
  "hk_max_room_members (closure_hooks (builder_closures b) (sfu_hooks env)) = room_limit b"
  "hk_max_chat_history (closure_hooks (builder_closures b) (sfu_hooks env)) = history_limit b"
  by (simp_all add: closure_hooks_def builder_closures_def sfu_limits)

lemma build_state_new:
  "sv_state (build_state b user) = state_new\<lparr>st_e2ee_required := bd_require_e2ee b\<rparr>" "sv_conns (build_state b user) = []"
  "fa_inner (sv_hooks (build_state b user)) = sfu_new" "fa_events (sv_hooks (build_state b user)) = []"
  by (simp_all add: build_state_def server_new_def set_e2ee_required_def state_new_def Let_def)

lemma facade_reach_signaling:
  "facade_reach ser show de b user sv cs \<Longrightarrow> state_inv (sv_state sv) \<and> within_limits False (room_limit b) (history_limit b) (sv_state sv)"
proof (induction rule: facade_reach.induct)
  case facade_start
  have "state_inv (state_new\<lparr>st_e2ee_required := r\<rparr>)" for r
    using state_inv_new by (simp add: state_inv_def state_new_def)
  then show ?case
    by (simp add: build_state_new) (simp add: within_limits_def state_new_def)
next
  case (facade_signal sv cs env e)
  then show ?case
    using facade_signaling.outer.sv_step_keeps [of sv "builder_closures b" env ser "show" de e, unfolded facade_limits] by blast
qed simp_all

lemma facade_reach_media: "facade_reach ser show de b user sv cs \<Longrightarrow> sfu_inv (fa_inner (sv_hooks sv))"
proof (induction rule: facade_reach.induct)
  case facade_start
  show ?case
    by (simp add: build_state_new sfu_inv_new)
next
  case (facade_signal sv cs env e)
  show ?case
    using facade_signal.IH by (rule facade_media.outer.sv_step_hook)
next
  case (facade_task sv cs menv rd i ws su' cs')
  then show ?case
    using sfu_inv_task_round by simp
next
  case (facade_app sv cs u)
  then show ?case
    by simp
qed


section \<open>Authentication\<close>

text \<open>A participant the application's closure accepted at some time, for some room and token.\<close>

definition accepted_by :: "'u closures \<Rightarrow> participant_id \<Rightarrow> bool" where
  "accepted_by c p \<longleftrightarrow> (\<forall>auth. cl_auth_fn c = Some auth \<longrightarrow> (\<exists>rid tok u. fst (auth p rid tok u) = Inr ()))"

definition conn_accepted :: "'u closures \<Rightarrow> connection \<Rightarrow> bool" where
  "conn_accepted c cn \<longleftrightarrow> (\<forall>pid. cn_pid cn = Some pid \<longrightarrow> accepted_by c pid) \<and>
     (\<forall>p rid name msg. cn_pc cn = CheckingCapacity p rid name msg \<longrightarrow> accepted_by c p)"

lemma closure_authenticate_accepts:
  "closure_on_authenticate c H p rid tok f = (Inr r, f') \<Longrightarrow> accepted_by c p"
  by (auto simp: closure_on_authenticate_def accepted_by_def Let_def split: prod.splits option.splits sum.splits)
    (metis fst_conv old.unit.exhaust)

lemma conn_accepted_first_join:
  assumes "conn_accepted c cn" "cn_pid cn = None" "first_join ser (closure_hooks c H) p rid name tok msg cn f = (out, cn', f')"
  shows "conn_accepted c cn'"
proof (cases "\<exists>f1. closure_on_authenticate c H p rid tok f = (Inr (), f1)")
  case True
  then have "accepted_by c p"
    using closure_authenticate_accepts by blast
  then show ?thesis
    using assms by (auto simp: conn_accepted_def first_join_def goto_def split: if_splits outcome.splits sum.splits prod.splits)
next
  case False
  then have "hk_on_authenticate (closure_hooks c H) p rid tok f \<noteq> (Inr (), f1)" for f1
    by (simp add: closure_hooks_def)
  then show ?thesis
    using assms by (auto simp: conn_accepted_def first_join_def goto_def split: if_splits outcome.splits sum.splits prod.splits)
qed

lemma conn_accepted_joined:
  assumes "conn_accepted c cn" "joined_message H sdp msg pid cn f = (out, cn', f')"
  shows "conn_accepted c cn'"
  using assms by (auto simp: conn_accepted_def joined_message_def goto_def Let_def split: if_splits prod.splits)

lemma conn_accepted_recv:
  assumes "conn_accepted c cn" "conn_recv ser de (closure_hooks c H) received cn f = (out, cn', f')"
  shows "conn_accepted c cn'"
proof (cases "\<exists>msg sdp. received = Some msg \<and> de msg = Some sdp")
  case False
  then show ?thesis
    using assms by (auto simp: conn_recv_def conn_accepted_def goto_def split: option.splits)
next
  case True
  then obtain msg sdp where m: "received = Some msg" "de msg = Some sdp"
    by blast
  show ?thesis
  proof (cases "cn_pid cn")
    case (Some pid)
    then show ?thesis
      using conn_accepted_joined assms m by (simp add: conn_recv_def)
  next
    case None
    show ?thesis
    proof (cases sdp)
      case (Join p rid name tok)
      then show ?thesis
        using conn_accepted_first_join [OF assms(1) None] assms(2) m None by (simp add: conn_recv_def)
    qed (use assms m None in \<open>simp_all add: conn_recv_def\<close>)
  qed
qed

lemma conn_accepted_step:
  assumes "conn_accepted c cn" "conn_step ser show H is_closed cn (h, st) = (out, cn', h', st')"
  shows "conn_accepted c cn'"
  using assms
  by (cases "cn_pc cn")
    (auto simp: conn_step_def conn_accepted_def goto_def check_capacity_def after_dispatch_def Let_def
      split: option.splits prod.splits if_splits list.splits)

lemma conn_accepted_sv_step:
  assumes "list_all (conn_accepted c) (sv_conns sv)"
  shows "list_all (conn_accepted c) (sv_conns (snd (sv_step ser show de (closure_hooks c H) e sv)))"
proof -
  have nth: "k < length (sv_conns sv) \<Longrightarrow> conn_accepted c (sv_conns sv ! k)" for k
    using assms by (simp add: list_all_length)
  have upd: "conn_accepted c cn \<Longrightarrow> list_all (conn_accepted c) ((sv_conns sv)[k := cn])" for cn k
    using assms by (auto simp: list_all_iff dest!: set_update_subset_insert [THEN subsetD])
  show ?thesis
  proof (cases e)
    case (Accept tx)
    then show ?thesis
      using assms by (simp add: conn_accepted_def conn_new_def)
  next
    case (Receive k received)
    then show ?thesis
      using assms nth [of k] conn_accepted_recv [of c "sv_conns sv ! k" ser de H received "sv_hooks sv"]
      by (auto simp: put_conn_def split: prod.splits intro!: upd)
  next
    case (DeadlineFired k)
    have "conn_accepted c (sv_conns sv ! k) \<Longrightarrow> conn_accepted c (snd (conn_timeout ser (sv_conns sv ! k)))"
      by (simp add: conn_timeout_def conn_accepted_def goto_def)
    then show ?thesis
      using assms nth [of k] upd DeadlineFired by (auto simp: put_conn_def split: prod.splits)
  next
    case (Advance k is_closed)
    then show ?thesis
      using assms nth [of k] conn_accepted_step [of c "sv_conns sv ! k" ser "show" "closure_hooks c H" is_closed "sv_hooks sv" "sv_state sv"]
      by (auto simp: put_conn_def split: prod.splits intro!: upd)
  qed
qed

lemma facade_reach_accepted:
  "facade_reach ser show de b user sv cs \<Longrightarrow> list_all (conn_accepted (builder_closures b)) (sv_conns sv)"
  by (induction rule: facade_reach.induct) (simp_all add: build_state_new conn_accepted_sv_step)

text \<open>
  A server that was built without \<open>allow_unauthenticated_joins\<close> has an authentication closure, and in every state
  it reaches, each connection that has become a participant was accepted by that closure.
\<close>

lemma built_server_authenticated:
  assumes "build env sfu_bind ws_bind user b = Ret (Inr s)" "\<not> bd_allow_unauth_joins b"
    and "facade_reach ser show de b user sv cs" "cn \<in> set (sv_conns sv)" "cn_pid cn = Some pid"
  shows "\<exists>auth rid tok u. bd_auth_fn b = Some auth \<and> fst (auth pid rid tok u) = Inr ()"
proof -
  have "bd_auth_fn b \<noteq> None"
    using assms(1,2) by (auto simp: build_def split: if_splits)
  moreover have "accepted_by (builder_closures b) pid"
    using facade_reach_accepted [OF assms(3)] assms(4,5) by (simp add: list_all_iff conn_accepted_def)
  ultimately show ?thesis
    by (auto simp: accepted_by_def builder_closures_def)
qed

definition demo_auth :: "participant_id \<Rightarrow> string \<Rightarrow> string option \<Rightarrow> unit \<Rightarrow> (string + unit) \<times> unit" where
  "demo_auth p rid tok u = (if p = ParticipantId 1 then Inr () else Inl ''unknown'', u)"

definition demo_builder :: "(unit, unit) server_builder" where
  "demo_builder = fold builder_apply [OnAuthenticate demo_auth, MaxRoomMembers 2] builder_new"

fun facade_run ::
  "serialiser \<Rightarrow> (participant_id \<Rightarrow> string) \<Rightarrow> (string \<Rightarrow> sdp_message option) \<Rightarrow> ('u, 'c) server_builder \<Rightarrow> sfu_env \<Rightarrow> sv_event list \<Rightarrow>
    (sfu_server, 'u) facade server \<Rightarrow> (sfu_server, 'u) facade server" where
  "facade_run ser show de b env es sv = sv_run ser show de (closure_hooks (builder_closures b) (sfu_hooks env)) es sv"

lemma facade_run_reach:
  "facade_reach ser show de b user sv cs \<Longrightarrow> facade_reach ser show de b user (facade_run ser show de b env es sv) cs"
  by (induction es arbitrary: sv) (simp_all add: facade_signal)

definition demo_facade :: "(sfu_server, unit) facade server" where
  "demo_facade = facade_run (\<lambda>_. None) (\<lambda>_. []) demo_de demo_builder demo_sfu_env (take 3 demo_media_events) (build_state demo_builder ())"

lemma demo_facade_reach: "facade_reach (\<lambda>_. None) (\<lambda>_. []) demo_de demo_builder () demo_facade (\<lambda>_. 0)"
  unfolding demo_facade_def by (rule facade_run_reach [OF facade_start])

lemma demo_facade_joined: "map cn_pid (sv_conns demo_facade) = [Some (ParticipantId 1)]"
  by code_simp


theorem built_server_authenticated_witness:
  "\<exists>auth rid tok u. bd_auth_fn demo_builder = Some auth \<and> fst (auth (ParticipantId 1) rid tok u) = Inr ()"
proof -
  obtain cn where cn: "cn \<in> set (sv_conns demo_facade)" "cn_pid cn = Some (ParticipantId 1)"
    using demo_facade_joined by (cases "sv_conns demo_facade") auto
  obtain s where "build demo_sfu_env (\<lambda>c. Inr (sc_udp_port c)) (\<lambda>_. Inr ()) () demo_builder = Ret (Inr s)"
    by (simp add: build_def demo_builder_def builder_new_def)
  from built_server_authenticated [OF this _ demo_facade_reach cn] show ?thesis
    by (simp add: demo_builder_def builder_new_def)
qed

section \<open>What the events leave out\<close>

text \<open>
  A join is reported as a connection before \<open>dispatch\<close> decides about it: into a full room the joiner is refused, and
  reported all the same.
\<close>

lemma refused_join_reported:
  assumes "state_inv st" "room_full is_closed maxm rid st"
    and "closure_on_message noop_hooks is_closed (Join p rid name tok) raw pid tx (f, st) = (handled, out, f', st')"
  shows "EvPeerConnected pid rid \<in> set (fa_events f')" "handled = False" "st' = st"
    "fst (dispatch_join ser show is_closed pid rid name tx maxm st) = send_msg ser tx (Error 403 ''room is full'')"
proof -
  show "EvPeerConnected pid rid \<in> set (fa_events f')" "handled = False" "st' = st"
    using assms(3) by (auto simp: closure_on_message_def closure_message_events_def fa_emit_def noop_hooks_def noop_on_message_def)
  show "fst (dispatch_join ser show is_closed pid rid name tx maxm st) = send_msg ser tx (Error 403 ''room is full'')"
    using assms(2) unfolding dispatch_join_def Let_def room_full_iff [OF assms(1)] by simp
qed

text \<open>Leaving a room by a message is never reported as its end, whoever else is in it.\<close>

lemma leave_not_reported:
  "closure_on_message H is_closed (Leave p rid) raw pid tx (f, st) = (handled, out, f', st') \<Longrightarrow>
    fa_events f' = fa_events f @ [EvMessageReceived pid ''leave'']"
  by (auto simp: closure_on_message_def closure_message_events_def fa_emit_def Let_def split: prod.splits)

end
