(* ===== verification/Meet_Server.thy ===== *)
theory Meet_Server
  imports Facade_Server
begin

text \<open>
  \<open>examples/meet/server\<close>: the deployable server. \<open>auth_jwks.rs\<close> checks tokens against the keys of an identity
  provider, \<open>http.rs\<close> gives out participant identities, \<open>main.rs\<close> chooses the authentication provider and
  plugs an authentication closure and a rate limiter into the server.

  What the crates \<open>jsonwebtoken\<close>, \<open>reqwest\<close>, \<open>serde_json\<close> and \<open>uuid\<close> compute is an argument: \<open>jwt_env\<close>. An
  \<open>Instant\<close> is a number of nanoseconds.
\<close>

section \<open>Keys and tokens\<close>

record jwk =
  jk_kid :: "string option"
  jk_kty :: string
  jk_alg :: "string option"
  jk_use :: "string option"
  jk_n :: "string option"
  jk_e :: "string option"

datatype algorithm = RS256 | OtherAlg string

record jwks_config =
  jc_issuer :: string
  jc_audience :: string
  jc_jwks_url :: string
  jc_pid_namespace :: uuid

record validation =
  va_algorithm :: algorithm
  va_issuer :: string
  va_audience :: string
  va_validate_exp :: bool

record 'key jwt_env =
  je_parse_set :: "string \<Rightarrow> string + jwk list"
  je_rsa :: "string \<Rightarrow> string \<Rightarrow> string + 'key"
  je_decode_header :: "string \<Rightarrow> string + string option \<times> algorithm"
  je_decode :: "string \<Rightarrow> 'key \<Rightarrow> validation \<Rightarrow> string + string"
  je_new_v5 :: "uuid \<Rightarrow> string \<Rightarrow> uuid"
  je_show_alg :: "algorithm \<Rightarrow> string"

definition DEFAULT_PID_NAMESPACE :: uuid where
  "DEFAULT_PID_NAMESPACE = 0x73656d6565745f7069645f6e73313030"

definition usable_jwk :: "jwk \<Rightarrow> bool" where
  \<comment> \<open>the checks of the loop body before the key is built\<close>
  "usable_jwk k \<longleftrightarrow> jk_kty k = ''RSA'' \<and> (case jk_use k of Some u \<Rightarrow> u = ''sig'' | None \<Rightarrow> True) \<and>
     (case jk_alg k of Some a \<Rightarrow> a = ''RS256'' | None \<Rightarrow> True)"

fun collect_keys :: "(string \<Rightarrow> string \<Rightarrow> string + 'key) \<Rightarrow> jwk list \<Rightarrow> (string, 'key) hmap \<Rightarrow> string + (string, 'key) hmap" where
  "collect_keys rsa [] out = Inr out"
| "collect_keys rsa (jwk # ks) out =
    (if \<not> usable_jwk jwk then collect_keys rsa ks out
     else case jk_kid jwk of
       None \<Rightarrow> collect_keys rsa ks out
     | Some kid \<Rightarrow>
        (case (jk_n jwk, jk_e jwk) of
           (Some n, Some e) \<Rightarrow>
             (case rsa n e of
                Inl err \<Rightarrow> Inl (''jwk '' @ kid @ '' invalid rsa components: '' @ err)
              | Inr key \<Rightarrow> collect_keys rsa ks (hm_insert kid key out))
         | _ \<Rightarrow> collect_keys rsa ks out))"

definition parse_jwks :: "'key jwt_env \<Rightarrow> string \<Rightarrow> string + (string, 'key) hmap" where
  "parse_jwks env body =
    (case je_parse_set env body of
       Inl e \<Rightarrow> Inl (''jwks json parse failed: '' @ e)
     | Inr ks \<Rightarrow>
        (case collect_keys (je_rsa env) ks [] of
           Inl e \<Rightarrow> Inl e
         | Inr out \<Rightarrow> if out = [] then Inl ''jwks document had no usable RSA RS256 keys'' else Inr out))"

datatype jwks_response = FetchFailed string | FetchStatus string | BodyFailed string | FetchBody string

definition jwks_refresh :: "'key jwt_env \<Rightarrow> jwks_response \<Rightarrow> (string, 'key) hmap \<Rightarrow> (string + nat) \<times> (string, 'key) hmap" where
  "jwks_refresh env response keys =
    (case response of
       FetchFailed e \<Rightarrow> (Inl (''jwks fetch failed: '' @ e), keys)
     | FetchStatus s \<Rightarrow> (Inl (''jwks fetch returned '' @ s), keys)
     | BodyFailed e \<Rightarrow> (Inl (''jwks read body failed: '' @ e), keys)
     | FetchBody body \<Rightarrow>
        (case parse_jwks env body of Inl e \<Rightarrow> (Inl e, keys) | Inr next_keys \<Rightarrow> (Inr (hm_len next_keys), next_keys)))"

definition refresh_loop :: "'key jwt_env \<Rightarrow> jwks_response list \<Rightarrow> (string, 'key) hmap \<Rightarrow> (string, 'key) hmap" where
  "refresh_loop env responses keys = fold (\<lambda>r ks. snd (jwks_refresh env r ks)) responses keys"

definition map_sub_to_pid :: "'key jwt_env \<Rightarrow> uuid \<Rightarrow> string \<Rightarrow> participant_id" where
  "map_sub_to_pid env namespace sub = ParticipantId (je_new_v5 env namespace sub)"

definition jwks_validation :: "jwks_config \<Rightarrow> validation" where
  "jwks_validation config = \<lparr>va_algorithm = RS256, va_issuer = jc_issuer config, va_audience = jc_audience config, va_validate_exp = True\<rparr>"

definition jwks_validate :: "'key jwt_env \<Rightarrow> jwks_config \<Rightarrow> (string, 'key) hmap \<Rightarrow> string \<Rightarrow> string + participant_id" where
  "jwks_validate env config keys bearer =
    (case je_decode_header env bearer of
       Inl e \<Rightarrow> Inl (''bad token header: '' @ e)
     | Inr (None, _) \<Rightarrow> Inl ''token missing kid''
     | Inr (Some kid, alg) \<Rightarrow>
        if alg \<noteq> RS256 then Inl (''unsupported alg '' @ je_show_alg env alg)
        else (case hm_get keys kid of
          None \<Rightarrow> Inl (''unknown kid '' @ kid)
        | Some key \<Rightarrow>
           (case je_decode env bearer key (jwks_validation config) of
              Inl e \<Rightarrow> Inl (''token rejected: '' @ e)
            | Inr sub \<Rightarrow> Inr (map_sub_to_pid env (jc_pid_namespace config) sub))))"

section \<open>Authentication providers\<close>

datatype auth_outcome = Authenticated participant_id | Anonymous | Rejected string

definition jwks_authorize :: "'key jwt_env \<Rightarrow> jwks_config \<Rightarrow> (string, 'key) hmap \<Rightarrow> string option \<Rightarrow> auth_outcome" where
  "jwks_authorize env config keys bearer =
    (case bearer of
       None \<Rightarrow> Rejected ''missing token''
     | Some token \<Rightarrow> (case jwks_validate env config keys token of Inr pid \<Rightarrow> Authenticated pid | Inl reason \<Rightarrow> Rejected reason))"

definition open_authorize :: "string option \<Rightarrow> auth_outcome" where
  "open_authorize bearer = Anonymous"

definition shared_secret_authorize :: "string \<Rightarrow> string option \<Rightarrow> auth_outcome" where
  "shared_secret_authorize expected bearer =
    (case bearer of
       Some token \<Rightarrow> if token = expected then Anonymous else Rejected ''invalid token''
     | None \<Rightarrow> Rejected ''missing token'')"

datatype auth_provider = JwksAuth jwks_config | SharedSecretAuth string | OpenAuth

definition nonempty_var :: "(string \<Rightarrow> string option) \<Rightarrow> string \<Rightarrow> string option" where
  "nonempty_var var name = (case var name of Some s \<Rightarrow> if s = [] then None else Some s | None \<Rightarrow> None)"

definition build_jwks_auth :: "(string \<Rightarrow> string option) \<Rightarrow> (string \<Rightarrow> uuid option) \<Rightarrow> jwks_config option" where
  "build_jwks_auth var uuid_from_str =
    (case nonempty_var var ''SEAMEET_JWKS_URL'' of
       None \<Rightarrow> None
     | Some jwks_url \<Rightarrow>
        (case nonempty_var var ''SEAMEET_OIDC_ISSUER'' of
           None \<Rightarrow> None
         | Some issuer \<Rightarrow>
            (case nonempty_var var ''SEAMEET_OIDC_AUDIENCE'' of
               None \<Rightarrow> None
             | Some audience \<Rightarrow>
                let namespace = (case var ''SEAMEET_PID_NAMESPACE'' of
                      Some s \<Rightarrow> unwrap_or (uuid_from_str (str_trim s)) DEFAULT_PID_NAMESPACE
                    | None \<Rightarrow> DEFAULT_PID_NAMESPACE) in
                Some \<lparr>jc_issuer = issuer, jc_audience = audience, jc_jwks_url = jwks_url, jc_pid_namespace = namespace\<rparr>)))"

definition select_auth :: "(string \<Rightarrow> string option) \<Rightarrow> (string \<Rightarrow> uuid option) \<Rightarrow> auth_provider" where
  "select_auth var uuid_from_str =
    (case build_jwks_auth var uuid_from_str of
       Some config \<Rightarrow> JwksAuth config
     | None \<Rightarrow> (case nonempty_var var ''SEAMEET_AUTH_TOKEN'' of Some expected \<Rightarrow> SharedSecretAuth expected | None \<Rightarrow> OpenAuth))"

definition authorize :: "'key jwt_env \<Rightarrow> (string, 'key) hmap \<Rightarrow> auth_provider \<Rightarrow> string option \<Rightarrow> auth_outcome" where
  "authorize env keys provider bearer =
    (case provider of
       JwksAuth config \<Rightarrow> jwks_authorize env config keys bearer
     | SharedSecretAuth expected \<Rightarrow> shared_secret_authorize expected bearer
     | OpenAuth \<Rightarrow> open_authorize bearer)"

section \<open>Creating a participant\<close>

definition MAX_ROOM_ID_LEN :: nat where
  "MAX_ROOM_ID_LEN = 64"

definition MAX_DISPLAY_NAME_LEN :: nat where
  "MAX_DISPLAY_NAME_LEN = 64"

datatype http_response =
    HttpError nat string string
  | ParticipantCreated string participant_id "string option"

definition http_display_name :: "string \<Rightarrow> string" where
  "http_display_name name = concat (take MAX_DISPLAY_NAME_LEN (filter (\<lambda>c. \<not> is_control_char c) (utf8_chars name)))"

definition bearer_of :: "string option \<Rightarrow> string option" where
  \<comment> \<open>of the header's value, when \<open>to_str\<close> accepts it\<close>
  "bearer_of auth_header =
    (case auth_header of
       None \<Rightarrow> None
     | Some s \<Rightarrow>
        if take (length ''Bearer '') s = ''Bearer ''
        then (let t = str_trim (drop (length ''Bearer '') s) in if t = [] then None else Some t)
        else None)"

definition create_participant ::
  "(string option \<Rightarrow> auth_outcome) \<Rightarrow> uuid \<Rightarrow> string \<Rightarrow> string option \<Rightarrow> string option \<Rightarrow> http_response" where
  \<comment> \<open>\<open>fresh\<close> is what \<open>Uuid::new_v4\<close> gives\<close>
  "create_participant auth fresh room_id auth_header display_name0 =
    (if room_id = [] \<or> length room_id > MAX_ROOM_ID_LEN \<or> (\<exists>c \<in> set (utf8_chars room_id). is_control_char c)
     then HttpError 400 ''invalid_room_id'' ''invalid room id''
     else
       let display_name = map_option http_display_name display_name0 in
       case auth (bearer_of auth_header) of
         Rejected reason \<Rightarrow> HttpError 401 ''unauthorized'' reason
       | Authenticated pid \<Rightarrow> ParticipantCreated room_id pid display_name
       | Anonymous \<Rightarrow> ParticipantCreated room_id (ParticipantId fresh) display_name)"

section \<open>The closures of the server\<close>

definition RATE_LIMIT_MSGS :: u32 where
  "RATE_LIMIT_MSGS = 200"

definition RATE_LIMIT_WINDOW :: duration where
  "RATE_LIMIT_WINDOW = 10 ^ 9"

type_synonym rate_state = "(participant_id, time \<times> u32) hmap"

definition rate_check :: "time \<Rightarrow> participant_id \<Rightarrow> rate_state \<Rightarrow> bool \<times> rate_state" where
  "rate_check now pid st =
    (let (start, n) = unwrap_or (hm_get st pid) (now, 0);
         (start', n') = (if now - start \<ge> RATE_LIMIT_WINDOW then (now, 0) else (start, n)) in
     (n' + 1 \<le> RATE_LIMIT_MSGS, hm_insert pid (start', n' + 1) st))"

definition meet_auth_fn :: "participant_id \<Rightarrow> string \<Rightarrow> string option \<Rightarrow> 'u \<Rightarrow> (string + unit) \<times> 'u" where
  "meet_auth_fn pid room_id token u =
    (case token of Some t \<Rightarrow> if t \<noteq> [] then (Inr (), u) else (Inl ''missing token'', u) | None \<Rightarrow> (Inl ''missing token'', u))"

text \<open>The state of the closures: the clock and the table of the limiter.\<close>

definition meet_rate_fn :: "participant_id \<Rightarrow> time \<times> rate_state \<Rightarrow> bool \<times> time \<times> rate_state" where
  "meet_rate_fn pid u = (case u of (now, st) \<Rightarrow> (case rate_check now pid st of (ok, st') \<Rightarrow> (ok, now, st')))"

definition meet_builder :: "u16 \<Rightarrow> string option \<Rightarrow> (time \<times> rate_state, unit) server_builder" where
  "meet_builder udp_port public_ip =
    fold builder_apply
      ([WsAddr ''0.0.0.0:3001'', UdpPort udp_port, RequireE2ee True] @ (case public_ip of Some ip \<Rightarrow> [PublicIp ip] | None \<Rightarrow> []) @
       [OnAuthenticate meet_auth_fn, OnRateCheck meet_rate_fn])
      builder_new"

section \<open>The rate limiter\<close>

fun rate_run :: "(time \<times> participant_id) list \<Rightarrow> rate_state \<Rightarrow> (time \<times> participant_id \<times> bool) list \<times> rate_state" where
  "rate_run [] st = ([], st)"
| "rate_run ((now, pid) # calls) st =
    (case rate_check now pid st of (ok, st1) \<Rightarrow> (case rate_run calls st1 of (out, st2) \<Rightarrow> ((now, pid, ok) # out, st2)))"

lemma rate_run_append:
  "rate_run (xs @ ys) st = (case rate_run xs st of (out, st1) \<Rightarrow> (case rate_run ys st1 of (out', st2) \<Rightarrow> (out @ out', st2)))"
  by (induction xs st rule: rate_run.induct) (auto split: prod.splits)

text \<open>The times at which calls of a participant were let through.\<close>

definition passed :: "participant_id \<Rightarrow> (time \<times> participant_id \<times> bool) list \<Rightarrow> time list" where
  "passed p out = map fst (filter (\<lambda>(now, q, ok). q = p \<and> ok) out)"

definition in_span :: "time \<Rightarrow> time \<Rightarrow> time list \<Rightarrow> nat" where
  "in_span a b ts = length (filter (\<lambda>x. a \<le> x \<and> x < b) ts)"

lemma in_span_snoc [simp]: "in_span a b (ts @ [x]) = in_span a b ts + (if a \<le> x \<and> x < b then 1 else 0)"
  by (simp add: in_span_def)

lemma in_span_mono: "a' \<le> a \<Longrightarrow> b \<le> b' \<Longrightarrow> in_span a b ts \<le> in_span a' b' ts"
  by (induction ts) (auto simp: in_span_def)

lemma in_span_split: "in_span a b ts \<le> in_span a s ts + in_span s b ts"
  by (induction ts) (auto simp: in_span_def)

lemma in_span_empty: "list_all (\<lambda>x. x < a) ts \<Longrightarrow> in_span a b ts = 0"
  by (induction ts) (auto simp: in_span_def)

lemma in_span_tail: "list_all (\<lambda>x. x < b) ts \<Longrightarrow> b \<le> b' \<Longrightarrow> in_span a b' ts = in_span a b ts"
  by (induction ts) (auto simp: in_span_def)

abbreviation window :: nat where
  "window \<equiv> RATE_LIMIT_WINDOW"

text \<open>
  The entry \<open>(s, c)\<close> of a participant after \<open>n\<close> calls: its window has let at most 200 calls through, the stretch of the
  same length before it at most 200, and no stretch of that length more than 400.
\<close>

definition rate_entry_ok :: "nat \<Rightarrow> time \<Rightarrow> u32 \<Rightarrow> time list \<Rightarrow> bool" where
  "rate_entry_ok n s c ts \<longleftrightarrow> unat c \<le> n \<and> in_span s (s + window) ts \<le> min (unat c) 200 \<and> list_all (\<lambda>x. x < s + window) ts \<and>
     (\<forall>a. s < a + window \<longrightarrow> in_span a s ts \<le> 200) \<and> (\<forall>a. in_span a (a + window) ts \<le> 400)"

lemma rate_entry_same_window:
  assumes ok: "rate_entry_ok n s c ts" and now: "s \<le> now" "now < s + window" and n: "n + 1 < 2 ^ 32"
  shows "rate_entry_ok (n + 1) s (c + 1) (if c + 1 \<le> RATE_LIMIT_MSGS then ts @ [now] else ts)"
proof -
  have c: "unat (c + 1) = unat c + 1"
    using ok n by (simp add: rate_entry_ok_def unat_word_ariths)
  have le: "c + 1 \<le> RATE_LIMIT_MSGS \<longleftrightarrow> unat c + 1 \<le> 200"
    by (simp add: word_le_nat_alt c RATE_LIMIT_MSGS_def)
  have near: "in_span a (a + window) ts + 1 \<le> 400" if "now < a + window" "unat c + 1 \<le> 200" for a
  proof -
    have "in_span a (a + window) ts \<le> in_span a s ts + in_span s (s + window) ts"
      using in_span_split [of a "a + window" ts s] ok in_span_mono [of s s "a + window" "max (a + window) (s + window)" ts]
        in_span_tail [of "s + window" ts "max (a + window) (s + window)" s]
      by (fastforce simp: rate_entry_ok_def)
    moreover have "in_span a s ts \<le> 200" "in_span s (s + window) ts \<le> unat c"
      using ok that(1) now(1) by (simp_all add: rate_entry_ok_def)
    ultimately show ?thesis
      using that(2) by linarith
  qed
  show ?thesis
    using ok now c le near by (auto simp: rate_entry_ok_def list_all_iff not_less)
qed

lemma rate_entry_new_window:
  assumes ok: "rate_entry_ok n s c ts" and now: "s + window \<le> now"
  shows "rate_entry_ok (n + 1) now 1 (ts @ [now])"
proof -
  have old: "list_all (\<lambda>x. x < now) ts"
    using ok now by (auto simp: rate_entry_ok_def list_all_iff)
  have recent: "in_span a b ts \<le> 200" if "now < a + window" for a b
  proof -
    have "in_span a b ts \<le> in_span s (max b (s + window)) ts"
      using that now by (intro in_span_mono) auto
    also have "\<dots> = in_span s (s + window) ts"
      using ok by (intro in_span_tail) (auto simp: rate_entry_ok_def)
    finally show ?thesis
      using ok by (simp add: rate_entry_ok_def)
  qed
  have "in_span a (a + window) (ts @ [now]) \<le> 400" for a
    using ok recent [of a "a + window"] by (cases "now < a + window") (auto simp: rate_entry_ok_def)
  moreover have "0 < window"
    by (simp add: RATE_LIMIT_WINDOW_def)
  moreover have "list_all (\<lambda>x. x < now + window) ts"
    using old by (auto simp: list_all_iff)
  ultimately show ?thesis
    using recent in_span_empty [OF old] by (simp add: rate_entry_ok_def)
qed

lemma rate_entry_first: "rate_entry_ok 1 now 1 [now]"
  by (auto simp: rate_entry_ok_def RATE_LIMIT_WINDOW_def in_span_def)

definition rate_inv :: "participant_id \<Rightarrow> nat \<Rightarrow> time \<Rightarrow> time list \<Rightarrow> rate_state \<Rightarrow> bool" where
  "rate_inv p n now ts st \<longleftrightarrow>
    (case hm_get st p of None \<Rightarrow> ts = [] | Some (s, c) \<Rightarrow> s \<le> now \<and> rate_entry_ok n s c ts)"

lemma rate_entry_mono: "rate_entry_ok n s c ts \<Longrightarrow> n \<le> n' \<Longrightarrow> rate_entry_ok n' s c ts"
  by (simp add: rate_entry_ok_def)

lemma rate_check_inv:
  assumes inv: "rate_inv p n now0 ts st" and "now0 \<le> now" "n + 1 < 2 ^ 32" and chk: "rate_check now q st = (ok, st')"
  shows "rate_inv p (n + 1) now (if q = p \<and> ok then ts @ [now] else ts) st'"
proof (cases "q = p")
  case False
  then have "hm_get st' p = hm_get st p"
    using chk by (auto simp: rate_check_def Let_def split: prod.splits if_splits)
  then show ?thesis
    using inv False assms(2) rate_entry_mono by (fastforce simp: rate_inv_def split: option.splits)
next
  case True
  show ?thesis
  proof (cases "hm_get st p")
    case None
    then have "ok" "hm_get st' p = Some (now, 1)" "ts = []"
      using chk inv True by (auto simp: rate_check_def unwrap_or_def RATE_LIMIT_MSGS_def RATE_LIMIT_WINDOW_def rate_inv_def)
    then show ?thesis
      using True rate_entry_mono [OF rate_entry_first] by (simp add: rate_inv_def)
  next
    case (Some e)
    obtain s c where e: "e = (s, c)"
      by fastforce
    have sc: "s \<le> now" "rate_entry_ok n s c ts"
      using inv Some e assms(2) by (simp_all add: rate_inv_def)
    show ?thesis
    proof (cases "now - s \<ge> window")
      case True
      then have "ok" "hm_get st' p = Some (now, 1)"
        using chk Some e \<open>q = p\<close> by (auto simp: rate_check_def unwrap_or_def RATE_LIMIT_MSGS_def)
      then show ?thesis
        using rate_entry_new_window [OF sc(2), of now] True sc(1) \<open>q = p\<close> by (simp add: rate_inv_def)
    next
      case False
      then have "ok \<longleftrightarrow> c + 1 \<le> RATE_LIMIT_MSGS" "hm_get st' p = Some (s, c + 1)"
        using chk Some e \<open>q = p\<close> by (auto simp: rate_check_def unwrap_or_def)
      then show ?thesis
        using rate_entry_same_window [OF sc(2,1) _ assms(3)] False sc(1) \<open>q = p\<close> by (auto simp: rate_inv_def)
    qed
  qed
qed

lemma rate_run_inv:
  assumes "sorted (map fst calls)" "length calls < 2 ^ 32" "rate_run calls [] = (out, st)"
  shows "rate_inv p (length calls) (if calls = [] then 0 else fst (last calls)) (passed p out) st"
  using assms
proof (induction calls arbitrary: out st rule: rev_induct)
  case Nil
  then show ?case
    by (simp add: rate_inv_def passed_def)
next
  case (snoc call calls)
  obtain now q where call: "call = (now, q)"
    by fastforce
  obtain out1 st1 where r1: "rate_run calls [] = (out1, st1)"
    by fastforce
  obtain ok where r2: "rate_check now q st1 = (ok, st)" and out: "out = out1 @ [(now, q, ok)]"
    using snoc.prems(3) r1 call by (auto simp: rate_run_append split: prod.splits)
  let ?now0 = "if calls = [] then 0 else fst (last calls)"
  have "?now0 \<le> now"
    using snoc.prems(1) call by (auto simp: sorted_append)
  moreover have "rate_inv p (length calls) ?now0 (passed p out1) st1"
    using snoc.IH [OF _ _ r1] snoc.prems by (simp add: sorted_append)
  ultimately have "rate_inv p (length calls + 1) now (if q = p \<and> ok then passed p out1 @ [now] else passed p out1) st"
    using rate_check_inv [OF _ _ _ r2] snoc.prems(2) by fastforce
  then show ?case
    using call out by (auto simp: passed_def split: if_splits)
qed

text \<open>
  C27: The rate limiter of the deployed server lets through at most 400 messages of a participant in any second, however the calls of all participants interleave (up to the
  wrap-around of its 32-bit counter).
\<close>

theorem rate_limit_bound:
  assumes "sorted (map fst calls)" "length calls < 2 ^ 32"
  shows "length (filter (\<lambda>(now, q, ok). q = p \<and> ok \<and> t \<le> now \<and> now < t + 10 ^ 9) (fst (rate_run calls []))) \<le> 400"
proof -
  obtain out st where r: "rate_run calls [] = (out, st)"
    by fastforce
  have "in_span t (t + window) (passed p out) \<le> 400"
    using rate_run_inv [OF assms r, of p]
    by (auto simp: rate_inv_def rate_entry_ok_def in_span_def split: option.splits)
  moreover have "in_span t (t + window) (passed p out) =
      length (filter (\<lambda>(now, q, ok). q = p \<and> ok \<and> t \<le> now \<and> now < t + 10 ^ 9) out)"
    by (induction out) (auto simp: in_span_def passed_def RATE_LIMIT_WINDOW_def)
  ultimately show ?thesis
    using r by simp
qed

theorem rate_limit_bound_witness:
  "length (filter (\<lambda>(now, q, ok). q = ParticipantId 1 \<and> ok \<and> 0 \<le> now \<and> now < 0 + 10 ^ 9) (fst (rate_run [(3, ParticipantId 1), (5, ParticipantId 1)] []))) \<le> 400"
  using rate_limit_bound [of "[(3, ParticipantId 1), (5, ParticipantId 1)]" "ParticipantId 1" 0] by simp

section \<open>Tokens\<close>

text \<open>A key that some document of the identity provider published for signatures under that identifier.\<close>

definition published :: "'key jwt_env \<Rightarrow> string set \<Rightarrow> string \<Rightarrow> 'key \<Rightarrow> bool" where
  "published env bodies kid key \<longleftrightarrow> (\<exists>body ks jwk n e. body \<in> bodies \<and> je_parse_set env body = Inr ks \<and> jwk \<in> set ks \<and> usable_jwk jwk \<and>
     jk_kid jwk = Some kid \<and> jk_n jwk = Some n \<and> jk_e jwk = Some e \<and> je_rsa env n e = Inr key)"

lemma published_mono: "published env A kid key \<Longrightarrow> A \<subseteq> B \<Longrightarrow> published env B kid key"
  unfolding published_def by blast

lemma collect_keys_published:
  assumes "collect_keys rsa ks out = Inr out'" "hm_get out' kid = Some key"
  shows "hm_get out kid = Some key \<or> (\<exists>jwk n e. jwk \<in> set ks \<and> usable_jwk jwk \<and> jk_kid jwk = Some kid \<and> jk_n jwk = Some n \<and>
    jk_e jwk = Some e \<and> rsa n e = Inr key)"
  using assms
proof (induction ks arbitrary: out)
  case (Cons jwk ks)
  show ?case
  proof (cases "\<exists>k n e key'. usable_jwk jwk \<and> jk_kid jwk = Some k \<and> jk_n jwk = Some n \<and> jk_e jwk = Some e \<and> rsa n e = Inr key'")
    case True
    then obtain k n e key' where k: "usable_jwk jwk" "jk_kid jwk = Some k" "jk_n jwk = Some n" "jk_e jwk = Some e" "rsa n e = Inr key'"
      by blast
    then have "collect_keys rsa ks (hm_insert k key' out) = Inr out'"
      using Cons.prems(1) by simp
    from Cons.IH [OF this Cons.prems(2)] show ?thesis
      using k by (auto split: if_splits)
  next
    case False
    then have "collect_keys rsa ks out = Inr out'"
      using Cons.prems(1) by (auto split: if_splits option.splits sum.splits)
    from Cons.IH [OF this Cons.prems(2)] show ?thesis
      by auto
  qed
qed simp

lemma refresh_published:
  assumes "\<forall>kid key. hm_get keys kid = Some key \<longrightarrow> published env bodies kid key"
    and "hm_get (snd (jwks_refresh env r keys)) kid = Some key"
  shows "published env (bodies \<union> {b. r = FetchBody b}) kid key"
proof (cases "\<exists>body next_keys. r = FetchBody body \<and> parse_jwks env body = Inr next_keys")
  case True
  then obtain body next_keys where b: "r = FetchBody body" "parse_jwks env body = Inr next_keys"
    by blast
  then obtain ks where "je_parse_set env body = Inr ks" "collect_keys (je_rsa env) ks [] = Inr next_keys"
    by (auto simp: parse_jwks_def split: sum.splits if_splits)
  moreover have "hm_get next_keys kid = Some key"
    using assms(2) b by (simp add: jwks_refresh_def)
  ultimately have "je_parse_set env body = Inr ks" "\<exists>jwk n e. jwk \<in> set ks \<and> usable_jwk jwk \<and> jk_kid jwk = Some kid \<and> jk_n jwk = Some n \<and>
      jk_e jwk = Some e \<and> je_rsa env n e = Inr key"
    using collect_keys_published [of "je_rsa env" ks "[]" next_keys kid key] by simp_all
  then show ?thesis
    using b(1) unfolding published_def by blast
next
  case False
  then have "snd (jwks_refresh env r keys) = keys"
    by (auto simp: jwks_refresh_def split: jwks_response.splits sum.splits)
  then have "published env bodies kid key"
    using assms by simp
  then show ?thesis
    by (rule published_mono) blast
qed

lemma refresh_loop_published:
  assumes "\<forall>kid key. hm_get keys kid = Some key \<longrightarrow> published env bodies kid key" "hm_get (refresh_loop env rs keys) kid = Some key"
  shows "published env (bodies \<union> {b. FetchBody b \<in> set rs}) kid key"
  using assms
proof (induction rs arbitrary: keys bodies)
  case (Cons r rs)
  have "\<forall>kid key. hm_get (snd (jwks_refresh env r keys)) kid = Some key \<longrightarrow> published env (bodies \<union> {b. r = FetchBody b}) kid key"
    using refresh_published [OF Cons.prems(1)] by blast
  from Cons.IH [OF this] Cons.prems(2)
  have "published env (bodies \<union> {b. r = FetchBody b} \<union> {b. FetchBody b \<in> set rs}) kid key"
    by (simp add: refresh_loop_def)
  then show ?case
    by (rule back_subst [where P = "\<lambda>B. published env B kid key"]) auto
qed (simp add: refresh_loop_def)


definition demo_jwk :: jwk where
  "demo_jwk = \<lparr>jk_kid = Some ''k'', jk_kty = ''RSA'', jk_alg = Some ''RS256'', jk_use = Some ''sig'', jk_n = Some ''n'', jk_e = Some ''e''\<rparr>"

definition demo_jwt :: "string jwt_env" where
  "demo_jwt = \<lparr>je_parse_set = (\<lambda>b. if b = ''doc'' then Inr [demo_jwk] else Inl ''bad''), je_rsa = (\<lambda>n e. Inr (n @ e)),
     je_decode_header = (\<lambda>t. Inr (Some ''k'', RS256)),
     je_decode = (\<lambda>t key v. if t = ''tok'' \<and> key = ''ne'' \<and> va_issuer v = ''idp'' then Inr ''sub'' else Inl ''no''),
     je_new_v5 = (\<lambda>ns s. ns + of_nat (length s)), je_show_alg = (\<lambda>_. [])\<rparr>"

definition demo_jwks_config :: jwks_config where
  "demo_jwks_config = \<lparr>jc_issuer = ''idp'', jc_audience = ''app'', jc_jwks_url = [], jc_pid_namespace = 4\<rparr>"

lemma demo_jwks_accepts:
  "jwks_authorize demo_jwt demo_jwks_config (refresh_loop demo_jwt [FetchBody ''doc'', FetchStatus ''503''] []) (Some ''tok'') =
    Authenticated (ParticipantId 7)"
  by code_simp


section \<open>What the closures do\<close>

text \<open>The name the HTTP layer returns is cut at a character; the engine's cut of the same name by bytes may panic.\<close>

lemma http_display_name_short:
  assumes "starts_char name"
  shows "length (utf8_chars (http_display_name name)) \<le> 64"
proof -
  have "utf8_chars (http_display_name name) = take 64 (filter (\<lambda>c. \<not> is_control_char c) (utf8_chars name))"
    unfolding http_display_name_def MAX_DISPLAY_NAME_LEN_def
    by (rule utf8_chars_concat) (use one_char_utf8_chars [OF assms] in \<open>auto dest: in_set_takeD\<close>)
  then show ?thesis
    by simp
qed

text \<open>The limiter never forgets a participant.\<close>

lemma rate_check_keeps_entries:
  "dom (hm_get st) \<subseteq> dom (hm_get (snd (rate_check now pid st)))"
  by (auto simp: rate_check_def Let_def split: prod.splits)

text \<open>
  The deployed server lets a participant in with any token that is not empty: its closure does not ask the provider that
  gave out the identity.
\<close>

lemma meet_any_token: "t \<noteq> [] \<Longrightarrow> fst (meet_auth_fn pid room_id (Some t) u) = Inr ()"
  by (simp add: meet_auth_fn_def)

end
