(* ===== verification/Sfu_Startup.thy ===== *)
theory Sfu_Startup
  imports Facade_Server
begin

text \<open>
  The parts of \<open>seameet-sfu/src/lib.rs\<close> that deal with sockets and with the session object of a first offer:
  \<open>SfuServer::new\<close>, the settings and candidates given to \<open>str0m\<close>, and \<open>local_ip\<close> of \<open>media.rs\<close>.

  What the operating system answers is an argument, and so are the calls of \<open>str0m\<close> (\<open>str0m_calls\<close>): making a
  candidate, reading an offer, and accepting it under given settings and candidates. An address is the text it
  is written with. \<open>Sfu_Server\<close> summarises all this by the field \<open>ev_answer\<close> of its environment; here the field is
  computed.
\<close>

section \<open>Starting the server\<close>

definition sfu_config_default :: sfu_config where
  "sfu_config_default = \<lparr>sc_udp_port = 10000, sc_public_ip = None, sc_bwe_kbps = None\<rparr>"

record sfu_process =
  pr_server :: sfu_server
  pr_udp_port :: u16
  pr_bwe_kbps :: "u32 option"

definition sfu_start :: "(string \<Rightarrow> string + u16) \<Rightarrow> sfu_config \<Rightarrow> string + sfu_process" where
  \<comment> \<open>\<open>udp_bind\<close> gives the port of the bound socket\<close>
  "sfu_start udp_bind config =
    (case udp_bind (''0.0.0.0:'' @ show_nat (unat (sc_udp_port config))) of
       Inl e \<Rightarrow> Inl e
     | Inr port \<Rightarrow> Inr \<lparr>pr_server = sfu_new, pr_udp_port = port, pr_bwe_kbps = sc_bwe_kbps config\<rparr>)"

definition sfu_bind_of :: "(string \<Rightarrow> string + u16) \<Rightarrow> sfu_config \<Rightarrow> sea_error + u16" where
  \<comment> \<open>the call in \<open>build\<close>, where \<open>?\<close> wraps the error, and \<open>udp_local_addr().port()\<close>\<close>
  "sfu_bind_of udp_bind config =
    (case sfu_start udp_bind config of Inl e \<Rightarrow> Inl (Io e) | Inr p \<Rightarrow> Inr (pr_udp_port p))"

section \<open>The session of a first offer\<close>

datatype rtc_setting = RtpMode bool | RawPackets bool | Bwe nat | H264 bool | Vp9 bool

definition config_bwe_kbps :: "sfu_process \<Rightarrow> nat option" where
  "config_bwe_kbps p = map_option unat (pr_bwe_kbps p)"

definition rtc_settings :: "sfu_process \<Rightarrow> rtc_setting list" where
  "rtc_settings p =
    [RtpMode True, RawPackets True, Bwe (case config_bwe_kbps p of Some kbps \<Rightarrow> kbps | None \<Rightarrow> 8000), H264 False, Vp9 True]"

definition local_ip :: "bool \<Rightarrow> string option \<Rightarrow> string outcome" where
  \<comment> \<open>whether a temporary socket can be bound, and the address it has after \<open>connect\<close>\<close>
  "local_ip bound addr = (if bound then Ret (case addr of Some ip \<Rightarrow> ip | None \<Rightarrow> ''127.0.0.1'') else Panic)"

definition public_ip :: "(string \<Rightarrow> string option) \<Rightarrow> (string \<Rightarrow> string option) \<Rightarrow> string option" where
  "public_ip var parse_ip = Option.bind (var ''PUBLIC_IP'') parse_ip"

record ('cand, 'offer) str0m_calls =
  so_host :: "string \<times> u16 \<Rightarrow> 'cand option"
  so_offer :: "string \<Rightarrow> 'offer option"
  so_accept :: "rtc_setting list \<Rightarrow> 'cand list \<Rightarrow> 'offer \<Rightarrow> string option"

definition local_candidates :: "('cand, 'offer) str0m_calls \<Rightarrow> u16 \<Rightarrow> string \<Rightarrow> string option \<Rightarrow> 'cand list" where
  "local_candidates lib port ip public =
    (case so_host lib (ip, port) of Some c \<Rightarrow> [c] | None \<Rightarrow> []) @
    (case public of
       Some pub \<Rightarrow> (case so_host lib (pub, port) of Some c \<Rightarrow> [c] | None \<Rightarrow> [])
     | None \<Rightarrow> [])"

definition offer_answer ::
  "('cand, 'offer) str0m_calls \<Rightarrow> sfu_process \<Rightarrow> string \<Rightarrow> string option \<Rightarrow> string \<Rightarrow> string option" where
  \<comment> \<open>of the patched offer\<close>
  "offer_answer lib p ip public sdp =
    (case so_offer lib sdp of
       Some offer \<Rightarrow> so_accept lib (rtc_settings p) (local_candidates lib (pr_udp_port p) ip public) offer
     | None \<Rightarrow> None)"

fun initial_transmits :: "rtc_output list \<Rightarrow> (u8 list \<times> sockaddr) list" where
  \<comment> \<open>the loop that sends what the session has ready before its task runs; events are dropped\<close>
  "initial_transmits [] = []"
| "initial_transmits (Transmit data destination # outs) = (data, destination) # initial_transmits outs"
| "initial_transmits (EventOut _ # outs) = initial_transmits outs"
| "initial_transmits (TimeoutAt _ # outs) = []"
| "initial_transmits (PollError # outs) = []"

definition first_offer_io ::
  "('cand, 'offer) str0m_calls \<Rightarrow> sfu_process \<Rightarrow> bool \<Rightarrow> string option \<Rightarrow> string option \<Rightarrow> sfu_env \<Rightarrow> string \<Rightarrow>
    participant_id \<Rightarrow> chan \<Rightarrow> nat \<Rightarrow> sfu_server \<Rightarrow> (outbox \<times> sfu_server) outcome" where
  "first_offer_io lib p bound addr public env sdp pid self_tx a su =
    (case local_ip bound addr of
       Panic \<Rightarrow> Panic
     | Ret ip \<Rightarrow> Ret (first_offer (env\<lparr>ev_answer := offer_answer lib p ip public\<rparr>) sdp pid self_tx a su))"

section \<open>What follows\<close>

text \<open>
  A first offer asks the operating system for a socket to learn the local address, and panics when there is none;
  otherwise it is the first offer of \<open>Sfu_Server\<close>.
\<close>

lemma first_offer_io_panics_iff: "first_offer_io lib p bound addr public env sdp pid tx a su = Panic \<longleftrightarrow> \<not> bound"
  by (simp add: first_offer_io_def local_ip_def)

lemma first_offer_io_refused:
  assumes "so_offer lib (patch_sdp_directions sdp) = None"
  shows "first_offer_io lib p True addr public env sdp pid tx a su = Ret ([], su)"
  using assms by (simp add: first_offer_io_def local_ip_def first_offer_def offer_answer_def)

text \<open>With a library that makes a candidate of any address, the session gets the local one, then the public one.\<close>

lemma local_candidates_both:
  assumes "\<And>ip. so_host lib (ip, port) = Some (f ip)"
  shows "local_candidates lib port ip public = f ip # (case public of Some pub \<Rightarrow> [f pub] | None \<Rightarrow> [])"
  using assms by (simp add: local_candidates_def split: option.split)

text \<open>
  The public address of the configuration changes nothing: neither the process that starts nor the server that
  \<open>build\<close> returns.
\<close>

lemma start_ignores_public_ip: "sfu_start udp_bind (config\<lparr>sc_public_ip := ip\<rparr>) = sfu_start udp_bind config"
  by (simp add: sfu_start_def split: sum.split)

lemma build_ignores_public_ip:
  "build env (sfu_bind_of udp_bind) ws_bind user (builder_apply (PublicIp ip) b) = build env (sfu_bind_of udp_bind) ws_bind user b"
proof -
  have "builder_sfu_config (b\<lparr>bd_public_ip := Some ip\<rparr>) = (builder_sfu_config b)\<lparr>sc_public_ip := Some ip\<rparr>"
    by (simp add: builder_sfu_config_def)
  then have bind: "sfu_bind_of udp_bind (builder_sfu_config (b\<lparr>bd_public_ip := Some ip\<rparr>)) = sfu_bind_of udp_bind (builder_sfu_config b)"
    by (simp add: sfu_bind_of_def start_ignores_public_ip)
  have rest: "build_state (b\<lparr>bd_public_ip := Some ip\<rparr>) user = build_state b user"
    "builder_closures (b\<lparr>bd_public_ip := Some ip\<rparr>) = builder_closures b"
    by (simp_all add: build_state_def builder_closures_def)
  show ?thesis
    by (simp add: build_def bind rest split: sum.split)
qed

text \<open>A server whose socket cannot be bound is not built, and the error is the one of the socket.\<close>

lemma build_without_socket:
  assumes "bd_auth_fn b \<noteq> None \<or> bd_allow_unauth_joins b" "udp_bind (''0.0.0.0:'' @ show_nat (unat (bd_udp_port b))) = Inl e"
  shows "build env (sfu_bind_of udp_bind) ws_bind user b = Ret (Inl (Io e))"
  using assms by (auto simp: build_def sfu_bind_of_def sfu_start_def builder_sfu_config_def)

end
