(* ===== verification/Facade_Trace.thy ===== *)
theory Facade_Trace
  imports Facade_Server
begin

text \<open>
  The runs of the server an application builds (\<open>seameet/src/server.rs\<close>) as lists of events: what connections
  send and when their regions run, and the rounds of the media tasks. Who is a participant can then be traced
  to the message that made it one.
\<close>

section \<open>Runs\<close>

datatype 'u facade_event = Signal sfu_env sv_event | TaskRound media_env media_round nat | AppChange 'u

fun facade_do ::
  "serialiser \<Rightarrow> (participant_id \<Rightarrow> string) \<Rightarrow> (string \<Rightarrow> sdp_message option) \<Rightarrow> ('u, 'c) server_builder \<Rightarrow> 'u facade_event \<Rightarrow>
    (sfu_server, 'u) facade server \<times> counters \<Rightarrow> (sfu_server, 'u) facade server \<times> counters" where
  "facade_do ser show de b (Signal env e) (sv, cs) =
     (snd (sv_step ser show de (closure_hooks (builder_closures b) (sfu_hooks env)) e sv), cs)"
| "facade_do ser show de b (TaskRound menv rd i) (sv, cs) =
     (case task_round menv rd i (fa_inner (sv_hooks sv), cs) of
        (ws, su', cs') \<Rightarrow> (sv\<lparr>sv_hooks := (sv_hooks sv)\<lparr>fa_inner := su'\<rparr>\<rparr>, cs'))"
| "facade_do ser show de b (AppChange u) (sv, cs) = (sv\<lparr>sv_hooks := (sv_hooks sv)\<lparr>fa_user := u\<rparr>\<rparr>, cs)"

definition facade_trace ::
  "serialiser \<Rightarrow> (participant_id \<Rightarrow> string) \<Rightarrow> (string \<Rightarrow> sdp_message option) \<Rightarrow> ('u, 'c) server_builder \<Rightarrow> 'u \<Rightarrow>
    'u facade_event list \<Rightarrow> (sfu_server, 'u) facade server \<times> counters" where
  "facade_trace ser show de b user es = fold (facade_do ser show de b) es (build_state b user, \<lambda>_. 0)"

lemma facade_trace_simps:
  "facade_trace ser show de b user [] = (build_state b user, \<lambda>_. 0)"
  "facade_trace ser show de b user (es @ [e]) = facade_do ser show de b e (facade_trace ser show de b user es)"
  by (simp_all add: facade_trace_def)

text \<open>The states that runs end in are the reachable ones.\<close>

lemma facade_trace_reach: "facade_trace ser show de b user es = (sv, cs) \<Longrightarrow> facade_reach ser show de b user sv cs"
proof (induction es arbitrary: sv cs rule: rev_induct)
  case Nil
  then show ?case
    using facade_start by (auto simp: facade_trace_simps)
next
  case (snoc e es)
  obtain sv0 cs0 where before: "facade_trace ser show de b user es = (sv0, cs0)"
    by fastforce
  note reach = snoc.IH [OF before]
  show ?case
  proof (cases e)
    case (Signal env ev)
    then show ?thesis
      using snoc.prems facade_signal [OF reach] by (auto simp: facade_trace_simps before)
  next
    case (TaskRound menv rd i)
    then show ?thesis
      using snoc.prems facade_task [OF reach] by (auto simp: facade_trace_simps before split: prod.splits)
  next
    case (AppChange u)
    then show ?thesis
      using snoc.prems facade_app [OF reach, of u] by (auto simp: facade_trace_simps before)
  qed
qed

lemma facade_reach_trace:
  "facade_reach ser show de b user sv cs \<Longrightarrow> \<exists>es. facade_trace ser show de b user es = (sv, cs)"
proof (induction rule: facade_reach.induct)
  case facade_start
  show ?case
    by (rule exI [of _ "[]"]) (simp add: facade_trace_simps)
next
  case (facade_signal sv cs env e)
  then obtain es where "facade_trace ser show de b user es = (sv, cs)"
    by blast
  then show ?case
    using facade_trace_simps(2) [of ser "show" de b user es "Signal env e"] by fastforce
next
  case (facade_task sv cs menv rd i ws su' cs')
  then obtain es where "facade_trace ser show de b user es = (sv, cs)"
    by blast
  then show ?case
    using facade_task facade_trace_simps(2) [of ser "show" de b user es "TaskRound menv rd i"] by fastforce
next
  case (facade_app sv cs u)
  then obtain es where "facade_trace ser show de b user es = (sv, cs)"
    by blast
  then show ?case
    using facade_trace_simps(2) [of ser "show" de b user es "AppChange u"] by fastforce
qed

section \<open>Where participants come from\<close>

definition id_limit :: "('u, 'c) server_builder \<Rightarrow> nat" where
  "id_limit b = unwrap_or (bd_max_room_id_len b) 64"

definition app_state ::
  "serialiser \<Rightarrow> (participant_id \<Rightarrow> string) \<Rightarrow> (string \<Rightarrow> sdp_message option) \<Rightarrow> ('u, 'c) server_builder \<Rightarrow> 'u \<Rightarrow>
    'u facade_event list \<Rightarrow> 'u" where
  "app_state ser show de b user es = fa_user (sv_hooks (fst (facade_trace ser show de b user es)))"

text \<open>
  A \<open>Join\<close> of this participant that came over the connection and that the application's closure, in the state it had
  at that moment of the run, accepted.
\<close>

definition joined_by ::
  "serialiser \<Rightarrow> (participant_id \<Rightarrow> string) \<Rightarrow> (string \<Rightarrow> sdp_message option) \<Rightarrow> ('u, 'c) server_builder \<Rightarrow> 'u \<Rightarrow>
    'u facade_event list \<Rightarrow> nat \<Rightarrow> participant_id \<Rightarrow> bool" where
  "joined_by ser show de b user es k pid \<longleftrightarrow> (\<exists>es1 es2 env msg rid name tok.
     es = es1 @ Signal env (Receive k (Some msg)) # es2 \<and> de msg = Some (Join pid rid name tok) \<and>
     \<not> invalid_room_id (id_limit b) rid \<and>
     (\<forall>auth. bd_auth_fn b = Some auth \<longrightarrow> fst (auth pid rid tok (app_state ser show de b user es1)) = Inr ()))"

lemma joined_by_more: "joined_by ser show de b user es k pid \<Longrightarrow> joined_by ser show de b user (es @ [e]) k pid"
  unfolding joined_by_def by (metis append_Cons append_assoc)

definition becoming :: "connection \<Rightarrow> participant_id \<Rightarrow> bool" where
  "becoming cn pid \<longleftrightarrow> cn_pid cn = Some pid \<or> (\<exists>rid name msg. cn_pc cn = CheckingCapacity pid rid name msg)"

lemma becoming_new: "\<not> becoming (conn_new tx g) pid"
  by (simp add: becoming_def conn_new_def)

lemma becoming_step:
  assumes "conn_step ser show H is_closed cn (h, st) = (out, cn', h', st')" "becoming cn' pid"
  shows "becoming cn pid"
  using assms
  by (cases "cn_pc cn")
    (auto simp: conn_step_def becoming_def goto_def check_capacity_def after_dispatch_def Let_def
      split: option.splits prod.splits if_splits list.splits)

lemma becoming_timeout: "becoming (snd (conn_timeout ser cn)) pid \<Longrightarrow> becoming cn pid"
  by (simp add: conn_timeout_def becoming_def goto_def)

lemma becoming_recv:
  assumes recv: "conn_recv ser de H received cn h = (out, cn', h')" and pid: "becoming cn' pid" "\<not> becoming cn pid"
  shows "\<exists>msg rid name tok. received = Some msg \<and> de msg = Some (Join pid rid name tok) \<and>
    \<not> invalid_room_id (hk_max_room_id_len H) rid \<and> fst (hk_on_authenticate H pid rid tok h) = Inr ()"
proof -
  obtain msg sdp where m: "received = Some msg" "de msg = Some sdp"
    using recv pid by (cases received; cases "de (the received)") (auto simp: conn_recv_def becoming_def goto_def)
  show ?thesis
  proof (cases "cn_pid cn")
    case (Some p)
    then show ?thesis
      using recv pid m by (auto simp: conn_recv_def joined_message_def becoming_def goto_def Let_def split: prod.splits if_splits)
  next
    case None
    then obtain p rid name tok where sdp: "sdp = Join p rid name tok"
      and first: "first_join ser H p rid name tok msg cn h = (out, cn', h')"
      using recv pid m by (cases sdp) (simp_all add: conn_recv_def)
    have "p = pid \<and> \<not> invalid_room_id (hk_max_room_id_len H) rid \<and> fst (hk_on_authenticate H p rid tok h) = Inr ()"
      using first pid None
      by (auto simp: first_join_def becoming_def goto_def split: if_splits outcome.splits sum.splits prod.splits)
    then show ?thesis
      using m sdp by blast
  qed
qed

lemma closure_accepts:
  assumes "fst (hk_on_authenticate (closure_hooks (builder_closures b) H) pid rid tok f) = Inr ()"
  shows "\<forall>auth. bd_auth_fn b = Some auth \<longrightarrow> fst (auth pid rid tok (fa_user f)) = Inr ()"
  using assms
  by (auto simp: closure_hooks_def closure_on_authenticate_def builder_closures_def Let_def split: prod.splits sum.splits)

lemma trace_joined:
  "facade_trace ser show de b user es = (sv, cs) \<Longrightarrow> k < length (sv_conns sv) \<Longrightarrow> becoming (sv_conns sv ! k) pid \<Longrightarrow>
    joined_by ser show de b user es k pid"
proof (induction es arbitrary: sv cs rule: rev_induct)
  case Nil
  then show ?case
    by (auto simp: facade_trace_simps build_state_def server_new_def Let_def split: if_splits)
next
  case (snoc e es)
  obtain sv0 cs0 where before: "facade_trace ser show de b user es = (sv0, cs0)"
    by fastforce
  have old: "joined_by ser show de b user (es @ [e]) k pid" if "k < length (sv_conns sv0)" "becoming (sv_conns sv0 ! k) pid"
    by (rule joined_by_more [OF snoc.IH [OF before that]])
  show ?case
  proof (cases e)
    case (TaskRound menv rd i)
    then have "sv_conns sv = sv_conns sv0"
      using snoc.prems(1) by (auto simp: facade_trace_simps before split: prod.splits)
    then show ?thesis
      using snoc.prems(2,3) old by simp
  next
    case (AppChange u)
    then have "sv_conns sv = sv_conns sv0"
      using snoc.prems(1) by (auto simp: facade_trace_simps before)
    then show ?thesis
      using snoc.prems(2,3) old by simp
  next
    case (Signal env ev)
    let ?H = "closure_hooks (builder_closures b) (sfu_hooks env)"
    have sv: "sv = snd (sv_step ser show de ?H ev sv0)"
      using snoc.prems(1) Signal by (simp add: facade_trace_simps before)
    show ?thesis
    proof (cases "k < length (sv_conns sv0) \<and> becoming (sv_conns sv0 ! k) pid")
      case True
      then show ?thesis
        using old by blast
    next
      case False
      show ?thesis
      proof (cases ev)
        case (Accept tx)
        then show ?thesis
          using sv snoc.prems(2,3) False by (auto simp: nth_append becoming_new split: if_splits)
      next
        case (DeadlineFired j)
        have "sv_conns sv = sv_conns sv0 \<or> sv_conns sv = (sv_conns sv0)[j := snd (conn_timeout ser (sv_conns sv0 ! j))]"
          by (simp add: sv DeadlineFired put_conn_def split: prod.split)
        then show ?thesis
          using snoc.prems(2,3) False becoming_timeout [of ser "sv_conns sv0 ! k" pid] by (cases "j = k") auto
      next
        case (Advance j is_closed)
        obtain out cn h st where step: "conn_step ser show ?H is_closed (sv_conns sv0 ! j) (sv_hooks sv0, sv_state sv0) = (out, cn, h, st)"
          by (metis surj_pair)
        have "sv_conns sv = sv_conns sv0 \<or> sv_conns sv = (sv_conns sv0)[j := cn]"
          by (simp add: sv Advance step put_conn_def)
        then show ?thesis
          using snoc.prems(2,3) False becoming_step [OF step, of pid] by (cases "j = k") auto
      next
        case (Receive j received)
        obtain out cn h where recv: "conn_recv ser de ?H received (sv_conns sv0 ! j) (sv_hooks sv0) = (out, cn, h)"
          by (metis surj_pair)
        have j: "j = k" "k < length (sv_conns sv0)" "becoming cn pid"
          using sv snoc.prems(2,3) False Receive recv
          by (auto simp: put_conn_def nth_list_update split: if_splits)
        then obtain msg rid name tok where m: "received = Some msg" "de msg = Some (Join pid rid name tok)"
          "\<not> invalid_room_id (hk_max_room_id_len ?H) rid" "fst (hk_on_authenticate ?H pid rid tok (sv_hooks sv0)) = Inr ()"
          using becoming_recv [OF recv, of pid] False by blast
        have "\<forall>auth. bd_auth_fn b = Some auth \<longrightarrow> fst (auth pid rid tok (app_state ser show de b user es)) = Inr ()"
          using closure_accepts [OF m(4)] by (simp add: app_state_def before)
        moreover have "hk_max_room_id_len ?H = id_limit b"
          by (simp add: closure_hooks_def builder_closures_def id_limit_def sfu_hooks_def noop_hooks_def)
        moreover have ev: "es @ [e] = es @ Signal env (Receive k (Some msg)) # []"
          using m(1) Receive Signal j(1) by simp
        ultimately show ?thesis
          unfolding joined_by_def using m(2,3) ev by metis
      qed
    qed
  qed
qed

lemma participants_authenticated:
  assumes "build env sfu_bind ws_bind user b = Ret (Inr s)" "\<not> bd_allow_unauth_joins b"
    and "facade_trace ser show de b user es = (sv, cs)" "k < length (sv_conns sv)" "cn_pid (sv_conns sv ! k) = Some pid"
  shows "\<exists>auth es1 es2 env msg rid name tok. bd_auth_fn b = Some auth \<and> es = es1 @ Signal env (Receive k (Some msg)) # es2 \<and>
    de msg = Some (Join pid rid name tok) \<and> \<not> invalid_room_id (id_limit b) rid \<and>
    fst (auth pid rid tok (app_state ser show de b user es1)) = Inr ()"
proof -
  have "bd_auth_fn b \<noteq> None"
    using assms(1,2) by (auto simp: build_def split: if_splits)
  moreover have "joined_by ser show de b user es k pid"
    using trace_joined [OF assms(3,4)] assms(5) by (simp add: becoming_def)
  ultimately show ?thesis
    unfolding joined_by_def by fast
qed


definition demo_run :: "unit facade_event list" where
  "demo_run = map (Signal demo_sfu_env) (take 3 demo_media_events)"

lemma facade_do_signals:
  "fold (facade_do ser show de b) (map (Signal env) evs) (sv, cs) = (facade_run ser show de b env evs sv, cs)"
  by (induction evs arbitrary: sv) simp_all

lemma demo_run_end: "facade_trace (\<lambda>_. None) (\<lambda>_. []) demo_de demo_builder () demo_run = (demo_facade, \<lambda>_. 0)"
  by (simp only: facade_trace_def demo_run_def demo_facade_def facade_do_signals)


end
