(* ===== verification/Meet_Main.thy ===== *)
theory Meet_Main
  imports Meet_Server Sfu_Startup Facade_Trace
begin

text \<open>
  \<open>main\<close> of \<open>examples/meet/server/main.rs\<close>: reading the environment, choosing the provider, building the server
  and binding the HTTP listener, up to the point where both servers run. Logging is left out.

  The environment variables and the answers of the operating system are the fields of \<open>os\<close>; so is the reading of
  IP and socket addresses. A failed \<open>expect\<close> is a panic.
\<close>

section \<open>Numbers in the environment\<close>

fun parse_upto :: "nat \<Rightarrow> string \<Rightarrow> nat \<Rightarrow> nat option" where
  "parse_upto most [] acc = Some acc"
| "parse_upto most (c # cs) acc =
    (let d = of_char c :: nat in
     if 48 \<le> d \<and> d \<le> 57 \<and> acc * 10 + (d - 48) \<le> most then parse_upto most cs (acc * 10 + (d - 48)) else None)"

definition parse_u16 :: "string \<Rightarrow> u16 option" where
  \<comment> \<open>\<open>str::parse::<u16>().ok()\<close>\<close>
  "parse_u16 s =
    (let ds = (case s of CHR ''+'' # rest \<Rightarrow> rest | _ \<Rightarrow> s) in
     if ds = [] then None else map_option of_nat (parse_upto 65535 ds 0))"

lemma parse_upto_u8: "parse_upto 255 s acc = parse_digits s acc"
  by (induction s arbitrary: acc) (simp_all only: parse_upto.simps parse_digits.simps)

lemma parse_upto_show: "n \<le> most \<Longrightarrow> parse_upto most (show_nat n @ s) 0 = parse_upto most s n"
proof (induction n arbitrary: s rule: show_nat.induct)
  case (1 n)
  have digit: "of_char (char_of (48 + d) :: char) = 48 + d" if "d < 10" for d :: nat
    using that by (simp add: of_char_of)
  show ?case
  proof (cases "n < 10")
    case True
    then show ?thesis
      using 1(2) digit [of n] by (subst show_nat.simps) (simp add: Let_def)
  next
    case False
    have tens: "n div 10 * 10 + n mod 10 = n" "n mod 10 \<le> 9"
      using pos_mod_bound [of 10 n] by (simp_all add: less_Suc_eq_le [symmetric])
    have "n div 10 \<le> most"
      using 1(2) by (meson div_le_dividend order_trans)
    then show ?thesis
      using 1(1) [OF False, of "char_of (48 + n mod 10) # s"] False 1(2) digit [of "n mod 10"] tens
      by (subst show_nat.simps) (simp add: Let_def)
  qed
qed

lemma show_nat_digits: "show_nat n \<noteq> []" "c \<in> set (show_nat n) \<Longrightarrow> c \<noteq> CHR ''+''"
proof -
  have digit: "(char_of (48 + d) :: char) \<noteq> CHR ''+''" if "d < 10" for d :: nat
  proof
    assume "(char_of (48 + d) :: char) = CHR ''+''"
    then have "of_char (char_of (48 + d) :: char) = (43 :: nat)"
      by simp
    then show False
      using that by (simp add: of_char_of)
  qed
  show "show_nat n \<noteq> []"
    by (subst show_nat.simps) simp
  show "c \<in> set (show_nat n) \<Longrightarrow> c \<noteq> CHR ''+''"
  proof (induction n rule: show_nat.induct)
    case (1 n)
    have last: "n mod 10 < 10"
      by simp
    have step: "set (show_nat n) = (if n < 10 then {char_of (48 + n)} else insert (char_of (48 + n mod 10)) (set (show_nat (n div 10))))"
      by (subst show_nat.simps) simp
    show ?case
      using 1 digit [OF last] digit [of n] unfolding step by (cases "n < 10") auto
  qed
qed

text \<open>A port written in decimal is read back.\<close>

lemma parse_u16_show: "n < 65536 \<Longrightarrow> parse_u16 (show_nat n) = Some (of_nat n)"
proof -
  assume n: "n < 65536"
  obtain c cs where show_n: "show_nat n = c # cs" "c \<noteq> CHR ''+''"
    using show_nat_digits(1) [of n] show_nat_digits(2) [of _ n] by (cases "show_nat n") auto
  have "(case show_nat n of CHR ''+'' # rest \<Rightarrow> rest | _ \<Rightarrow> show_nat n) = show_nat n"
    unfolding show_n(1) using show_n(2) by (auto split: char.split bool.split)
  then show ?thesis
    using parse_upto_show [of n 65535 "[]"] n show_nat_digits(1) [of n] by (simp add: parse_u16_def Let_def)
qed

section \<open>Starting up\<close>

record os =
  os_var :: "string \<Rightarrow> string option"
  os_uuid :: "string \<Rightarrow> uuid option"
  os_socket_addr :: "string \<Rightarrow> string option"
  os_ip :: "string \<Rightarrow> string option"
  os_udp_bind :: "string \<Rightarrow> string + u16"
  os_ws_bind :: "string \<Rightarrow> sea_error + unit"
  os_http_bind :: "string \<Rightarrow> bool"

definition meet_udp_port :: "os \<Rightarrow> u16" where
  "meet_udp_port os = (case Option.bind (os_var os ''UDP_PORT'') parse_u16 of Some port \<Rightarrow> port | None \<Rightarrow> 10000)"

definition meet_http_addr :: "os \<Rightarrow> string" where
  "meet_http_addr os = (case Option.bind (os_var os ''HTTP_ADDR'') (os_socket_addr os) of Some addr \<Rightarrow> addr | None \<Rightarrow> ''0.0.0.0:3002'')"

definition JWKS_REFRESH_INTERVAL :: duration where
  "JWKS_REFRESH_INTERVAL = 300 * 10 ^ 9"

record meet_process =
  me_server :: "(time \<times> rate_state, unit) seameet_server"
  me_auth :: auth_provider
  me_refresh :: "duration option"
  me_http_addr :: string

definition meet_main_builder :: "os \<Rightarrow> (time \<times> rate_state, unit) server_builder" where
  "meet_main_builder os = meet_builder (meet_udp_port os) (Option.bind (os_var os ''PUBLIC_IP'') (os_ip os))"

definition meet_main :: "sfu_env \<Rightarrow> os \<Rightarrow> time \<Rightarrow> meet_process outcome" where
  "meet_main env os now =
    (let auth = select_auth (os_var os) (os_uuid os) in
     case build env (sfu_bind_of (os_udp_bind os)) (os_ws_bind os) (now, []) (meet_main_builder os) of
       Panic \<Rightarrow> Panic
     | Ret (Inl e) \<Rightarrow> Panic
     | Ret (Inr server) \<Rightarrow>
        if os_http_bind os (meet_http_addr os)
        then Ret \<lparr>me_server = server, me_auth = auth,
                  me_refresh = (case auth of JwksAuth _ \<Rightarrow> Some JWKS_REFRESH_INTERVAL | _ \<Rightarrow> None),
                  me_http_addr = meet_http_addr os\<rparr>
        else Panic)"

section \<open>What follows\<close>

lemma meet_builder_fields:
  "bd_auth_fn (meet_builder port ip) = Some meet_auth_fn" "bd_rate_fn (meet_builder port ip) = Some meet_rate_fn"
  "bd_require_e2ee (meet_builder port ip)" "\<not> bd_allow_unauth_joins (meet_builder port ip)"
  "bd_event_capacity (meet_builder port ip) = 256" "bd_udp_port (meet_builder port ip) = port"
  "bd_ws_addr (meet_builder port ip) = ''0.0.0.0:3001''" "bd_connection_fn (meet_builder port ip) = None"
  by (simp_all add: meet_builder_def builder_new_def split: option.split)

text \<open>The process comes up exactly when its three sockets can be bound.\<close>

lemma meet_build:
  "build env (sfu_bind_of udp_bind) ws_bind user (meet_builder port ip) =
    (case udp_bind (''0.0.0.0:'' @ show_nat (unat port)) of
       Inl e \<Rightarrow> Ret (Inl (Io e))
     | Inr bound \<Rightarrow>
        (case ws_bind ''0.0.0.0:3001'' of
           Inl e \<Rightarrow> Ret (Inl e)
         | Inr _ \<Rightarrow> Ret (Inr \<lparr>ss_server = build_state (meet_builder port ip) user,
             ss_hooks = closure_hooks (builder_closures (meet_builder port ip)) (sfu_hooks env), ss_handler = RunConnection,
             ss_udp_port = bound\<rparr>)))"
  by (simp add: build_def meet_builder_fields sfu_bind_of_def sfu_start_def builder_sfu_config_def split: sum.split)

lemma meet_main_starts_iff:
  "meet_main env os now \<noteq> Panic \<longleftrightarrow>
    (\<exists>port. os_udp_bind os (''0.0.0.0:'' @ show_nat (unat (meet_udp_port os))) = Inr port) \<and>
    os_ws_bind os ''0.0.0.0:3001'' = Inr () \<and> os_http_bind os (meet_http_addr os)"
  by (simp add: meet_main_def meet_main_builder_def meet_build Let_def split: sum.split)

text \<open>
  The provider guards the HTTP interface only. The WebSocket side of the server is the same whichever provider is
  configured, and lets in whoever sends any token at all.
\<close>

lemma websocket_ignores_provider:
  assumes "meet_main env os now = Ret m" "meet_main env (os\<lparr>os_var := var\<rparr>) now = Ret m'"
    and "var ''UDP_PORT'' = os_var os ''UDP_PORT''" "var ''PUBLIC_IP'' = os_var os ''PUBLIC_IP''"
  shows "me_server m' = me_server m"
  using assms by (auto simp: meet_main_def meet_main_builder_def meet_build meet_udp_port_def Let_def split: sum.splits if_splits)

lemma any_token_joins:
  assumes "meet_main env os now = Ret m" "t \<noteq> []"
  shows "fst (hk_on_authenticate (ss_hooks (me_server m)) pid rid (Some t) f) = Inr ()"
    "fst (hk_on_authenticate (ss_hooks (me_server m)) pid rid None f) = Inl ''missing token''"
  using assms
  by (auto simp: meet_main_def meet_main_builder_def meet_build Let_def closure_hooks_def closure_on_authenticate_def builder_closures_def meet_builder_fields
      meet_auth_fn_def split: sum.splits if_splits)

section \<open>What the running server demands\<close>

text \<open>
  C32: In every run of the server that \<open>main\<close> starts, a connection that has become a participant has sent, earlier in
  the run, a \<open>Join\<close> in that participant's name for a valid room with a token that is not empty; and every
  participant is asked for an end-to-end encryption key.
\<close>

theorem meet_participants_presented_tokens:
  assumes "meet_main env os now = Ret m" "facade_trace ser show de (meet_main_builder os) (now, []) es = (sv, cs)"
    and "k < length (sv_conns sv)" "cn_pid (sv_conns sv ! k) = Some pid"
  shows "(\<exists>e msg rid name t. Signal e (Receive k (Some msg)) \<in> set es \<and> de msg = Some (Join pid rid name (Some t)) \<and> t \<noteq> [] \<and>
      \<not> invalid_room_id 64 rid) \<and> hk_require_e2ee (ss_hooks (me_server m))"
proof -
  let ?b = "meet_main_builder os"
  obtain s where s: "build env (sfu_bind_of (os_udp_bind os)) (os_ws_bind os) (now, []) ?b = Ret (Inr s)" "me_server m = s"
    using assms(1) by (auto simp: meet_main_def Let_def split: outcome.splits sum.splits if_splits)
  have policy: "\<not> bd_allow_unauth_joins ?b" "bd_auth_fn ?b = Some meet_auth_fn" "id_limit ?b = 64"
    by (simp_all add: meet_main_builder_def meet_builder_fields id_limit_def) (simp add: meet_builder_def builder_new_def unwrap_or_def split: option.split)
  obtain es1 es2 e msg rid name tok where run: "es = es1 @ Signal e (Receive k (Some msg)) # es2" and j: "de msg = Some (Join pid rid name tok)"
    "\<not> invalid_room_id 64 rid" "fst (meet_auth_fn pid rid tok (app_state ser show de ?b (now, []) es1)) = Inr ()"
    using participants_authenticated [OF s(1) policy(1) assms(2-4)] policy(2,3) by auto
  obtain t where "tok = Some t" "t \<noteq> []"
    using j(3) by (auto simp: meet_auth_fn_def split: option.splits if_splits)
  moreover have "Signal e (Receive k (Some msg)) \<in> set es"
    using run by simp
  moreover have "hk_require_e2ee (ss_hooks s)"
    using s(1) by (auto simp: build_def closure_hooks_def builder_closures_def meet_main_builder_def meet_builder_fields
        split: sum.splits if_splits)
  ultimately show ?thesis
    using j s(2) by blast
qed

definition demo_os :: os where
  "demo_os = \<lparr>os_var = (\<lambda>_. None), os_uuid = (\<lambda>_. None), os_socket_addr = Some, os_ip = Some, os_udp_bind = (\<lambda>_. Inr 10000),
     os_ws_bind = (\<lambda>_. Inr ()), os_http_bind = (\<lambda>_. True)\<rparr>"

definition token_de :: "string \<Rightarrow> sdp_message option" where
  "token_de msg = Some (Join (ParticipantId 1) ''a'' None (Some ''t''))"

definition demo_meet :: "(sfu_server, time \<times> rate_state) facade server" where
  "demo_meet = facade_run (\<lambda>_. None) (\<lambda>_. []) token_de (meet_main_builder demo_os) demo_sfu_env (take 3 demo_media_events)
     (build_state (meet_main_builder demo_os) (0, []))"

lemma demo_meet_run:
  "facade_trace (\<lambda>_. None) (\<lambda>_. []) token_de (meet_main_builder demo_os) (0, []) (map (Signal demo_sfu_env) (take 3 demo_media_events)) =
    (demo_meet, \<lambda>_. 0)"
  by (simp only: facade_trace_def demo_meet_def facade_do_signals)

lemma demo_meet_joined: "map cn_pid (sv_conns demo_meet) = [Some (ParticipantId 1)]"
  by code_simp

theorem meet_participants_presented_tokens_witness:
  "\<exists>e msg rid name t. Signal e (Receive 0 (Some msg)) \<in> set (map (Signal demo_sfu_env) (take 3 demo_media_events) :: (time \<times> rate_state) facade_event list) \<and>
    token_de msg = Some (Join (ParticipantId 1) rid name (Some t)) \<and> t \<noteq> []"
proof -
  have "0 < length (sv_conns demo_meet)" "cn_pid (sv_conns demo_meet ! 0) = Some (ParticipantId 1)"
    using demo_meet_joined by (cases "sv_conns demo_meet"; simp)+
  moreover obtain m where "meet_main demo_sfu_env demo_os 0 = Ret m"
    using meet_main_starts_iff [of demo_sfu_env demo_os 0] by (cases "meet_main demo_sfu_env demo_os 0") (simp_all add: demo_os_def)
  ultimately show ?thesis
    using meet_participants_presented_tokens [OF _ demo_meet_run] by blast
qed

end
