(* ===== verification/Spec2Isabelle.thy ===== *)
theory Spec2Isabelle
  imports Rtcp_Packet Sfu_Delivery Sfu_Regions Codec_Ffi Room_Lifecycle Signaling_Transport Meet_Main
begin

text \<open>
  \<^bold>\<open>SeaMeet: a verification library for its servers, its media path and its clients.\<close>

  SeaMeet is a WebRTC conferencing system in Rust. Clients talk to a \<^emph>\<open>signaling engine\<close> over WebSockets; a \<^emph>\<open>selective
  forwarding unit\<close> (SFU) answers their SDP offers and forwards RTP between the members of a room; a second, smaller path
  (\<open>seameet::Room\<close>) forwards media between peer connections of one process; the \<^emph>\<open>application server\<close> puts closures of an
  application in front of the SFU; \<open>examples/meet/server\<close> deploys it.

  \<^bold>\<open>How the parts interact.\<close> A connection (\<open>run_connection\<close>) reads text from a transport, parses a message, passes the
  first join through authentication, hands every message to the \<^emph>\<open>hooks\<close> and, unless they handled it, to \<open>dispatch\<close>,
  which changes the shared signaling state and sends to members. The SFU is an implementation of the hooks: it keeps
  rooms of peers, spawns one media task per participant and sends commands to the tasks. A media task drains the
  session's outputs, forwards packets to the other tasks, and writes what it gets from them on media lines of its own
  session. The application server is an implementation of the hooks around the SFU.

  \<^bold>\<open>Theories and sources.\<close>
    \<^item> \<open>Prelude\<close>: words, panics as values (\<open>outcome\<close>), the association lists that stand for \<open>HashMap\<close> and \<open>BTreeMap\<close>, both
      interpretations of the locale \<open>map_store\<close>. \<open>Bytes\<close>: big-endian fields on byte lists. \<open>Core_Types\<close>: crate \<open>seameet-core\<close>.
    \<^item> \<open>Rtp_Packet\<close>, \<open>Rtcp_Packet\<close>, \<open>Jitter_Buffer\<close>, \<open>Rtp_Sender\<close>: \<open>packet.rs\<close>, \<open>rtcp.rs\<close>, \<open>jitter.rs\<close>, \<open>sender.rs\<close> of
      \<open>seameet-rtp\<close>: serialising and parsing are inverse, the parser's panic is characterised, the jitter buffer emits in
      order, a video frame is cut into numbered fragments.
    \<^item> \<open>Codec_Audio_Video\<close>, \<open>Codec_Ffi\<close>: \<open>seameet-codec\<close> as built without and with the C libraries, whose calls are parameters; both
      builds accept the same configurations. The locale \<open>lossless_audio\<close> is interpreted on the passthrough codec. \<open>Pipeline_Media\<close>: processors (a codatatype, since they carry state), inbound and outbound
      pipelines of \<open>seameet-pipeline\<close>: what is sent comes out again, in whatever order the packets arrive.
    \<^item> \<open>Pipeline_Connection\<close>: \<open>peer_connection.rs\<close> and \<open>peer.rs\<close>: both event loops, which agree.
    \<^item> \<open>Signaling_Message\<close>, \<open>Signaling_State\<close>, \<open>Signaling_Dispatch\<close>, \<open>Signaling_Connection\<close>: \<open>message.rs\<close> and \<open>engine.rs\<close> of
      \<open>seameet-signaling\<close>. The locale \<open>membership\<close> is the abstract specification of joining and leaving, refined by the
      state; the locale \<open>signaling_hooks\<close> is the contract between engine and hooks, \<open>hook_invariant\<close> lifts an invariant of
      the hooks' own state to every interleaving. A connection is a small machine with one step per region that
      locks the shared state; \<open>sv_step\<close> interleaves any number of them.
    \<^item> \<open>Signaling_Refinement\<close>: membership as an abstract transition system; the locale \<open>membership_hooks\<close> extends the
      contract of the hooks by respect for it, and the engine with any such hooks refines it step by step.
    \<^item> \<open>Signaling_Transport\<close>: \<open>ws.rs\<close>, \<open>ws_listener.rs\<close>, \<open>room_server.rs\<close>: connecting ends, with doubling delays.
    \<^item> \<open>Str0m_Types\<close>: what the code sees of the WebRTC library \<open>str0m\<close>.
    \<^item> \<open>Sfu_Sdp\<close>, \<open>Sfu_Slots\<close>, \<open>Sfu_Media\<close>, \<open>Sfu_Media_Props\<close>, \<open>Sfu_Flow\<close>: \<open>media.rs\<close> of \<open>seameet-sfu\<close>: patching SDP, source
      slots, the media task with every command and periodic duty, in-flight counters. Lines are never shared, audio
      sequence numbers never go back, muted audio is not forwarded, buffers and counters are bounded.
    \<^item> \<open>Sfu_Server\<close>, \<open>Sfu_System\<close>: \<open>lib.rs\<close> of \<open>seameet-sfu\<close> as hooks of the engine (interpretations \<open>sfu\<close> and
      \<open>sfu_state\<close>), and the whole system of connections and media tasks.
    \<^item> \<open>Sfu_Isolation\<close>, \<open>Sfu_Delivery\<close>: where a packet goes: only to media tasks of the sender's room, to every one of them
      whose load allows it, and, once the source has its slot, out on the receiver's line for it.
    \<^item> \<open>Sfu_Membership\<close>: the whole server refines the abstract membership; what the hooks do in spite of it.
    \<^item> \<open>Sfu_Interleaving\<close>: the hooks of the SFU cut into their lock regions. Uninterrupted they are the atomic hooks; in every
      interleaving with each other and with the media tasks the server keeps its invariant.
    \<^item> \<open>Sfu_Regions\<close>: the whole server lock region by lock region, with connections, hooks in progress and media tasks. It keeps the
      invariants of both sides, and every run with atomic hooks is one of its runs.
    \<^item> \<open>Room_Forwarding\<close>, \<open>Room_Lifecycle\<close>: \<open>room.rs\<close> of \<open>seameet\<close>: the forwarding task, whose slot allocation is shown equal to
      that of the SFU, and the room with its concurrent calls and tasks.
    \<^item> \<open>Facade_Server\<close>: \<open>server.rs\<close>, \<open>server_event.rs\<close>: closures in front of hooks keep the contracts of the hooks (two
      sublocales), so the properties of the SFU hold of the server an application builds, and nobody becomes a
      participant without the application's consent. \<open>Facade_Trace\<close>: runs of that server as event lists; every participant
      is traced back to the Join that made it one.
    \<^item> \<open>Sfu_Startup\<close>: the sockets, settings and candidates that \<open>Sfu_Server\<close> summarises, with the answer to an offer computed
      from the calls of \<open>str0m\<close>.
    \<^item> \<open>Meet_Server\<close>, \<open>Meet_Main\<close>: \<open>auth_jwks.rs\<close>, \<open>http.rs\<close>, \<open>main.rs\<close> of the example: token checks, the rate limiter, and
      \<open>main\<close> up to the running servers, whose participants have presented tokens.

  \<^bold>\<open>Conventions.\<close> Structs are records, enums datatypes, \<open>u8\<close> to \<open>u32\<close> words whose arithmetic wraps as in a release build; \<open>u64\<close> and
  \<open>usize\<close> counters are natural numbers, since nothing here counts to their limit. A string is its UTF-8 bytes. A panic is the value
  \<open>Panic\<close>. Sends on channels are listed in order; a channel is a number. Durations and instants are nanoseconds. Code that is not in the
  repository is an argument: \<open>str0m\<close>, the JSON serialiser, sockets, the WebSocket and JWT libraries, the clock, random
  identifiers, the application's closures.

  \<^bold>\<open>Loops and fuel.\<close> A task that runs until it is stopped takes the list of what its \<open>select!\<close> meets, so its model is
  total and a statement about every list is a statement about every finite run; no fuel is needed. The loop that must end by itself,
  \<open>connect_ws\<close>, is shown to return once enough attempts have been made.

  \<^bold>\<open>Atomicity.\<close> Steps are the regions between locks of the shared state. In \<open>Sfu_Server\<close> and \<open>Sfu_System\<close> a call of the SFU's hooks
  is one step, although the code takes several locks there; \<open>Sfu_Interleaving\<close> opens the calls that have more than one region
  that writes (offers, joins, disconnections), and \<open>Sfu_Regions\<close> runs the whole server that way, including the panic of \<open>local_ip\<close>
  when no socket is left. Calls whose only writes are sends stay one step there.

  \<^bold>\<open>Not modelled.\<close> The bodies of \<open>str0m\<close>, \<open>libopus\<close> and the other libraries; the route table of \<open>http.rs\<close> and logging;
  trait declarations (\<open>transport.rs\<close>, \<open>traits.rs\<close>) and crate roots, which have no behaviour; the browser client; tests. The
  application server (\<open>Facade_Server\<close>, \<open>Facade_Trace\<close>) is composed with the atomic hooks only.
\<close>

end
